(* ===== verification/Go_Prelude.thy ===== *)
theory Go_Prelude
  imports Main "HOL-Library.Word" "HOL-Library.Monad_Syntax" "HOL-Library.AList"
begin

section \<open>Go values, panics and the proof rules for them\<close>

text \<open>
  What every component shares.

  \<^item> Go's \<^verbatim>\<open>uint64\<close>, \<^verbatim>\<open>uint32\<close> and \<^verbatim>\<open>byte\<close> are machine words and wrap around.
    Go's \<^verbatim>\<open>int\<close> (sizes, tick counters) is \<^typ>\<open>int\<close>: it is signed, so it can be
    negative. A counter that goes up by one from 0 is not wrapped, since none gets near \<open>2 ^ 63\<close>; a sum that a
    configuration can make too large is (\<open>go_wrap\<close>).
  \<^item> A Go call that may panic is an \<^typ>\<open>'a option\<close>: \<^term>\<open>None\<close> is a call that does not
    return normally (a panic, a nil dereference, an index out of range, an endless loop).
    The option monad then composes calls the way Go statements do, and a nil pointer
    (\<^term>\<open>None\<close>) that is dereferenced in a \<^verbatim>\<open>do\<close> block is exactly a panic.
  \<^item> A Go \<^verbatim>\<open>(T, error)\<close> result is a pair of the value and an optional error.
  \<^item> A Go map is an association list with distinct keys. The order of the list is the order
    in which \<^verbatim>\<open>range\<close> visits the map, which Go leaves unspecified: theorems hold for every
    order, unless a theorem is about the order itself.
  \<^item> \<open>ensures\<close> and \<open>returns\<close> are the weakest preconditions of partial and total
    correctness; the components state the contract of an operation with them.
\<close>

type_synonym uint64 = "64 word"
type_synonym uint32 = "32 word"
type_synonym byte = "8 word"
type_synonym bytes = "byte list"
type_synonym ('k, 'v) gomap = "('k \<times> 'v) list"

text \<open>The value of an \<^verbatim>\<open>int\<close> expression, which has 64 bits.\<close>

definition go_wrap :: "int \<Rightarrow> int" where
  "go_wrap x = (x + 2 ^ 63) mod 2 ^ 64 - 2 ^ 63"

lemma go_wrap_id: "- (2 ^ 63) \<le> x \<Longrightarrow> x < 2 ^ 63 \<Longrightarrow> go_wrap x = x"
  by (simp add: go_wrap_def)

text \<open>The bytes of an ASCII string literal, for \<^verbatim>\<open>[]byte("...")\<close>.\<close>

definition bytes_of :: "string \<Rightarrow> bytes" where
  "bytes_of s = map of_char s"

subsection \<open>Slices\<close>

text \<open>Index expressions \<open>xs[i]\<close>, index assignments and slice expressions \<open>xs[lo:hi]\<close>.\<close>

definition go_nth :: "'a list \<Rightarrow> int \<Rightarrow> 'a option" where
  "go_nth xs i = (if 0 \<le> i \<and> i < int (length xs) then Some (xs ! nat i) else None)"

definition go_set :: "'a list \<Rightarrow> int \<Rightarrow> 'a \<Rightarrow> 'a list option" where
  "go_set xs i v = (if 0 \<le> i \<and> i < int (length xs) then Some (xs[nat i := v]) else None)"

definition go_slice :: "'a list \<Rightarrow> int \<Rightarrow> int \<Rightarrow> 'a list option" where
  "go_slice xs lo hi =
     (if 0 \<le> lo \<and> lo \<le> hi \<and> hi \<le> int (length xs)
      then Some (take (nat (hi - lo)) (drop (nat lo) xs)) else None)"

text \<open>Index and slice expressions whose index is a \<^verbatim>\<open>uint64\<close>.\<close>

definition go_nth64 :: "'a list \<Rightarrow> uint64 \<Rightarrow> 'a option" where
  "go_nth64 xs i = (if unat i < length xs then Some (xs ! unat i) else None)"

definition go_slice64 :: "'a list \<Rightarrow> uint64 \<Rightarrow> uint64 \<Rightarrow> 'a list option" where
  "go_slice64 xs lo hi =
     (if lo \<le> hi \<and> unat hi \<le> length xs
      then Some (take (unat hi - unat lo) (drop (unat lo) xs)) else None)"

definition go_drop64 :: "'a list \<Rightarrow> uint64 \<Rightarrow> 'a list option" where
  "go_drop64 xs lo = (if unat lo \<le> length xs then Some (drop (unat lo) xs) else None)"

definition len64 :: "'a list \<Rightarrow> uint64" where
  "len64 xs = of_nat (length xs)"

lemma go_nth_Some_iff:
  "go_nth xs i = Some x \<longleftrightarrow> 0 \<le> i \<and> i < int (length xs) \<and> x = xs ! nat i"
  by (auto simp: go_nth_def)

lemma go_nth_int [simp]: "i < length xs \<Longrightarrow> go_nth xs (int i) = Some (xs ! i)"
  by (simp add: go_nth_def)

lemma go_set_Some_iff:
  "go_set xs i v = Some ys \<longleftrightarrow> 0 \<le> i \<and> i < int (length xs) \<and> ys = xs[nat i := v]"
  by (auto simp: go_set_def)

lemma go_nth64_Some_iff: "go_nth64 xs i = Some x \<longleftrightarrow> unat i < length xs \<and> x = xs ! unat i"
  by (auto simp: go_nth64_def)

lemma go_nth64_0 [simp]: "go_nth64 xs 0 = (case xs of [] \<Rightarrow> None | x # _ \<Rightarrow> Some x)"
  by (simp add: go_nth64_def split: list.split)

lemma go_drop64_0 [simp]: "go_drop64 xs 0 = Some xs"
  by (simp add: go_drop64_def)

lemma length_go_slice64: "go_slice64 xs lo hi = Some ys \<Longrightarrow> length ys = unat hi - unat lo"
  by (auto simp: go_slice64_def split: if_splits)

lemma len64_Nil [simp]: "len64 [] = 0"
  by (simp add: len64_def)

lemma unat_len64: "length xs < 2 ^ 64 \<Longrightarrow> unat (len64 xs) = length xs"
  by (simp add: len64_def unat_of_nat)

text \<open>The helpers \<^verbatim>\<open>min\<close> and \<^verbatim>\<open>max\<close>, which \<^verbatim>\<open>raft\<close> and \<^verbatim>\<open>tracker\<close> each define.\<close>

(* raft/util.go 8-13 min *)
definition go_min :: "uint64 \<Rightarrow> uint64 \<Rightarrow> uint64" where
  "go_min a b = (if a > b then b else a)"

(* raft/util.go 14-19 max *)
definition go_max :: "uint64 \<Rightarrow> uint64 \<Rightarrow> uint64" where
  "go_max a b = (if a > b then a else b)"

lemma go_min_eq [simp]: "go_min a b = min a b"
  by (auto simp: go_min_def min_def)

lemma go_max_eq [simp]: "go_max a b = max a b"
  by (auto simp: go_max_def max_def)

subsection \<open>Maps\<close>

definition gomap_keys :: "('k, 'v) gomap \<Rightarrow> 'k list" where
  "gomap_keys m = map fst m"

definition gomap_ok :: "('k, 'v) gomap \<Rightarrow> bool" where
  "gomap_ok m \<longleftrightarrow> distinct (gomap_keys m)"

lemma gomap_ok_Nil [simp]: "gomap_ok []"
  by (simp add: gomap_ok_def gomap_keys_def)

lemma gomap_ok_update [simp]: "gomap_ok m \<Longrightarrow> gomap_ok (AList.update k v m)"
  by (simp add: gomap_ok_def gomap_keys_def distinct_update)

lemma gomap_ok_delete [simp]: "gomap_ok m \<Longrightarrow> gomap_ok (AList.delete k m)"
  by (simp add: gomap_ok_def gomap_keys_def distinct_delete)

lemma gomap_keys_set: "set (gomap_keys m) = dom (map_of m)"
  by (simp add: gomap_keys_def dom_map_of_conv_image_fst)

lemma map_of_gomap_update [simp]: "map_of (AList.update k v m) = (map_of m)(k \<mapsto> v)"
  by (rule AList.update_conv')

lemma map_of_gomap_delete [simp]: "map_of (AList.delete k m) = (map_of m)(k := None)"
  by (rule AList.delete_conv')

lemma gomap_keys_update_present:
  "map_of m k = Some v \<Longrightarrow> gomap_keys (AList.update k w m) = gomap_keys m"
  by (induction m) (auto simp: gomap_keys_def split: if_splits)

subsection \<open>Weakest preconditions of calls that may panic\<close>

named_theorems wp \<open>weakest precondition equations for the option monad\<close>

definition ensures :: "'a option \<Rightarrow> ('a \<Rightarrow> bool) \<Rightarrow> bool" where
  "ensures m Q \<longleftrightarrow> (\<forall>x. m = Some x \<longrightarrow> Q x)"

definition returns :: "'a option \<Rightarrow> ('a \<Rightarrow> bool) \<Rightarrow> bool" where
  "returns m Q \<longleftrightarrow> (\<exists>x. m = Some x \<and> Q x)"

lemma ensures_Some [wp]: "ensures (Some x) Q \<longleftrightarrow> Q x"
  by (simp add: ensures_def)

lemma ensures_None [wp]: "ensures None Q"
  by (simp add: ensures_def)

lemma ensures_bind [wp]:
  "ensures (Option.bind m f) Q \<longleftrightarrow> ensures m (\<lambda>x. ensures (f x) Q)"
  by (cases m) (auto simp: ensures_def)

lemma returns_Some [wp]: "returns (Some x) Q \<longleftrightarrow> Q x"
  by (simp add: returns_def)

lemma returns_None [wp]: "\<not> returns None Q"
  by (simp add: returns_def)

lemma returns_bind [wp]:
  "returns (Option.bind m f) Q \<longleftrightarrow> returns m (\<lambda>x. returns (f x) Q)"
  by (cases m) (auto simp: returns_def)

lemma ensures_mono: "ensures m P \<Longrightarrow> (\<And>x. P x \<Longrightarrow> Q x) \<Longrightarrow> ensures m Q"
  by (simp add: ensures_def)

lemma ensures_True [simp]: "ensures m (\<lambda>_. True)"
  by (simp add: ensures_def)

lemma ensures_conj: "ensures m (\<lambda>x. P x \<and> Q x) \<longleftrightarrow> ensures m P \<and> ensures m Q"
  by (auto simp: ensures_def)

lemma ensures_Let [wp]: "ensures (Let x f) Q \<longleftrightarrow> ensures (f x) Q"
  by (simp add: Let_def)

lemma ensures_if [wp]:
  "ensures (if b then m else m') Q \<longleftrightarrow> (b \<longrightarrow> ensures m Q) \<and> (\<not> b \<longrightarrow> ensures m' Q)"
  by simp

lemma ensures_D: "ensures m Q \<Longrightarrow> m = Some x \<Longrightarrow> Q x"
  by (simp add: ensures_def)

lemma ensures_I: "(\<And>x. m = Some x \<Longrightarrow> Q x) \<Longrightarrow> ensures m Q"
  by (simp add: ensures_def)

lemma returns_mono: "returns m P \<Longrightarrow> (\<And>x. P x \<Longrightarrow> Q x) \<Longrightarrow> returns m Q"
  by (auto simp: returns_def)

lemma returns_iff_ensures: "returns m Q \<longleftrightarrow> m \<noteq> None \<and> ensures m Q"
  by (cases m) (auto simp: returns_def ensures_def)

lemma bind_Some_iff:
  "Option.bind m f = Some y \<longleftrightarrow> (\<exists>x. m = Some x \<and> f x = Some y)"
  by (cases m) auto

subsection \<open>Words\<close>

lemma unat_Suc64: "(x::uint64) \<noteq> - 1 \<Longrightarrow> unat (x + 1) = Suc (unat x)"
  by (metis add.commute unatSuc add_eq_0_iff2)

lemma less_plus_one64: "(x::uint64) \<noteq> - 1 \<Longrightarrow> x < x + 1"
  by (simp add: word_less_nat_alt unat_Suc64)

lemma le_minus_one_iff64: "(y::uint64) \<noteq> 0 \<Longrightarrow> x \<le> y - 1 \<longleftrightarrow> x < y"
  by unat_arith

lemma minus_one_less64: "(x::uint64) \<noteq> 0 \<Longrightarrow> x - 1 < x"
  by unat_arith

lemma max_plus_one64: "(x::uint64) \<noteq> - 1 \<Longrightarrow> x + 1 \<le> y \<longleftrightarrow> x < y"
  by (simp add: word_le_nat_alt word_less_nat_alt unat_Suc64 Suc_le_eq)

lemma unat_less64: "unat (x::uint64) < 2 ^ 64"
  using unsigned_less [of x] by simp

lemma unat_of_nat64: "n < 2 ^ 64 \<Longrightarrow> unat (of_nat n :: uint64) = n"
  by (simp add: unat_of_nat)

lemma unat_add_of_nat64:
  assumes "unat (a::uint64) + n < 2 ^ 64"
  shows "unat (a + of_nat n) = unat a + n"
proof -
  have "unat (of_nat n :: uint64) = n"
    using assms by (intro unat_of_nat64) simp
  with assms show ?thesis
    using unat_add_lem [of a "of_nat n"] by simp
qed

lemma sint_small64:
  assumes "unat (w::uint64) < 2 ^ 63"
  shows "sint w = int (unat w)"
proof -
  have "int (unat w) < int (2 ^ 63)"
    using assms by (simp only: of_nat_less_iff)
  then have "uint w < 2 ^ 63"
    by simp
  moreover have "- (2 ^ 63) \<le> uint w"
    by (rule order_trans [OF _ uint_ge_0]) simp
  ultimately have "signed_take_bit 63 (uint w) = uint w"
    by (intro signed_take_bit_int_eq_self)
  then show ?thesis
    by (simp add: sint_uint)
qed

lemmas word_nat = word_le_nat_alt word_less_nat_alt


subsection \<open>Invariants of step relations\<close>

text \<open>
  A step relation with an invariant that every step keeps. The goroutines, event loops and clusters of the later theories are
  step relations; each of them proves that one step keeps its invariant and gets it for all reachable states from here.
\<close>

locale step_invariant =
  fixes step :: "'s \<Rightarrow> 's \<Rightarrow> bool" and inv :: "'s \<Rightarrow> bool"
  assumes step_keeps: "inv s \<Longrightarrow> step s s' \<Longrightarrow> inv s'"
begin

lemma run_keeps: "step\<^sup>*\<^sup>* s s' \<Longrightarrow> inv s \<Longrightarrow> inv s'"
  by (induction rule: rtranclp_induct) (blast intro: step_keeps)+

lemma trace_keeps:
  assumes "inv (f 0)" "\<And>n. step (f n) (f (Suc n))"
  shows "inv (f n)"
  using assms by (induction n) (blast intro: step_keeps)+

end

end
