(* ===== verification/Raftpb.thy ===== *)
theory Raftpb
  imports Go_Prelude
begin

section \<open>The messages of package raftpb\<close>

text \<open>
  The data of \<^verbatim>\<open>src/raft/raftpb/raft.pb.go\<close>: the enumerations as datatypes with the
  source's constructors and the message structs as records. Fields carry a prefix
  (\<open>e\<close> for Entry, \<open>m\<close> for RaftMessage, \<open>sm\<close> for SnapshotMetadata, ...), because the Go
  structs reuse field names. A pointer field that can be nil is an \<^typ>\<open>'a option\<close>; the
  protobuf bookkeeping fields (\<^verbatim>\<open>state\<close>, \<^verbatim>\<open>sizeCache\<close>, \<^verbatim>\<open>unknownFields\<close>) carry no data of
  the program. \<open>X_zero\<close> is Go's zero value of the struct \<open>X\<close>, from which the code builds
  messages by naming the fields it sets. The error values of package raft are here too,
  because every component of it returns them.
\<close>

subsection \<open>Enumerations\<close>

(* raft/raftpb/raft.pb.go 23-45 MessageType *)
datatype MessageType =
    MsgHup | MsgBeat | MsgProp | MsgApp | MsgAppResp | MsgVote | MsgVoteResp | MsgSnap
  | MsgHeartbeat | MsgHeartbeatResp | MsgUnreachable | MsgSnapStatus | MsgCheckQuorum
  | MsgTransferLeader | MsgTimeoutNow | MsgReadIndex | MsgReadIndexResp | MsgPreVote
  | MsgPreVoteResp

(* raft/raftpb/raft.pb.go 120-125 EntryType *)
datatype EntryType = EntryNormal | EntryConfChange

(* raft/raftpb/raft.pb.go 166-173 ConfChangeType *)
datatype ConfChangeType =
  ConfChangeAddNode | ConfChangeRemoveNode | ConfChangeUpdateNode | ConfChangeAddLearnerNode

(* raft/raftpb/raft.pb.go 47-69 MessageType_name *)
definition MessageType_name :: "(int, string) gomap" where
  "MessageType_name =
     [(0, ''MsgHup''), (1, ''MsgBeat''), (2, ''MsgProp''), (3, ''MsgApp''), (4, ''MsgAppResp''),
      (5, ''MsgVote''), (6, ''MsgVoteResp''), (7, ''MsgSnap''), (8, ''MsgHeartbeat''),
      (9, ''MsgHeartbeatResp''), (10, ''MsgUnreachable''), (11, ''MsgSnapStatus''),
      (12, ''MsgCheckQuorum''), (13, ''MsgTransferLeader''), (14, ''MsgTimeoutNow''),
      (15, ''MsgReadIndex''), (16, ''MsgReadIndexResp''), (17, ''MsgPreVote''),
      (18, ''MsgPreVoteResp'')]"

(* raft/raftpb/raft.pb.go 70-91 MessageType_value *)
definition MessageType_value :: "(string, int) gomap" where
  "MessageType_value =
     [(''MsgHup'', 0), (''MsgBeat'', 1), (''MsgProp'', 2), (''MsgApp'', 3), (''MsgAppResp'', 4),
      (''MsgVote'', 5), (''MsgVoteResp'', 6), (''MsgSnap'', 7), (''MsgHeartbeat'', 8),
      (''MsgHeartbeatResp'', 9), (''MsgUnreachable'', 10), (''MsgSnapStatus'', 11),
      (''MsgCheckQuorum'', 12), (''MsgTransferLeader'', 13), (''MsgTimeoutNow'', 14),
      (''MsgReadIndex'', 15), (''MsgReadIndexResp'', 16), (''MsgPreVote'', 17),
      (''MsgPreVoteResp'', 18)]"

subsection \<open>Structs\<close>

(* raft/raftpb/raft.pb.go 218-227 Entry *)
record Entry =
  eTerm :: uint64
  eIndex :: uint64
  eType :: EntryType
  eData :: bytes

(* raft/raftpb/raft.pb.go 542-552 ConfState *)
record ConfState =
  csVoters :: "uint64 list"
  csLearners :: "uint64 list"
  csVotersOutgoing :: "uint64 list"
  csLearnersNext :: "uint64 list"
  csAutoLeave :: bool

(* raft/raftpb/raft.pb.go 289-297 SnapshotMetadata *)
record SnapshotMetadata =
  smIndex :: uint64
  smTerm :: uint64
  smConfState :: "ConfState option"

(* raft/raftpb/raft.pb.go 352-359 Snapshot *)
record Snapshot =
  sData :: bytes
  sMetadata :: "SnapshotMetadata option"

(* raft/raftpb/raft.pb.go 407-424 RaftMessage *)
record RaftMessage =
  mType :: MessageType
  mTo :: uint64
  mFrom :: uint64
  mTerm :: uint64
  mLogTerm :: uint64
  mIndex :: uint64
  mEntries :: "Entry list"
  mCommit :: uint64
  mSnapshot :: "Snapshot option"
  mReject :: bool
  mRejectHint :: uint64
  mContext :: bytes

(* raft/raftpb/raft.pb.go 621-627 ConfChange *)
record ConfChange =
  ccType :: ConfChangeType

(* raft/raftpb/raft.pb.go 668-676 HardState *)
record HardState =
  hTerm :: uint64
  hVote :: uint64
  hCommit :: uint64

(* raft/raftpb/raft.pb.go 229-236 Entry.Reset *)
definition Entry_zero :: Entry where
  "Entry_zero = \<lparr>eTerm = 0, eIndex = 0, eType = EntryNormal, eData = []\<rparr>"

(* raft/raftpb/raft.pb.go 361-368 Snapshot.Reset *)
definition Snapshot_zero :: Snapshot where
  "Snapshot_zero = \<lparr>sData = [], sMetadata = None\<rparr>"

(* raft/raftpb/raft.pb.go 426-433 RaftMessage.Reset *)
definition RaftMessage_zero :: RaftMessage where
  "RaftMessage_zero =
     \<lparr>mType = MsgHup, mTo = 0, mFrom = 0, mTerm = 0, mLogTerm = 0, mIndex = 0, mEntries = [],
      mCommit = 0, mSnapshot = None, mReject = False, mRejectHint = 0, mContext = []\<rparr>"

(* raft/raftpb/raft.pb.go 554-561 ConfState.Reset *)
definition ConfState_zero :: ConfState where
  "ConfState_zero =
     \<lparr>csVoters = [], csLearners = [], csVotersOutgoing = [], csLearnersNext = [],
      csAutoLeave = False\<rparr>"

(* raft/raftpb/raft.pb.go 678-685 HardState.Reset *)
definition HardState_zero :: HardState where
  "HardState_zero = \<lparr>hTerm = 0, hVote = 0, hCommit = 0\<rparr>"

subsection \<open>Errors and the logger\<close>

text \<open>
  The error values of package raft (\<^verbatim>\<open>storage.go\<close>, \<^verbatim>\<open>raft.go\<close>, \<^verbatim>\<open>rawnode.go\<close>, \<^verbatim>\<open>node.go\<close>);
  \<open>Errorf\<close> stands for the errors made in place by \<^verbatim>\<open>errors.New\<close>, which no caller compares.
\<close>

(* raft/storage.go 9-12 ErrCompacted *)
datatype Err =
    ErrCompacted | ErrUnavailable | ErrSnapOutOfDate | ErrSnapshotTemporarilyUnavailable
  | ErrStepLocalMsg | ErrProposalDropped | ErrStepPeerNotFound | ErrStopped | Errorf string

text \<open>
  The \<^verbatim>\<open>Logger\<close> interface writes to a log the program never reads back, so a logging call
  only matters when the interface value is nil: then the call panics. \<^term>\<open>None\<close> is nil, and
  \<open>Logf\<close> is any of the printing methods. \<^verbatim>\<open>Panicf\<close> panics whatever the logger is, so it is
  written \<^term>\<open>None\<close> where the code calls it.
\<close>

type_synonym Logger = "unit option"

(* raft/logger.go 8-26 Logger *)
definition Logf :: "Logger \<Rightarrow> unit option" where
  "Logf lg = (case lg of None \<Rightarrow> None | Some _ \<Rightarrow> Some ())"

lemma Logf_Some [simp]: "Logf (Some u) = Some ()"
  by (simp add: Logf_def)

lemma Logf_None [simp]: "Logf None = None"
  by (simp add: Logf_def)

lemma Logf_eq_Some [simp]: "Logf lg = Some u \<longleftrightarrow> lg \<noteq> None"
  by (cases lg) auto

lemma ensures_Logf [wp]: "ensures (Logf lg) Q \<longleftrightarrow> (lg \<noteq> None \<longrightarrow> Q ())"
  by (cases lg) (auto simp: ensures_def)

lemma returns_Logf [wp]: "returns (Logf lg) Q \<longleftrightarrow> lg \<noteq> None \<and> Q ()"
  by (cases lg) (auto simp: returns_def)

lemmas zero_defs =
  Entry_zero_def Snapshot_zero_def RaftMessage_zero_def ConfState_zero_def HardState_zero_def

end
