(* ===== verification/Quorum.thy ===== *)
theory Quorum
  imports Raftpb "HOL-Library.Multiset"
begin

section \<open>Package quorum: majority and joint configurations\<close>

text \<open>
  \<^verbatim>\<open>src/raft/quorum\<close>: the verdict over a set of votes and the index a quorum has acknowledged.
  A \<^verbatim>\<open>MajorityConfig\<close> (a Go set of voter ids) is the list of its ids in the order in which
  \<^verbatim>\<open>range\<close> visits them; a \<^verbatim>\<open>JointConfig\<close> is a pair of them. Votes and acknowledged indexes are
  only looked up, so they are partial functions.

  The locale \<open>vote_rule\<close> states what the election and the read-index code rely on: a verdict
  never changes once it is decided, an undecided one can still go both ways, and two winning
  verdicts share a voter. It is interpreted on the majority rule and on the joint rule.
\<close>

type_synonym MajorityConfig = "uint64 list"
type_synonym JointConfig = "MajorityConfig \<times> MajorityConfig"

(* raft/quorum/quorum.go 10-16 VoteResult *)
datatype VoteResult = VotePending | VoteLost | VoteWon

text \<open>The loop of \<^verbatim>\<open>VoteResult\<close>: the counters are (ny[0], ny[1], missing).\<close>

(* raft/quorum/majority.go 11-25 MajorityConfig.VoteResult *)
fun countVotes :: "(uint64 \<rightharpoonup> bool) \<Rightarrow> uint64 list \<Rightarrow> nat \<times> nat \<times> nat \<Rightarrow> nat \<times> nat \<times> nat" where
  "countVotes votes [] (no, yes, missing) = (no, yes, missing)"
| "countVotes votes (i # ids) (no, yes, missing) =
     (case votes i of
        None \<Rightarrow> countVotes votes ids (no, yes, missing + 1)
      | Some v \<Rightarrow>
          if v then countVotes votes ids (no, yes + 1, missing)
          else countVotes votes ids (no + 1, yes, missing))"

(* raft/quorum/majority.go 7-34 MajorityConfig.VoteResult *)
definition MajorityConfig_VoteResult :: "MajorityConfig \<Rightarrow> (uint64 \<rightharpoonup> bool) \<Rightarrow> VoteResult" where
  "MajorityConfig_VoteResult m votes =
     (if length m = 0 then VoteWon
      else
        (case countVotes votes m (0, 0, 0) of (no, yes, missing) \<Rightarrow>
           let q = length m div 2 + 1 in
           if yes \<ge> q then VoteWon
           else if yes + missing \<ge> q then VotePending
           else VoteLost))"

text \<open>
  The loop of \<^verbatim>\<open>CommittedIndex\<close> fills an array of zeros from its end with the acknowledged
  indexes, in the order \<^verbatim>\<open>range\<close> visits the voters; \<open>i\<close> is the next position to write.
\<close>

(* raft/quorum/majority.go 48-56 MajorityConfig.CommittedIndex *)
fun fillAcked :: "(uint64 \<rightharpoonup> uint64) \<Rightarrow> uint64 list \<Rightarrow> int \<Rightarrow> uint64 list \<Rightarrow> uint64 list option" where
  "fillAcked l [] i srt = Some srt"
| "fillAcked l (v # vs) i srt =
     (case l v of
        None \<Rightarrow> fillAcked l vs i srt
      | Some idx \<Rightarrow> do {
          srt' \<leftarrow> go_set srt i idx;
          fillAcked l vs (i - 1) srt'
        })"

(* raft/quorum/majority.go 36-59 MajorityConfig.CommittedIndex *)
definition MajorityConfig_CommittedIndex ::
    "MajorityConfig \<Rightarrow> (uint64 \<rightharpoonup> uint64) \<Rightarrow> uint64 option" where
  "MajorityConfig_CommittedIndex m l =
     (let n = length m in
      if n = 0 then Some (- 1)
      else do {
        srt \<leftarrow> fillAcked l m (int n - 1) (replicate n 0);
        let pos = int n - (int n div 2 + 1);
        go_nth srt pos
      })"

(* raft/quorum/joint.go 5-13 JointConfig.IDs *)
definition JointConfig_IDs :: "JointConfig \<Rightarrow> uint64 list" where
  "JointConfig_IDs c = remdups (fst c @ snd c)"

(* raft/quorum/joint.go 14-24 JointConfig.VoteResult *)
definition JointConfig_VoteResult :: "JointConfig \<Rightarrow> (uint64 \<rightharpoonup> bool) \<Rightarrow> VoteResult" where
  "JointConfig_VoteResult c votes =
     (let r1 = MajorityConfig_VoteResult (fst c) votes;
          r2 = MajorityConfig_VoteResult (snd c) votes in
      if r1 = r2 then r1
      else if r1 = VoteLost \<or> r2 = VoteLost then VoteLost
      else VotePending)"

(* raft/quorum/joint.go 25-32 JointConfig.CommittedIndex *)
definition JointConfig_CommittedIndex :: "JointConfig \<Rightarrow> (uint64 \<rightharpoonup> uint64) \<Rightarrow> uint64 option" where
  "JointConfig_CommittedIndex c l = do {
     idx0 \<leftarrow> MajorityConfig_CommittedIndex (fst c) l;
     idx1 \<leftarrow> MajorityConfig_CommittedIndex (snd c) l;
     if idx0 < idx1 then Some idx0 else Some idx1
   }"

subsection \<open>Counting votes\<close>

definition granted :: "MajorityConfig \<Rightarrow> (uint64 \<rightharpoonup> bool) \<Rightarrow> nat" where
  "granted m votes = length (filter (\<lambda>i. votes i = Some True) m)"

definition unvoted :: "MajorityConfig \<Rightarrow> (uint64 \<rightharpoonup> bool) \<Rightarrow> nat" where
  "unvoted m votes = length (filter (\<lambda>i. votes i = None) m)"

lemma countVotes_eq:
  "countVotes votes ids (no, yes, missing) =
     (no + length (filter (\<lambda>i. votes i = Some False) ids), yes + granted ids votes,
      missing + unvoted ids votes)"
  by (induction ids arbitrary: no yes missing)
     (auto simp: granted_def unvoted_def split: option.splits)

lemma VoteResult_eq:
  "MajorityConfig_VoteResult m votes =
     (if m = [] then VoteWon
      else if granted m votes \<ge> length m div 2 + 1 then VoteWon
      else if granted m votes + unvoted m votes \<ge> length m div 2 + 1 then VotePending
      else VoteLost)"
  by (simp add: MajorityConfig_VoteResult_def countVotes_eq Let_def)

lemma granted_mono: "v \<subseteq>\<^sub>m w \<Longrightarrow> granted m v \<le> granted m w"
  unfolding granted_def
  by (induction m) (auto simp: map_le_def dom_def intro: le_SucI)

lemma open_votes_antimono:
  "v \<subseteq>\<^sub>m w \<Longrightarrow> granted m w + unvoted m w \<le> granted m v + unvoted m v"
proof (induction m)
  case (Cons i m)
  have "w i = v i \<or> v i = None"
    using Cons.prems by (auto simp: map_le_def dom_def)
  with Cons show ?case
    by (auto simp: granted_def unvoted_def)
qed (simp add: granted_def unvoted_def)

text \<open>Every vote still missing can be given the same value.\<close>

definition complete_with :: "bool \<Rightarrow> MajorityConfig \<Rightarrow> (uint64 \<rightharpoonup> bool) \<Rightarrow> (uint64 \<rightharpoonup> bool)" where
  "complete_with b m v = (\<lambda>i. if v i = None \<and> i \<in> set m then Some b else v i)"

lemma complete_with_extends: "v \<subseteq>\<^sub>m complete_with b m v"
  by (auto simp: map_le_def complete_with_def dom_def)

lemma granted_complete_True:
  "set m \<subseteq> set ms \<Longrightarrow> granted m (complete_with True ms v) = granted m v + unvoted m v"
  by (induction m) (auto simp: granted_def unvoted_def complete_with_def)

lemma granted_complete_False: "granted m (complete_with False ms v) = granted m v"
  by (auto simp: granted_def complete_with_def intro!: arg_cong [where f = length] filter_cong)

lemma unvoted_complete: "set m \<subseteq> set ms \<Longrightarrow> unvoted m (complete_with b ms v) = 0"
  by (auto simp: unvoted_def complete_with_def filter_empty_conv)

lemma complete_True_wins:
  "set m \<subseteq> set ms \<Longrightarrow> MajorityConfig_VoteResult m v \<noteq> VoteLost \<Longrightarrow>
   MajorityConfig_VoteResult m (complete_with True ms v) = VoteWon"
  by (auto simp: VoteResult_eq granted_complete_True split: if_splits)

lemma complete_False_loses:
  "set m \<subseteq> set ms \<Longrightarrow> MajorityConfig_VoteResult m v = VotePending \<Longrightarrow>
   MajorityConfig_VoteResult m (complete_with False ms v) = VoteLost"
  by (auto simp: VoteResult_eq granted_complete_False unvoted_complete split: if_splits)

lemma granted_card:
  "distinct m \<Longrightarrow> granted m v = card {i \<in> set m. v i = Some True}"
  by (simp add: granted_def distinct_card [symmetric])

lemma majority_overlap:
  assumes "distinct m" and "granted m v > length m div 2" and "granted m w > length m div 2"
  shows "\<exists>i \<in> set m. v i = Some True \<and> w i = Some True"
proof -
  let ?V = "{i \<in> set m. v i = Some True}" and ?W = "{i \<in> set m. w i = Some True}"
  have "card (?V \<union> ?W) \<le> card (set m)"
    by (rule card_mono) auto
  moreover have "card (set m) = length m"
    using assms(1) by (rule distinct_card)
  moreover have "card ?V + card ?W = card (?V \<union> ?W) + card (?V \<inter> ?W)"
    by (rule card_Un_Int) simp_all
  ultimately have "card (?V \<inter> ?W) > 0"
    using assms(2,3) by (simp add: granted_card [OF assms(1)])
  then show ?thesis
    by (auto simp: card_gt_0_iff)
qed

subsection \<open>What users of a vote rule rely on\<close>

locale vote_rule =
  fixes config_ok :: "'c \<Rightarrow> bool"
    and verdict :: "'c \<Rightarrow> (uint64 \<rightharpoonup> bool) \<Rightarrow> VoteResult"
  assumes won_stable: "verdict c v = VoteWon \<Longrightarrow> v \<subseteq>\<^sub>m w \<Longrightarrow> verdict c w = VoteWon"
    and lost_stable: "verdict c v = VoteLost \<Longrightarrow> v \<subseteq>\<^sub>m w \<Longrightarrow> verdict c w = VoteLost"
    and pending_winnable: "verdict c v = VotePending \<Longrightarrow> \<exists>w. v \<subseteq>\<^sub>m w \<and> verdict c w = VoteWon"
    and pending_losable: "verdict c v = VotePending \<Longrightarrow> \<exists>w. v \<subseteq>\<^sub>m w \<and> verdict c w = VoteLost"
    and winners_overlap: "config_ok c \<Longrightarrow> verdict c v = VoteWon \<Longrightarrow> verdict c w = VoteWon \<Longrightarrow>
      \<exists>i. v i = Some True \<and> w i = Some True"
begin

text \<open>The verdict is exactly what the votes cast so far determine.\<close>

lemma lost_iff: "verdict c v = VoteLost \<longleftrightarrow> (\<forall>w. v \<subseteq>\<^sub>m w \<longrightarrow> verdict c w \<noteq> VoteWon)"
proof
  assume "verdict c v = VoteLost"
  then show "\<forall>w. v \<subseteq>\<^sub>m w \<longrightarrow> verdict c w \<noteq> VoteWon"
    using lost_stable by fastforce
next
  assume none: "\<forall>w. v \<subseteq>\<^sub>m w \<longrightarrow> verdict c w \<noteq> VoteWon"
  show "verdict c v = VoteLost"
    using none pending_winnable [of c v] map_le_refl [of v] by (cases "verdict c v") auto
qed

lemma won_iff: "verdict c v = VoteWon \<longleftrightarrow> (\<forall>w. v \<subseteq>\<^sub>m w \<longrightarrow> verdict c w = VoteWon)"
  using won_stable map_le_refl by blast

lemma decided_exactly:
  "(verdict c v = VoteWon \<longleftrightarrow> (\<forall>w. v \<subseteq>\<^sub>m w \<longrightarrow> verdict c w = VoteWon)) \<and>
   (verdict c v = VoteLost \<longleftrightarrow> (\<forall>w. v \<subseteq>\<^sub>m w \<longrightarrow> verdict c w \<noteq> VoteWon)) \<and>
   (verdict c v = VotePending \<longleftrightarrow>
      (\<exists>w. v \<subseteq>\<^sub>m w \<and> verdict c w = VoteWon) \<and> (\<exists>w. v \<subseteq>\<^sub>m w \<and> verdict c w = VoteLost))"
proof (intro conjI)
  show "verdict c v = VotePending \<longleftrightarrow>
      (\<exists>w. v \<subseteq>\<^sub>m w \<and> verdict c w = VoteWon) \<and> (\<exists>w. v \<subseteq>\<^sub>m w \<and> verdict c w = VoteLost)"
    (is "_ \<longleftrightarrow> ?both")
  proof
    assume "verdict c v = VotePending"
    then show ?both by (intro conjI pending_winnable pending_losable)
  next
    assume ?both
    then obtain w1 w2 where "v \<subseteq>\<^sub>m w1" "verdict c w1 = VoteWon" "v \<subseteq>\<^sub>m w2" "verdict c w2 = VoteLost"
      by blast
    then show "verdict c v = VotePending"
      using won_stable [of c v w2] lost_stable [of c v w1] by (cases "verdict c v") auto
  qed
qed (rule won_iff lost_iff)+

text \<open>Two candidates cannot both win the votes of voters who back at most one of them.\<close>

lemma at_most_one_winner:
  assumes "config_ok c" and "\<And>i. \<not> (v i = Some True \<and> w i = Some True)"
    and "verdict c v = VoteWon"
  shows "verdict c w \<noteq> VoteWon"
  using winners_overlap [OF assms(1) assms(3)] assms(2) by blast

end

definition majority_ok :: "MajorityConfig \<Rightarrow> bool" where
  "majority_ok m \<longleftrightarrow> distinct m \<and> m \<noteq> []"

interpretation majority: vote_rule majority_ok MajorityConfig_VoteResult
proof
  fix m v w assume "v \<subseteq>\<^sub>m w" "MajorityConfig_VoteResult m v = VoteWon"
  then show "MajorityConfig_VoteResult m w = VoteWon"
    using granted_mono [of v w m] by (auto simp: VoteResult_eq split: if_splits)
next
  fix m v w assume "v \<subseteq>\<^sub>m w" "MajorityConfig_VoteResult m v = VoteLost"
  then show "MajorityConfig_VoteResult m w = VoteLost"
    using open_votes_antimono [of v w m] by (auto simp: VoteResult_eq split: if_splits)
next
  fix m v assume "MajorityConfig_VoteResult m v = VotePending"
  then show "\<exists>w. v \<subseteq>\<^sub>m w \<and> MajorityConfig_VoteResult m w = VoteWon"
    using complete_with_extends complete_True_wins [of m m v] by fastforce
next
  fix m v assume "MajorityConfig_VoteResult m v = VotePending"
  then show "\<exists>w. v \<subseteq>\<^sub>m w \<and> MajorityConfig_VoteResult m w = VoteLost"
    using complete_with_extends complete_False_loses [of m m v] by fastforce
next
  fix m v w assume "majority_ok m" "MajorityConfig_VoteResult m v = VoteWon"
    "MajorityConfig_VoteResult m w = VoteWon"
  then show "\<exists>i. v i = Some True \<and> w i = Some True"
    using majority_overlap [of m v w] by (auto simp: VoteResult_eq majority_ok_def split: if_splits)
qed

lemma JointVoteResult_iff:
  "JointConfig_VoteResult c v = VoteWon \<longleftrightarrow>
     MajorityConfig_VoteResult (fst c) v = VoteWon \<and> MajorityConfig_VoteResult (snd c) v = VoteWon"
  "JointConfig_VoteResult c v = VoteLost \<longleftrightarrow>
     MajorityConfig_VoteResult (fst c) v = VoteLost \<or> MajorityConfig_VoteResult (snd c) v = VoteLost"
  "JointConfig_VoteResult c v = VotePending \<longleftrightarrow>
     MajorityConfig_VoteResult (fst c) v \<noteq> VoteLost \<and> MajorityConfig_VoteResult (snd c) v \<noteq> VoteLost \<and>
     (MajorityConfig_VoteResult (fst c) v = VotePending \<or> MajorityConfig_VoteResult (snd c) v = VotePending)"
  by (cases "MajorityConfig_VoteResult (fst c) v"; cases "MajorityConfig_VoteResult (snd c) v";
      simp add: JointConfig_VoteResult_def)+

definition joint_ok :: "JointConfig \<Rightarrow> bool" where
  "joint_ok c \<longleftrightarrow> majority_ok (fst c) \<or> majority_ok (snd c)"

interpretation joint: vote_rule joint_ok JointConfig_VoteResult
proof
  fix c v w assume "v \<subseteq>\<^sub>m w" "JointConfig_VoteResult c v = VoteWon"
  then show "JointConfig_VoteResult c w = VoteWon"
    by (auto simp: JointVoteResult_iff intro: majority.won_stable)
next
  fix c v w assume "v \<subseteq>\<^sub>m w" "JointConfig_VoteResult c v = VoteLost"
  then show "JointConfig_VoteResult c w = VoteLost"
    by (auto simp: JointVoteResult_iff intro: majority.lost_stable)
next
  fix c v assume "JointConfig_VoteResult c v = VotePending"
  then have "JointConfig_VoteResult c (complete_with True (fst c @ snd c) v) = VoteWon"
    by (auto simp: JointVoteResult_iff intro: complete_True_wins)
  then show "\<exists>w. v \<subseteq>\<^sub>m w \<and> JointConfig_VoteResult c w = VoteWon"
    using complete_with_extends by blast
next
  fix c v assume "JointConfig_VoteResult c v = VotePending"
  then have "JointConfig_VoteResult c (complete_with False (fst c @ snd c) v) = VoteLost"
    using complete_False_loses [of _ "fst c @ snd c" v] by (auto simp: JointVoteResult_iff)
  then show "\<exists>w. v \<subseteq>\<^sub>m w \<and> JointConfig_VoteResult c w = VoteLost"
    using complete_with_extends by blast
next
  fix c v w assume "joint_ok c" "JointConfig_VoteResult c v = VoteWon" "JointConfig_VoteResult c w = VoteWon"
  then show "\<exists>i. v i = Some True \<and> w i = Some True"
    using majority.winners_overlap by (auto simp: JointVoteResult_iff joint_ok_def)
qed

subsection \<open>The acknowledged index\<close>

definition acks :: "(uint64 \<rightharpoonup> uint64) \<Rightarrow> MajorityConfig \<Rightarrow> uint64 list" where
  "acks l m = List.map_filter l m"

lemma fillAcked_eq:
  "fillAcked l vs (int k - 1) (replicate k 0 @ ys) =
     (if length (acks l vs) \<le> k then Some (replicate (k - length (acks l vs)) 0 @ rev (acks l vs) @ ys)
      else None)"
proof (induction vs arbitrary: k ys)
  case Nil
  then show ?case by (simp add: acks_def List.map_filter_simps)
next
  case (Cons v vs)
  show ?case
  proof (cases "l v")
    case None
    with Cons show ?thesis by (simp add: acks_def List.map_filter_simps)
  next
    case (Some a)
    note acks_Cons = acks_def List.map_filter_simps Some
    show ?thesis
    proof (cases k)
      case 0
      with Some show ?thesis by (simp add: acks_Cons go_set_def)
    next
      case (Suc j)
      have "go_set (replicate k 0 @ ys) (int k - 1) a = Some (replicate j 0 @ a # ys)"
        using Suc replicate_app_Cons_same [of j "0::uint64" ys, symmetric]
        by (simp add: go_set_def list_update_append)
      then show ?thesis
        using Suc Some Cons.IH [of j "a # ys"] by (simp add: acks_Cons)
    qed
  qed
qed

lemma length_acks_le: "length (acks l m) \<le> length m"
  by (simp add: acks_def List.map_filter_def length_filter_le [THEN le_trans])

text \<open>
  What the code returns: position \<open>n - (n/2 + 1)\<close> of the zeros followed by the acknowledged
  indexes in reverse order of the visit.
\<close>

lemma CommittedIndex_eq:
  assumes "m \<noteq> []"
  shows "MajorityConfig_CommittedIndex m l =
    Some ((replicate (length m - length (acks l m)) 0 @ rev (acks l m)) !
      (length m - (length m div 2 + 1)))"
proof -
  let ?n = "length m" and ?r = "replicate (length m - length (acks l m)) 0 @ rev (acks l m)"
  have "?n > 0"
    using assms by simp
  have fill: "fillAcked l m (int ?n - 1) (replicate ?n 0) = Some ?r"
    using fillAcked_eq [of l m ?n "[]"] length_acks_le [of l m] by simp
  have pos: "int ?n - (int ?n div 2 + 1) = int (?n - (?n div 2 + 1))"
    using \<open>?n > 0\<close> by (subst of_nat_diff) (simp_all add: zdiv_int Suc_le_eq)
  have "?n - (?n div 2 + 1) < length ?r"
    using \<open>?n > 0\<close> length_acks_le [of l m] by simp
  then show ?thesis
    using assms by (simp only: MajorityConfig_CommittedIndex_def Let_def fill pos go_nth_int
        bind.bind_lunit length_0_conv if_False)
qed

lemma CommittedIndex_returns: "\<exists>i. MajorityConfig_CommittedIndex m l = Some i"
proof (cases "m = []")
  case True
  then show ?thesis by (simp add: MajorityConfig_CommittedIndex_def)
next
  case False
  then show ?thesis by (simp add: CommittedIndex_eq)
qed

lemma acks_set: "set (acks l m) = {i. \<exists>v \<in> set m. l v = Some i}"
  by (force simp: acks_def List.map_filter_def image_iff)

lemma CommittedIndex_reported:
  assumes "m \<noteq> []" and "MajorityConfig_CommittedIndex m l = Some i" and "i \<noteq> 0"
  shows "\<exists>v \<in> set m. l v = Some i"
proof -
  let ?r = "replicate (length m - length (acks l m)) 0 @ rev (acks l m)"
  have "length m - (length m div 2 + 1) < length ?r"
    using assms(1) length_acks_le [of l m] by (cases m) auto
  then have "i \<in> set ?r"
    using nth_mem [of "length m - (length m div 2 + 1)" ?r] assms(2)
    by (simp only: CommittedIndex_eq [OF assms(1)] option.inject)
  then show ?thesis
    using assms(3) by (auto simp: acks_set split: if_splits)
qed

lemma granted_perm: "mset m = mset m' \<Longrightarrow> granted m v = granted m' v"
  by (metis granted_def mset_filter size_mset)

lemma unvoted_perm: "mset m = mset m' \<Longrightarrow> unvoted m v = unvoted m' v"
  by (metis unvoted_def mset_filter size_mset)

subsection \<open>Properties\<close>

text \<open>C18: The verdict of a joint configuration is exactly what the votes cast so far determine: it is
  won if every way to complete the votes wins, lost if no way wins, and pending if both outcomes
  are still possible.\<close>

theorem joint_verdict_decided:
  "(JointConfig_VoteResult c v = VoteWon \<longleftrightarrow> (\<forall>w. v \<subseteq>\<^sub>m w \<longrightarrow> JointConfig_VoteResult c w = VoteWon)) \<and>
   (JointConfig_VoteResult c v = VoteLost \<longleftrightarrow> (\<forall>w. v \<subseteq>\<^sub>m w \<longrightarrow> JointConfig_VoteResult c w \<noteq> VoteWon)) \<and>
   (JointConfig_VoteResult c v = VotePending \<longleftrightarrow>
      (\<exists>w. v \<subseteq>\<^sub>m w \<and> JointConfig_VoteResult c w = VoteWon) \<and>
      (\<exists>w. v \<subseteq>\<^sub>m w \<and> JointConfig_VoteResult c w = VoteLost))"
  by (rule joint.decided_exactly)

theorem joint_verdict_decided_witness:
  "JointConfig_VoteResult ([1, 2, 3], [3, 4]) [1 \<mapsto> True, 3 \<mapsto> True] = VotePending \<and>
   (\<exists>w. [1 \<mapsto> True, 3 \<mapsto> True] \<subseteq>\<^sub>m w \<and> JointConfig_VoteResult ([1, 2, 3], [3, 4]) w = VoteLost)"
proof -
  have "JointConfig_VoteResult ([1, 2, 3], [3, 4]) [1 \<mapsto> True, 3 \<mapsto> True] = VotePending"
    by (simp add: JointConfig_VoteResult_def MajorityConfig_VoteResult_def)
  then show ?thesis
    using joint_verdict_decided [of "([1, 2, 3], [3, 4])" "[1 \<mapsto> True, 3 \<mapsto> True]"] by simp
qed

text \<open>C17: Two vote counts over the same configuration, one of whose halves is a non-empty set of
  voters, cannot both be won when no voter grants both.\<close>

theorem joint_at_most_one_winner:
  assumes "joint_ok c" and "\<And>i. \<not> (v i = Some True \<and> w i = Some True)"
    and "JointConfig_VoteResult c v = VoteWon"
  shows "JointConfig_VoteResult c w \<noteq> VoteWon"
  using assms by (rule joint.at_most_one_winner)

theorem joint_at_most_one_winner_witness:
  "JointConfig_VoteResult ([1, 2, 3], []) [1 \<mapsto> True, 2 \<mapsto> True] = VoteWon \<and>
   JointConfig_VoteResult ([1, 2, 3], []) [1 \<mapsto> False, 3 \<mapsto> True] \<noteq> VoteWon"
proof -
  have ok: "joint_ok ([1, 2, 3], [])"
    by (simp add: joint_ok_def majority_ok_def)
  have won: "JointConfig_VoteResult ([1, 2, 3], []) [1 \<mapsto> True, 2 \<mapsto> True] = VoteWon"
    by (simp add: JointConfig_VoteResult_def MajorityConfig_VoteResult_def)
  have once: "\<not> ([1 \<mapsto> True, 2 \<mapsto> True] i = Some True \<and> [1 \<mapsto> False, 3 \<mapsto> True] i = Some True)"
    for i :: uint64
    by (auto split: if_splits)
  show ?thesis
    using won joint_at_most_one_winner [OF ok once won] by blast
qed

text \<open>The verdict of a majority configuration does not depend on the order in which Go's map
  iteration visits the voters.\<close>

theorem majority_verdict_order_free:
  assumes "distinct m" and "distinct m'" and "set m = set m'"
  shows "MajorityConfig_VoteResult m votes = MajorityConfig_VoteResult m' votes"
proof -
  have perm: "mset m = mset m'"
    using assms by (simp add: set_eq_iff_mset_eq_distinct)
  moreover have "length m = length m'"
    using perm by (metis size_mset)
  ultimately show ?thesis
    by (auto simp: VoteResult_eq granted_perm [OF perm] unvoted_perm [OF perm])
qed

theorem majority_verdict_order_free_witness:
  "MajorityConfig_VoteResult [1, 2, 3] [2 \<mapsto> True, 3 \<mapsto> True] =
   MajorityConfig_VoteResult [3, 1, 2] [2 \<mapsto> True, 3 \<mapsto> True]"
  by (rule majority_verdict_order_free) auto

text \<open>The index a majority configuration reports as committed is zero or the index some voter of
  the configuration acknowledged.\<close>

theorem CommittedIndex_acknowledged:
  assumes "m \<noteq> []"
  shows "returns (MajorityConfig_CommittedIndex m l)
    (\<lambda>i. i = 0 \<or> (\<exists>v \<in> set m. l v = Some i))"
  using CommittedIndex_returns [of m l] CommittedIndex_reported [OF assms, of l]
  by (auto simp: returns_def)

theorem CommittedIndex_acknowledged_witness:
  "returns (MajorityConfig_CommittedIndex [4, 5] [4 \<mapsto> 9])
    (\<lambda>i. i = 0 \<or> (\<exists>v \<in> set [4 :: uint64, 5]. [4 \<mapsto> 9] v = Some i))"
  by (rule CommittedIndex_acknowledged) simp

text \<open>When every voter has acknowledged an index, the middle voter of the visit decides, whatever the others have.\<close>

lemma CommittedIndex_middle:
  assumes "m \<noteq> []" "\<forall>v \<in> set m. l v \<noteq> None"
  shows "MajorityConfig_CommittedIndex m l = l (m ! (length m div 2))"
proof -
  let ?k = "length m div 2"
  have acks: "acks l m = map (\<lambda>v. the (l v)) m"
    using assms(2) by (induction m) (auto simp: acks_def List.map_filter_simps)
  have k: "?k < length m" "length m - Suc (length m - (?k + 1)) = ?k"
    using assms(1) by (cases m; simp)+
  then have "MajorityConfig_CommittedIndex m l = Some (the (l (m ! ?k)))"
    using assms(1) by (simp add: CommittedIndex_eq acks rev_nth)
  then show ?thesis
    using assms(2) k(1) by simp
qed

text \<open>
  C38: The acknowledged indexes are not sorted before the middle one is taken, so the committed index depends on the
  order of map iteration: when all voters have acknowledged an index, any of these, the largest one included, is
  the committed index in some order of the same voters.
\<close>

theorem CommittedIndex_unsorted:
  assumes "\<forall>v \<in> set m. l v \<noteq> None" "w \<in> set m"
  shows "\<exists>m'. mset m' = mset m \<and> MajorityConfig_CommittedIndex m' l = l w"
proof -
  let ?k = "length m div 2"
  obtain j where j: "j < length m" "m ! j = w"
    using assms(2) by (auto simp: in_set_conv_nth)
  have k: "?k < length m"
    using j(1) by simp
  define m' where "m' = m[j := m ! ?k, ?k := m ! j]"
  have m': "mset m' = mset m"
    unfolding m'_def using k j(1) by (rule mset_swap)
  then have "set m' = set m" "length m' = length m" "m' \<noteq> []"
    using mset_eq_setD mset_eq_length k by (blast, blast, auto)
  moreover from this have "m' ! (length m' div 2) = w"
    using k j(2) by (simp add: m'_def)
  ultimately have "MajorityConfig_CommittedIndex m' l = l w"
    using CommittedIndex_middle [of m' l] assms by auto
  with m' show ?thesis by blast
qed

text \<open>Three voters at 5, 0 and 0: the code can report 5, which one of them has acknowledged.\<close>

theorem CommittedIndex_unsorted_witness:
  "\<exists>m'. mset m' = mset [1, 2, 3 :: uint64] \<and> MajorityConfig_CommittedIndex m' [1 \<mapsto> 5, 2 \<mapsto> 0, 3 \<mapsto> 0] = Some 5"
  using CommittedIndex_unsorted [of "[1, 2, 3]" "[1 \<mapsto> 5, 2 \<mapsto> 0, 3 \<mapsto> 0]" 1] by simp

end
