(* ===== verification/Inflights.thy ===== *)
theory Inflights
  imports Raftpb
begin

section \<open>tracker.Inflights: the sliding window of messages in flight\<close>

text \<open>
  \<^verbatim>\<open>src/raft/tracker/inflights.go\<close>: a ring buffer of message indexes that grows on demand up to
  its capacity. The locale \<open>sliding_window\<close> is the contract the replication code uses (a
  bounded queue of indexes), and the ring buffer is shown to implement it: \<open>inflights_list\<close>
  reads the window as a list, \<open>inflights_ok\<close> is the representation invariant.
\<close>

(* raft/tracker/inflights.go 3-8 Inflights *)
record Inflights =
  inStart :: int
  inCount :: int
  inSize :: int
  inBuffer :: "uint64 list"

(* raft/tracker/inflights.go 10-14 NewInflights *)
definition NewInflights :: "int \<Rightarrow> Inflights" where
  "NewInflights sz = \<lparr>inStart = 0, inCount = 0, inSize = sz, inBuffer = []\<rparr>"

(* raft/tracker/inflights.go 16-20 Inflights.Clone *)
definition Inflights_Clone :: "Inflights \<Rightarrow> Inflights" where
  "Inflights_Clone ins = ins\<lparr>inBuffer := [] @ inBuffer ins\<rparr>"

(* raft/tracker/inflights.go 73-75 Inflights.Full *)
definition Inflights_Full :: "Inflights \<Rightarrow> bool" where
  "Inflights_Full ins \<longleftrightarrow> inCount ins = inSize ins"

(* raft/tracker/inflights.go 76-78 Inflights.Count *)
definition Inflights_Count :: "Inflights \<Rightarrow> int" where
  "Inflights_Count ins = inCount ins"

text \<open>\<^verbatim>\<open>make\<close> panics on a negative length; \<^verbatim>\<open>copy\<close> copies what fits.\<close>

(* raft/tracker/inflights.go 36-46 Inflights.grow *)
definition Inflights_grow :: "Inflights \<Rightarrow> Inflights option" where
  "Inflights_grow ins =
     (let len = int (length (inBuffer ins));
          newSize = (if len * 2 = 0 then 1 else if len * 2 > inSize ins then inSize ins else len * 2)
      in if newSize < 0 then None
         else Some (ins\<lparr>inBuffer :=
           take (nat newSize) (inBuffer ins) @ replicate (nat (newSize - len)) 0\<rparr>))"

(* raft/tracker/inflights.go 21-35 Inflights.Add *)
definition Inflights_Add :: "Inflights \<Rightarrow> uint64 \<Rightarrow> Inflights option" where
  "Inflights_Add ins inflight =
     (if Inflights_Full ins then None
      else
        let next = inStart ins + inCount ins;
            sz = inSize ins;
            next = (if next \<ge> sz then next - sz else next)
        in do {
          ins \<leftarrow> (if next \<ge> int (length (inBuffer ins)) then Inflights_grow ins else Some ins);
          buffer \<leftarrow> go_set (inBuffer ins) next inflight;
          Some (ins\<lparr>inBuffer := buffer, inCount := inCount ins + 1\<rparr>)
        })"

text \<open>The loop of \<^verbatim>\<open>FreeLE\<close>; it returns the final \<open>idx\<close> and \<open>i\<close>.\<close>

(* raft/tracker/inflights.go 55-63 Inflights.FreeLE *)
function freeLoop :: "Inflights \<Rightarrow> uint64 \<Rightarrow> int \<Rightarrow> int \<Rightarrow> (int \<times> int) option" where
  "freeLoop ins to idx i =
     (if i < inCount ins then do {
        b \<leftarrow> go_nth (inBuffer ins) idx;
        if to < b then Some (idx, i)
        else
          let sz = inSize ins;
              idx = idx + 1;
              idx = (if idx \<ge> sz then idx - sz else idx)
          in freeLoop ins to idx (i + 1)
      }
      else Some (idx, i))"
  by pat_completeness auto
termination
  by (relation "measure (\<lambda>(ins, to, idx, i). nat (inCount ins - i))") auto

declare freeLoop.simps [simp del]

(* raft/tracker/inflights.go 48-69 Inflights.FreeLE *)
definition Inflights_FreeLE :: "Inflights \<Rightarrow> uint64 \<Rightarrow> Inflights option" where
  "Inflights_FreeLE ins to =
     (if inCount ins = 0 then Some ins
      else do {
        b \<leftarrow> go_nth (inBuffer ins) (inStart ins);
        if to < b then Some ins
        else do {
          (idx, i) \<leftarrow> freeLoop ins to (inStart ins) 0;
          let count = inCount ins - i;
          Some (ins\<lparr>inCount := count, inStart := (if count = 0 then 0 else idx)\<rparr>)
        }
      })"

(* raft/tracker/inflights.go 70-72 Inflights.FreeFirstOne *)
definition Inflights_FreeFirstOne :: "Inflights \<Rightarrow> Inflights option" where
  "Inflights_FreeFirstOne ins = do {
     b \<leftarrow> go_nth (inBuffer ins) (inStart ins);
     Inflights_FreeLE ins b
   }"

(* raft/tracker/inflights.go 79-82 Inflights.reset *)
definition Inflights_reset :: "Inflights \<Rightarrow> Inflights" where
  "Inflights_reset ins = ins\<lparr>inCount := 0, inStart := 0\<rparr>"

subsection \<open>The window as a list\<close>

definition slot :: "Inflights \<Rightarrow> nat \<Rightarrow> nat" where
  "slot ins k = (nat (inStart ins) + k) mod nat (inSize ins)"

definition inflights_list :: "Inflights \<Rightarrow> uint64 list" where
  "inflights_list ins = map (\<lambda>k. inBuffer ins ! slot ins k) [0..<nat (inCount ins)]"

definition inflights_ok :: "Inflights \<Rightarrow> bool" where
  "inflights_ok ins \<longleftrightarrow>
     0 < inSize ins \<and> 0 \<le> inStart ins \<and> inStart ins < inSize ins \<and>
     0 \<le> inCount ins \<and> inCount ins \<le> inSize ins \<and> (inCount ins = 0 \<longrightarrow> inStart ins = 0) \<and>
     int (length (inBuffer ins)) \<le> inSize ins \<and>
     (\<forall>k < nat (inCount ins). slot ins k < length (inBuffer ins))"

lemma length_inflights_list [simp]: "length (inflights_list ins) = nat (inCount ins)"
  by (simp add: inflights_list_def)

lemma inflights_list_nth:
  "k < nat (inCount ins) \<Longrightarrow> inflights_list ins ! k = inBuffer ins ! slot ins k"
  by (simp add: inflights_list_def)

lemma wrap_slot:
  assumes "0 < inSize ins" "0 \<le> inStart ins" "inStart ins < inSize ins" "0 \<le> c" "c \<le> inSize ins"
  shows "(if inStart ins + c \<ge> inSize ins then inStart ins + c - inSize ins else inStart ins + c)
    = int (slot ins (nat c))"
proof -
  have "int (slot ins (nat c)) = (inStart ins + c) mod inSize ins"
    using assms by (simp add: slot_def zmod_int)
  moreover have "(inStart ins + c) mod inSize ins = inStart ins + c - inSize ins"
    if "inSize ins \<le> inStart ins + c"
  proof -
    have "(inStart ins + c) mod inSize ins = (inStart ins + c - inSize ins) mod inSize ins"
      by simp
    also have "\<dots> = inStart ins + c - inSize ins"
      using assms that by (intro mod_pos_pos_trivial) auto
    finally show ?thesis .
  qed
  ultimately show ?thesis
    using assms by (auto simp: mod_pos_pos_trivial)
qed

lemma wrap_slot_Suc:
  assumes "0 < inSize ins"
  shows "(if int (slot ins k) + 1 \<ge> inSize ins then int (slot ins k) + 1 - inSize ins
          else int (slot ins k) + 1) = int (slot ins (Suc k))"
proof -
  have "slot ins k < nat (inSize ins)"
    using assms by (simp add: slot_def)
  moreover have "slot ins (Suc k) = Suc (slot ins k) mod nat (inSize ins)"
    by (simp add: slot_def mod_Suc_eq)
  ultimately show ?thesis
    using assms by (auto simp: mod_Suc split: if_splits)
qed

subsection \<open>Adding\<close>

text \<open>A slot past the buffer is the one right behind it, and only while the ring never wrapped.\<close>

lemma next_slot_le_length:
  assumes "inflights_ok ins" "inCount ins < inSize ins"
    "length (inBuffer ins) \<le> slot ins (nat (inCount ins))"
  shows "slot ins (nat (inCount ins)) = length (inBuffer ins)"
proof -
  let ?n = "nat (inCount ins)" and ?s = "nat (inStart ins)" and ?z = "nat (inSize ins)"
  show ?thesis
  proof (cases "?n = 0")
    case True
    with assms show ?thesis
      by (auto simp: inflights_ok_def slot_def)
  next
    case False
    have live: "slot ins (?z - 1 - ?s) < length (inBuffer ins)" if "?z \<le> ?s + ?n"
      using assms(1,2) that by (auto simp: inflights_ok_def)
    have "?s + ?n < ?z"
    proof (rule ccontr)
      assume "\<not> ?s + ?n < ?z"
      then have "slot ins (?z - 1 - ?s) = ?z - 1"
        using assms(1) by (auto simp: inflights_ok_def slot_def)
      then have "?z - 1 < length (inBuffer ins)"
        using live \<open>\<not> ?s + ?n < ?z\<close> by simp
      then have "?z \<le> length (inBuffer ins)"
        by linarith
      moreover have "slot ins ?n < ?z"
        using assms(1) by (auto simp: inflights_ok_def slot_def)
      ultimately show False
        using assms(3) by simp
    qed
    moreover have "slot ins (?n - 1) < length (inBuffer ins)"
      using assms(1) False by (auto simp: inflights_ok_def)
    ultimately show ?thesis
      using False assms(3) by (simp add: slot_def) linarith
  qed
qed

lemma grow_at_end:
  assumes "inflights_ok ins" "int (length (inBuffer ins)) < inSize ins"
  shows "\<exists>zs. Inflights_grow ins = Some (ins\<lparr>inBuffer := inBuffer ins @ zs\<rparr>) \<and> zs \<noteq> [] \<and>
    int (length (inBuffer ins @ zs)) \<le> inSize ins"
proof -
  let ?l = "int (length (inBuffer ins))"
  let ?new = "if ?l * 2 = 0 then 1 else if ?l * 2 > inSize ins then inSize ins else ?l * 2"
  have "?l < ?new" "?new \<le> inSize ins"
    using assms by (auto simp: inflights_ok_def)
  then show ?thesis
    by (intro exI [of _ "replicate (nat (?new - ?l)) 0"]) (auto simp: Inflights_grow_def Let_def)
qed

lemma slot_inj:
  assumes "inflights_ok ins" "j < nat (inSize ins)" "k < nat (inSize ins)" "slot ins j = slot ins k"
  shows "j = k"
proof -
  have "slot ins i = (if nat (inStart ins) + i < nat (inSize ins) then nat (inStart ins) + i
      else nat (inStart ins) + i - nat (inSize ins))" if "i < nat (inSize ins)" for i
    using assms(1) that by (auto simp: slot_def inflights_ok_def le_mod_geq)
  then show ?thesis
    using assms(2-4) by (auto simp: not_less eq_diff_iff split: if_splits)
qed

text \<open>After growing where needed, the buffer has the next slot.\<close>

lemma next_slot_room:
  assumes ok: "inflights_ok ins" and c: "inCount ins < inSize ins"
  obtains zs where "(if int (slot ins (nat (inCount ins))) \<ge> int (length (inBuffer ins)) then Inflights_grow ins else Some ins) =
      Some (ins\<lparr>inBuffer := inBuffer ins @ zs\<rparr>)" "int (length (inBuffer ins @ zs)) \<le> inSize ins"
      "slot ins (nat (inCount ins)) < length (inBuffer ins @ zs)"
proof (cases "slot ins (nat (inCount ins)) < length (inBuffer ins)")
  case True
  then show ?thesis using ok by (intro that [of "[]"]) (auto simp: inflights_ok_def)
next
  case False
  have "slot ins (nat (inCount ins)) < nat (inSize ins)"
    using ok by (auto simp: slot_def inflights_ok_def)
  moreover have "slot ins (nat (inCount ins)) = length (inBuffer ins)"
    using False next_slot_le_length [OF ok c] by simp
  moreover from calculation obtain zs where "Inflights_grow ins = Some (ins\<lparr>inBuffer := inBuffer ins @ zs\<rparr>)"
      "zs \<noteq> []" "int (length (inBuffer ins @ zs)) \<le> inSize ins"
    using grow_at_end [OF ok] by (auto simp: zless_nat_eq_int_zless)
  ultimately show ?thesis by (intro that [of zs]) auto
qed

lemma Inflights_Add_spec:
  assumes ok: "inflights_ok ins" and room: "\<not> Inflights_Full ins"
  shows "returns (Inflights_Add ins x) (\<lambda>ins'. inflights_ok ins' \<and>
    inflights_list ins' = inflights_list ins @ [x] \<and> inSize ins' = inSize ins)"
proof -
  let ?n = "nat (inCount ins)" and ?p = "slot ins (nat (inCount ins))"
  have c: "0 \<le> inCount ins" "inCount ins < inSize ins"
    using ok room by (auto simp: inflights_ok_def Inflights_Full_def)
  have wrap: "(if inStart ins + inCount ins \<ge> inSize ins then inStart ins + inCount ins - inSize ins
      else inStart ins + inCount ins) = int ?p"
    using ok c by (intro wrap_slot) (auto simp: inflights_ok_def)
  obtain zs where zs: "(if int ?p \<ge> int (length (inBuffer ins)) then Inflights_grow ins else Some ins) =
      Some (ins\<lparr>inBuffer := inBuffer ins @ zs\<rparr>)" "int (length (inBuffer ins @ zs)) \<le> inSize ins"
      "?p < length (inBuffer ins @ zs)"
    by (rule next_slot_room [OF ok c(2)])
  let ?buf = "(inBuffer ins @ zs)[?p := x]"
  let ?ins = "ins\<lparr>inBuffer := ?buf, inCount := inCount ins + 1\<rparr>"
  have add: "Inflights_Add ins x = Some ?ins"
    using room zs by (simp add: Inflights_Add_def Let_def wrap go_set_def)
  have same: "slot ins k < length (inBuffer ins) \<and> ?buf ! slot ins k = inBuffer ins ! slot ins k"
    if "k < ?n" for k
  proof -
    have "slot ins k < length (inBuffer ins)"
      using ok that by (auto simp: inflights_ok_def)
    moreover have "slot ins k \<noteq> ?p"
      using slot_inj [OF ok, of k ?n] that c by auto
    ultimately show ?thesis by (simp add: nth_append)
  qed
  have slot': "slot ?ins = slot ins"
    by (simp add: slot_def fun_eq_iff)
  have n': "nat (inCount ins + 1) = Suc ?n"
    using c by simp
  have "inflights_list ?ins = inflights_list ins @ [x]"
    using same zs(3) by (simp add: inflights_list_def slot' n')
  moreover have "slot ins k < length (inBuffer ins) + length zs" if "k < ?n" for k
    using same [OF that] by linarith
  then have "inflights_ok ?ins"
    using ok c zs(2,3) by (auto simp: inflights_ok_def slot' n' less_Suc_eq)
  ultimately show ?thesis
    by (simp add: add returns_Some)
qed

subsection \<open>Freeing\<close>

lemma freeLoop_spec:
  assumes ok: "inflights_ok ins" and "k \<le> nat (inCount ins)"
  shows "freeLoop ins to (int (slot ins k)) (int k) =
    (let j = k + length (takeWhile (\<lambda>b. b \<le> to) (drop k (inflights_list ins)))
     in Some (int (slot ins j), int j))"
  using assms(2)
proof (induction "nat (inCount ins) - k" arbitrary: k)
  case 0
  then show ?case
    by (subst freeLoop.simps) (auto simp: Let_def)
next
  case (Suc d)
  then have k: "k < nat (inCount ins)" by simp
  have here: "go_nth (inBuffer ins) (int (slot ins k)) = Some (inflights_list ins ! k)"
    using ok k by (simp add: inflights_ok_def inflights_list_nth)
  have split: "drop k (inflights_list ins) = inflights_list ins ! k # drop (Suc k) (inflights_list ins)"
    using k by (simp add: Cons_nth_drop_Suc)
  have size: "0 < inSize ins"
    using ok by (simp add: inflights_ok_def)
  have IH: "freeLoop ins to (int (slot ins (Suc k))) (int (Suc k)) =
    (let j = Suc k + length (takeWhile (\<lambda>b. b \<le> to) (drop (Suc k) (inflights_list ins)))
     in Some (int (slot ins j), int j))"
    using Suc k by (intro Suc.hyps) auto
  have "int k < inCount ins"
    using k by simp
  then have "freeLoop ins to (int (slot ins k)) (int k) =
    (if to < inflights_list ins ! k then Some (int (slot ins k), int k)
     else freeLoop ins to (int (slot ins (Suc k))) (int k + 1))"
    by (subst freeLoop.simps) (simp only: here Let_def wrap_slot_Suc [OF size] if_True bind.bind_lunit)
  then show ?case
    using IH by (simp add: split Let_def not_less add.commute)
qed

lemma inflights_list_advance:
  assumes "j \<le> nat (inCount ins)" and "inflights_ok ins"
  shows "inflights_list (ins\<lparr>inCount := inCount ins - int j, inStart := int (slot ins j)\<rparr>)
    = drop j (inflights_list ins)"
proof -
  have "slot (ins\<lparr>inCount := c, inStart := int (slot ins j)\<rparr>) k = slot ins (j + k)" for c k
    by (simp add: slot_def mod_simps add.assoc)
  moreover have "nat (inCount ins - int j) = nat (inCount ins) - j"
    using assms by (simp add: nat_diff_distrib')
  ultimately show ?thesis
    by (auto simp: inflights_list_def intro!: nth_equalityI)
qed

lemma inflights_ok_advance:
  assumes ok: "inflights_ok ins" and j: "j < nat (inCount ins)"
  shows "inflights_ok (ins\<lparr>inCount := inCount ins - int j, inStart := int (slot ins j)\<rparr>)"
proof -
  have "slot (ins\<lparr>inCount := c, inStart := int (slot ins j)\<rparr>) k = slot ins (j + k)" for c k
    by (simp add: slot_def mod_simps add.assoc)
  moreover have "slot ins j < nat (inSize ins)"
    using ok by (auto simp: slot_def inflights_ok_def)
  ultimately show ?thesis
    using ok j by (auto simp: inflights_ok_def)
qed

lemma inflights_ok_reset: "inflights_ok ins \<Longrightarrow> inflights_ok (Inflights_reset ins)"
  by (auto simp: inflights_ok_def Inflights_reset_def)

lemma inflights_list_reset: "inflights_list (Inflights_reset ins) = []"
  by (simp add: inflights_list_def Inflights_reset_def)

lemma inSize_reset: "inSize (Inflights_reset ins) = inSize ins"
  by (simp add: Inflights_reset_def)

text \<open>The buffer after its first \<open>j\<close> indexes are freed.\<close>

definition advanced :: "Inflights \<Rightarrow> nat \<Rightarrow> Inflights" where
  "advanced ins j =
     (if inCount ins - int j = 0 then Inflights_reset ins
      else ins\<lparr>inCount := inCount ins - int j, inStart := int (slot ins j)\<rparr>)"

lemma advanced_spec:
  assumes ok: "inflights_ok ins" and le: "j \<le> length (inflights_list ins)"
  shows "inflights_ok (advanced ins j) \<and> inflights_list (advanced ins j) = drop j (inflights_list ins) \<and>
    inSize (advanced ins j) = inSize ins"
proof -
  have "j < nat (inCount ins)" if "inCount ins - int j \<noteq> 0"
    using le that ok by (auto simp: inflights_ok_def)
  moreover have "drop j (inflights_list ins) = []" if "inCount ins - int j = 0"
    using that by simp
  ultimately show ?thesis
    using ok le by (auto simp: advanced_def inflights_ok_reset inflights_list_reset inflights_ok_advance
        inflights_list_advance inSize_reset)
qed

lemma Inflights_FreeLE_spec:
  assumes ok: "inflights_ok ins"
  shows "returns (Inflights_FreeLE ins to) (\<lambda>ins'. inflights_ok ins' \<and>
    inflights_list ins' = dropWhile (\<lambda>b. b \<le> to) (inflights_list ins) \<and> inSize ins' = inSize ins)"
proof (cases "inCount ins = 0")
  case True
  then have "inflights_list ins = []"
    by (simp add: inflights_list_def)
  with True ok show ?thesis
    by (simp add: Inflights_FreeLE_def returns_Some)
next
  case False
  then have n: "0 < nat (inCount ins)" and slot0: "int (slot ins 0) = inStart ins"
    using ok by (auto simp: inflights_ok_def slot_def)
  let ?xs = "inflights_list ins"
  let ?j = "length (takeWhile (\<lambda>b. b \<le> to) ?xs)"
  have first: "go_nth (inBuffer ins) (inStart ins) = Some (?xs ! 0)"
    using ok n by (simp add: inflights_ok_def inflights_list_nth flip: slot0)
  show ?thesis
  proof (cases "to < ?xs ! 0")
    case True
    then have "dropWhile (\<lambda>b. b \<le> to) ?xs = ?xs"
      using n by (cases ?xs) auto
    with True False ok show ?thesis
      by (simp add: Inflights_FreeLE_def first returns_Some)
  next
    case free: False
    have "freeLoop ins to (inStart ins) 0 = Some (int (slot ins ?j), int ?j)"
      using freeLoop_spec [OF ok, of 0] by (simp add: slot0 Let_def)
    then have "Inflights_FreeLE ins to = Some (advanced ins ?j)"
      using free False by (simp add: Inflights_FreeLE_def first Let_def Inflights_reset_def advanced_def)
    then show ?thesis
      using advanced_spec [OF ok, of ?j] length_takeWhile_le [of _ ?xs] by (simp add: returns_Some dropWhile_eq_drop)
  qed
qed

subsection \<open>The contract of the window\<close>

locale sliding_window =
  fixes inv :: "'w \<Rightarrow> bool"
    and content :: "'w \<Rightarrow> uint64 list"
    and capacity :: "'w \<Rightarrow> int"
    and full :: "'w \<Rightarrow> bool"
    and add :: "'w \<Rightarrow> uint64 \<Rightarrow> 'w option"
    and free_le :: "'w \<Rightarrow> uint64 \<Rightarrow> 'w option"
  assumes full_iff: "inv w \<Longrightarrow> full w \<longleftrightarrow> int (length (content w)) = capacity w"
    and bounded: "inv w \<Longrightarrow> int (length (content w)) \<le> capacity w"
    and add_full: "full w \<Longrightarrow> add w x = None"
    and add_back: "inv w \<Longrightarrow> \<not> full w \<Longrightarrow> returns (add w x) (\<lambda>w'. inv w' \<and>
      content w' = content w @ [x] \<and> capacity w' = capacity w)"
    and free_front: "inv w \<Longrightarrow> returns (free_le w t) (\<lambda>w'. inv w' \<and>
      content w' = dropWhile (\<lambda>b. b \<le> t) (content w) \<and> capacity w' = capacity w)"
begin

lemma add_returns_iff:
  "inv w \<Longrightarrow> (\<exists>w'. add w x = Some w') \<longleftrightarrow> int (length (content w)) < capacity w"
  using add_back [of w x] add_full [of w x] full_iff [of w] bounded [of w]
  by (cases "full w") (auto simp: returns_def)

text \<open>
  Indexes are added in increasing order; then the window stays sorted and an acknowledgement
  frees exactly the messages it covers.
\<close>

lemma add_sorted:
  assumes "inv w" "\<not> full w" "sorted (content w)" "\<forall>y \<in> set (content w). y \<le> x"
  shows "returns (add w x) (\<lambda>w'. inv w' \<and> sorted (content w'))"
  using add_back [OF assms(1,2), of x] assms(3,4)
  by (auto simp: sorted_append elim!: returns_mono)

lemma dropWhile_sorted_le:
  "sorted xs \<Longrightarrow> dropWhile (\<lambda>b. b \<le> t) xs = filter (\<lambda>b. t < b) xs" for xs :: "uint64 list"
proof (induction xs)
  case (Cons a xs)
  show ?case
  proof (cases "a \<le> t")
    case False
    with Cons.prems have "\<forall>b \<in> set (a # xs). t < b" by force
    then show ?thesis using False by (simp add: filter_True)
  qed (use Cons in \<open>auto simp: not_less\<close>)
qed simp

lemma free_acknowledged:
  assumes "inv w" "sorted (content w)"
  shows "returns (free_le w t) (\<lambda>w'. inv w' \<and> sorted (content w') \<and>
    content w' = filter (\<lambda>b. t < b) (content w))"
  using free_front [OF assms(1), of t] assms(2)
  by (auto simp: dropWhile_sorted_le sorted_wrt_filter elim!: returns_mono)

end

interpretation inflights: sliding_window inflights_ok inflights_list inSize
  Inflights_Full Inflights_Add Inflights_FreeLE
proof
  fix w assume "inflights_ok w"
  then show "Inflights_Full w \<longleftrightarrow> int (length (inflights_list w)) = inSize w"
    and "int (length (inflights_list w)) \<le> inSize w"
    by (auto simp: inflights_ok_def Inflights_Full_def)
next
  fix w x assume "Inflights_Full w"
  then show "Inflights_Add w x = None"
    by (simp add: Inflights_Add_def)
qed (simp_all add: Inflights_Add_spec Inflights_FreeLE_spec)

lemma NewInflights_ok: "0 < n \<Longrightarrow> inflights_ok (NewInflights n) \<and> inflights_list (NewInflights n) = []"
  by (simp add: NewInflights_def inflights_ok_def inflights_list_def)

lemma Inflights_FreeFirstOne_spec:
  assumes "inflights_ok ins" and "inflights_list ins = x # xs"
  shows "returns (Inflights_FreeFirstOne ins) (\<lambda>ins'. inflights_ok ins' \<and>
    inflights_list ins' = dropWhile (\<lambda>b. b \<le> x) xs \<and> inSize ins' = inSize ins)"
proof -
  have n: "0 < nat (inCount ins)"
    using assms(2) length_inflights_list [of ins] by (simp flip: length_greater_0_conv)
  then have "slot ins 0 < length (inBuffer ins)"
    using assms(1) by (auto simp: inflights_ok_def)
  moreover have "int (slot ins 0) = inStart ins"
    using assms(1) by (auto simp: inflights_ok_def slot_def)
  moreover have "inBuffer ins ! slot ins 0 = x"
    using inflights_list_nth [OF n] assms(2) by simp
  ultimately have "go_nth (inBuffer ins) (inStart ins) = Some x"
    using go_nth_int [of "slot ins 0" "inBuffer ins"] by simp
  then show ?thesis
    using Inflights_FreeLE_spec [OF assms(1), of x] by (simp add: Inflights_FreeFirstOne_def assms(2))
qed

subsection \<open>Properties\<close>

text \<open>C19: Add enqueues exactly when the window is not full. A window is full when it holds as many indexes as its size; adding to it then panics.
  Otherwise adding does not panic, keeps the ring buffer well-formed and
  appends the index at the back of the queue the ring stands for, also when the ring wraps around
  or its buffer has to grow.\<close>

theorem Inflights_Add_enqueues:
  assumes "inflights_ok ins"
  shows "if int (length (inflights_list ins)) = inSize ins then Inflights_Full ins \<and> Inflights_Add ins x = None
    else \<not> Inflights_Full ins \<and> returns (Inflights_Add ins x) (\<lambda>ins'. inflights_ok ins' \<and>
      inflights_list ins' = inflights_list ins @ [x] \<and> inSize ins' = inSize ins)"
  using inflights.full_iff [OF assms] inflights.add_full [of ins x] inflights.add_back [OF assms, of x] by simp

theorem Inflights_Add_enqueues_witness:
  "returns (Inflights_Add \<lparr>inStart = 2, inCount = 1, inSize = 3, inBuffer = [10, 11, 12]\<rparr> 13) (\<lambda>ins'. inflights_list ins' = [12, 13]) \<and>
   Inflights_Add \<lparr>inStart = 2, inCount = 3, inSize = 3, inBuffer = [10, 11, 12]\<rparr> 13 = None"
proof -
  let ?ins = "\<lparr>inStart = 2, inCount = 1, inSize = 3, inBuffer = [10, 11, 12]\<rparr> :: Inflights"
    and ?full = "\<lparr>inStart = 2, inCount = 3, inSize = 3, inBuffer = [10, 11, 12]\<rparr> :: Inflights"
  have "inflights_ok ?ins" "inflights_list ?ins = [12]" "inflights_ok ?full" "length (inflights_list ?full) = 3"
    by (simp_all add: inflights_ok_def slot_def inflights_list_def flip: numeral_3_eq_3)
  then show ?thesis
    using Inflights_Add_enqueues [of ?ins 13] Inflights_Add_enqueues [of ?full 13] by (auto elim!: returns_mono)
qed

text \<open>C20: Freeing up to an index never panics, keeps the ring buffer well-formed and, when the
  window holds indexes in increasing order, removes exactly the indexes up to the given one and
  keeps the others in order.\<close>

theorem Inflights_FreeLE_acknowledges:
  assumes "inflights_ok ins" and "sorted (inflights_list ins)"
  shows "returns (Inflights_FreeLE ins to) (\<lambda>ins'. inflights_ok ins' \<and> sorted (inflights_list ins') \<and>
    inflights_list ins' = filter (\<lambda>b. to < b) (inflights_list ins))"
  using assms by (rule inflights.free_acknowledged)

theorem Inflights_FreeLE_acknowledges_witness:
  "returns (Inflights_FreeLE \<lparr>inStart = 2, inCount = 3, inSize = 3, inBuffer = [13, 14, 12]\<rparr> 13)
     (\<lambda>ins'. inflights_list ins' = [14])"
proof -
  let ?ins = "\<lparr>inStart = 2, inCount = 3, inSize = 3, inBuffer = [13, 14, 12]\<rparr> :: Inflights"
  have upt: "[0..<3] = [0, 1, 2::nat]"
    by (simp add: upt_rec)
  have "inflights_ok ?ins"
    by (simp add: inflights_ok_def slot_def flip: numeral_3_eq_3)
  moreover have "inflights_list ?ins = [12, 13, 14]"
    by (simp add: slot_def inflights_list_def upt)
  ultimately show ?thesis
    using Inflights_FreeLE_acknowledges [of ?ins 13] by (auto elim!: returns_mono)
qed

end
