(* ===== verification/Progress.thy ===== *)
theory Progress
  imports Quorum Inflights
begin

section \<open>Package tracker: the leader's view of each follower\<close>

text \<open>
  \<^verbatim>\<open>src/raft/tracker/progress.go\<close>, \<^verbatim>\<open>state.go\<close> and \<^verbatim>\<open>tracker.go\<close>: the replication progress of a
  follower as a state machine (probe, replicate, snapshot), and the tracker that keeps one
  progress per peer, records votes and tallies them. \<^verbatim>\<open>Progress.Inflights\<close> is a pointer that may
  be nil. A nil \<^verbatim>\<open>Votes\<close> map is \<^term>\<open>None\<close>: it can be read, and writing to it panics.
\<close>

subsection \<open>Progress\<close>

(* raft/tracker/state.go 3-11 StateType *)
datatype ProgressState = StateProbe | StateReplicate | StateSnapshot

(* raft/tracker/progress.go 9-37 Progress *)
record Progress =
  pMatch :: uint64
  pNext :: uint64
  pState :: ProgressState
  pPendingSnapshot :: uint64
  pRecentActive :: bool
  pProbeSent :: bool
  pInflights :: "Inflights option"
  pIsLearner :: bool

(* raft/tracker/progress.go 39-44 Progress.ResetState *)
definition Progress_ResetState :: "Progress \<Rightarrow> ProgressState \<Rightarrow> Progress option" where
  "Progress_ResetState pr st = do {
     ins \<leftarrow> pInflights pr;
     Some (pr\<lparr>pProbeSent := False, pPendingSnapshot := 0, pState := st,
              pInflights := Some (Inflights_reset ins)\<rparr>)
   }"

(* raft/tracker/progress.go 58-60 Progress.ProbeAcked *)
definition Progress_ProbeAcked :: "Progress \<Rightarrow> Progress" where
  "Progress_ProbeAcked pr = pr\<lparr>pProbeSent := False\<rparr>"

(* raft/tracker/progress.go 61-70 Progress.BecomeProbe *)
definition Progress_BecomeProbe :: "Progress \<Rightarrow> Progress option" where
  "Progress_BecomeProbe pr =
     (if pState pr = StateSnapshot then do {
        let pendingSnapshot = pPendingSnapshot pr;
        pr \<leftarrow> Progress_ResetState pr StateProbe;
        Some (pr\<lparr>pNext := go_max (pMatch pr + 1) (pendingSnapshot + 1)\<rparr>)
      }
      else do {
        pr \<leftarrow> Progress_ResetState pr StateProbe;
        Some (pr\<lparr>pNext := pMatch pr + 1\<rparr>)
      })"

(* raft/tracker/progress.go 71-74 Progress.BecomeReplicate *)
definition Progress_BecomeReplicate :: "Progress \<Rightarrow> Progress option" where
  "Progress_BecomeReplicate pr = do {
     pr \<leftarrow> Progress_ResetState pr StateReplicate;
     Some (pr\<lparr>pNext := pMatch pr + 1\<rparr>)
   }"

(* raft/tracker/progress.go 75-78 Progress.BecomeSnapshot *)
definition Progress_BecomeSnapshot :: "Progress \<Rightarrow> uint64 \<Rightarrow> Progress option" where
  "Progress_BecomeSnapshot pr snapshoti = do {
     pr \<leftarrow> Progress_ResetState pr StateSnapshot;
     Some (pr\<lparr>pPendingSnapshot := snapshoti\<rparr>)
   }"

(* raft/tracker/progress.go 80-92 Progress.MaybeUpdate *)
definition Progress_MaybeUpdate :: "Progress \<Rightarrow> uint64 \<Rightarrow> Progress \<times> bool" where
  "Progress_MaybeUpdate pr n =
     (let updated = pMatch pr < n;
          pr = (if pMatch pr < n then Progress_ProbeAcked (pr\<lparr>pMatch := n\<rparr>) else pr)
      in (pr\<lparr>pNext := go_max (pNext pr) (n + 1)\<rparr>, updated))"

(* raft/tracker/progress.go 94-97 Progress.OptimisticUpdate *)
definition Progress_OptimisticUpdate :: "Progress \<Rightarrow> uint64 \<Rightarrow> Progress" where
  "Progress_OptimisticUpdate pr n = pr\<lparr>pNext := n + 1\<rparr>"

(* raft/tracker/progress.go 99-120 Progress.MaybeDecrTo *)
definition Progress_MaybeDecrTo :: "Progress \<Rightarrow> uint64 \<Rightarrow> uint64 \<Rightarrow> Progress \<times> bool" where
  "Progress_MaybeDecrTo pr rejected matchHint =
     (if pState pr = StateReplicate then
        (if rejected \<le> pMatch pr then (pr, False)
         else (pr\<lparr>pNext := pMatch pr + 1\<rparr>, True))
      else if pNext pr - 1 \<noteq> rejected then (pr, False)
      else (pr\<lparr>pNext := go_max (go_min rejected (matchHint + 1)) 1, pProbeSent := False\<rparr>, True))"

(* raft/tracker/progress.go 122-134 Progress.IsPaused *)
definition Progress_IsPaused :: "Progress \<Rightarrow> bool option" where
  "Progress_IsPaused pr =
     (case pState pr of
        StateProbe \<Rightarrow> Some (pProbeSent pr)
      | StateReplicate \<Rightarrow> do { ins \<leftarrow> pInflights pr; Some (Inflights_Full ins) }
      | StateSnapshot \<Rightarrow> Some True)"

subsection \<open>The tracker\<close>

(* raft/tracker/tracker.go 16-21 ProgressTracker *)
record ProgressTracker =
  tVoters :: JointConfig
  tProgress :: "(uint64, Progress) gomap"
  tVotes :: "(uint64, bool) gomap option"
  tMaxInflight :: int

(* raft/tracker/tracker.go 23-31 MakeProgressTracker *)
definition MakeProgressTracker :: "int \<Rightarrow> ProgressTracker" where
  "MakeProgressTracker maxInflight =
     \<lparr>tVoters = ([], []), tProgress = [], tVotes = Some [], tMaxInflight = maxInflight\<rparr>"

text \<open>\<^verbatim>\<open>Config.Clone\<close> and \<^verbatim>\<open>ConfState\<close> are stubs that return zero values.\<close>

(* raft/tracker/tracker.go 12-14 Config.Clone *)
definition Config_Clone :: "JointConfig \<Rightarrow> JointConfig" where
  "Config_Clone c = ([], [])"

(* raft/tracker/tracker.go 32-34 ProgressTracker.ConfState *)
definition ProgressTracker_ConfState :: "ProgressTracker \<Rightarrow> ConfState" where
  "ProgressTracker_ConfState p = ConfState_zero"

(* raft/tracker/tracker.go 36-39 ProgressTracker.IsSingleton *)
definition ProgressTracker_IsSingleton :: "ProgressTracker \<Rightarrow> bool" where
  "ProgressTracker_IsSingleton p = True"

text \<open>The inner loop of \<^verbatim>\<open>insertionSort\<close> moves the element at position \<open>j\<close> down by swaps.\<close>

(* raft/tracker/tracker.go 43-45 insertionSort *)
fun sinkDown :: "uint64 list \<Rightarrow> nat \<Rightarrow> uint64 list" where
  "sinkDown sl 0 = sl"
| "sinkDown sl (Suc j) =
     (if sl ! Suc j < sl ! j then sinkDown (sl[Suc j := sl ! j, j := sl ! Suc j]) j else sl)"

lemma length_sinkDown [simp]: "length (sinkDown sl j) = length sl"
  by (induction sl j rule: sinkDown.induct) auto

(* raft/tracker/tracker.go 42-46 insertionSort *)
function sortFrom :: "uint64 list \<Rightarrow> nat \<Rightarrow> uint64 list" where
  "sortFrom sl i = (if i < length sl then sortFrom (sinkDown sl i) (i + 1) else sl)"
  by pat_completeness auto
termination
  by (relation "measure (\<lambda>(sl, i). length sl - i)") auto

declare sortFrom.simps [simp del]

(* raft/tracker/tracker.go 40-47 insertionSort *)
definition insertionSort :: "uint64 list \<Rightarrow> uint64 list" where
  "insertionSort sl = sortFrom sl 1"

text \<open>
  \<^verbatim>\<open>Visit\<close> collects the ids of the progress map (filling an array from its end), sorts them and
  calls the closure on each; the closure changes the caller's state, which is threaded through.
\<close>

(* raft/tracker/tracker.go 51-63 ProgressTracker.Visit *)
definition Visit_ids :: "ProgressTracker \<Rightarrow> uint64 list" where
  "Visit_ids p = insertionSort (rev (gomap_keys (tProgress p)))"

fun foldM :: "('a \<Rightarrow> 's \<Rightarrow> 's option) \<Rightarrow> 'a list \<Rightarrow> 's \<Rightarrow> 's option" where
  "foldM f [] s = Some s"
| "foldM f (x # xs) s = do { s \<leftarrow> f x s; foldM f xs s }"

text \<open>
  The closure of \<^verbatim>\<open>Visit\<close> gets an id and the pointer \<^verbatim>\<open>p.Progress[id]\<close>. The progresses are shared through these pointers and the closures change them, so the closure of the
  model gets the id, and reads and writes the progress of that id in the state it is given.
\<close>

(* raft/tracker/tracker.go 49-68 ProgressTracker.Visit *)
definition ProgressTracker_Visit ::
    "ProgressTracker \<Rightarrow> (uint64 \<Rightarrow> 's \<Rightarrow> 's option) \<Rightarrow> 's \<Rightarrow> 's option" where
  "ProgressTracker_Visit p f s = foldM f (Visit_ids p) s"

(* raft/tracker/tracker.go 69-71 ProgressTracker.ResetVotes *)
definition ProgressTracker_ResetVotes :: "ProgressTracker \<Rightarrow> ProgressTracker" where
  "ProgressTracker_ResetVotes p = p\<lparr>tVotes := Some []\<rparr>"

definition votes_map :: "ProgressTracker \<Rightarrow> (uint64 \<rightharpoonup> bool)" where
  "votes_map p = (case tVotes p of None \<Rightarrow> Map.empty | Some m \<Rightarrow> map_of m)"

(* raft/tracker/tracker.go 73-78 ProgressTracker.RecordVote *)
definition ProgressTracker_RecordVote ::
    "ProgressTracker \<Rightarrow> uint64 \<Rightarrow> bool \<Rightarrow> ProgressTracker option" where
  "ProgressTracker_RecordVote p i v =
     (if votes_map p i = None then
        (case tVotes p of
           None \<Rightarrow> None
         | Some m \<Rightarrow> Some (p\<lparr>tVotes := Some (AList.update i v m)\<rparr>))
      else Some p)"

(* raft/tracker/tracker.go 102-110 matchAckIndexer.AckedIndex *)
definition matchAckIndexer :: "(uint64, Progress) gomap \<Rightarrow> (uint64 \<rightharpoonup> uint64)" where
  "matchAckIndexer l i = map_option pMatch (map_of l i)"

(* raft/tracker/tracker.go 80-82 ProgressTracker.Committed *)
definition ProgressTracker_Committed :: "ProgressTracker \<Rightarrow> uint64 option" where
  "ProgressTracker_Committed p = JointConfig_CommittedIndex (tVoters p) (matchAckIndexer (tProgress p))"

(* raft/tracker/tracker.go 84-97 ProgressTracker.TallyVotes *)
fun tallyLoop :: "(uint64 \<rightharpoonup> bool) \<Rightarrow> (uint64, Progress) gomap \<Rightarrow> nat \<times> nat \<Rightarrow> nat \<times> nat" where
  "tallyLoop votes [] (gr, rj) = (gr, rj)"
| "tallyLoop votes ((i, pr) # ps) (gr, rj) =
     (if pIsLearner pr then tallyLoop votes ps (gr, rj)
      else
        (case votes i of
           None \<Rightarrow> tallyLoop votes ps (gr, rj)
         | Some v \<Rightarrow>
             if v then tallyLoop votes ps (gr + 1, rj)
             else tallyLoop votes ps (gr, rj + 1)))"

(* raft/tracker/tracker.go 83-100 ProgressTracker.TallyVotes *)
definition ProgressTracker_TallyVotes :: "ProgressTracker \<Rightarrow> nat \<times> nat \<times> VoteResult" where
  "ProgressTracker_TallyVotes p =
     (case tallyLoop (votes_map p) (tProgress p) (0, 0) of (gr, rj) \<Rightarrow>
        (gr, rj, JointConfig_VoteResult (tVoters p) (votes_map p)))"

subsection \<open>The insertion sort\<close>

lemma sinkDown_sorts:
  assumes "j < length sl" and "sorted (take j sl)"
  shows "sinkDown sl j = sort (take (Suc j) sl) @ drop (Suc j) sl"
  using assms
proof (induction j arbitrary: sl)
  case 0
  then show ?case by (cases sl) auto
next
  case (Suc j)
  let ?y = "sl ! j" and ?x = "sl ! Suc j"
  have take1: "take (Suc j) sl = take j sl @ [?y]"
    using Suc.prems(1) by (simp add: take_Suc_conv_app_nth)
  have take2: "take (Suc (Suc j)) sl = take j sl @ [?y, ?x]"
    using Suc.prems(1) by (simp add: take_Suc_conv_app_nth)
  have le: "sorted (take j sl)" "\<forall>z \<in> set (take j sl). z \<le> ?y"
    using Suc.prems(2) by (auto simp: take1 sorted_append)
  show ?case
  proof (cases "?x < ?y")
    case True
    let ?sl = "sl[Suc j := ?y, j := ?x]"
    have new: "take j ?sl = take j sl" "take (Suc j) ?sl = take j sl @ [?x]"
      "drop (Suc j) ?sl = ?y # drop (Suc (Suc j)) sl"
      using Suc.prems(1)
      by (simp_all add: take_Suc_conv_app_nth drop_update_swap Cons_nth_drop_Suc [symmetric])
    have "sort (take j sl @ [?y, ?x]) = sort (take j sl @ [?x]) @ [?y]"
      using le True by (intro properties_for_sort) (auto simp: sorted_append)
    then show ?thesis
      using True Suc.IH [of ?sl] Suc.prems(1) le(1) by (simp add: new take2)
  next
    case False
    then have "sort (take (Suc (Suc j)) sl) = take (Suc (Suc j)) sl"
      using le by (intro sorted_sort_id) (auto simp: take2 sorted_append)
    with False show ?thesis by simp
  qed
qed

lemma sortFrom_sorts:
  "sorted (take i sl) \<Longrightarrow> 0 < i \<Longrightarrow> sortFrom sl i = sort sl"
proof (induction sl i rule: sortFrom.induct)
  case (1 sl i)
  show ?case
  proof (cases "i < length sl")
    case True
    let ?sl = "sinkDown sl i"
    have sink: "?sl = sort (take (Suc i) sl) @ drop (Suc i) sl"
      using True "1.prems"(1) by (rule sinkDown_sorts)
    have "sorted (take (i + 1) ?sl)"
      using True by (simp add: sink)
    then have "sortFrom ?sl (i + 1) = sort ?sl"
      using True by (intro "1.IH") auto
    also have "\<dots> = sort sl"
    proof (rule properties_for_sort)
      have "mset sl = mset (take (Suc i) sl @ drop (Suc i) sl)" by simp
      then show "mset (sort sl) = mset ?sl"
        by (simp only: sink mset_append mset_sort)
    qed simp
    finally show ?thesis
      using True by (subst sortFrom.simps) simp
  next
    case False
    with "1.prems" show ?thesis
      by (subst sortFrom.simps) (simp add: sorted_sort_id)
  qed
qed

lemma insertionSort_eq_sort: "insertionSort sl = sort sl"
  unfolding insertionSort_def by (rule sortFrom_sorts) (cases sl; simp)+

lemma Visit_ids_eq:
  assumes "gomap_ok (tProgress p)"
  shows "Visit_ids p = sorted_list_of_set (dom (map_of (tProgress p)))"
proof -
  let ?ks = "gomap_keys (tProgress p)"
  have "sort (rev ?ks) = sort ?ks"
    by (rule properties_for_sort) simp_all
  also have "\<dots> = sorted_list_of_set (set ?ks)"
    using assms by (simp add: gomap_ok_def sorted_list_of_set_sort_remdups distinct_remdups_id)
  finally show ?thesis
    by (simp add: Visit_ids_def insertionSort_eq_sort gomap_keys_set)
qed

subsection \<open>The invariant of a progress\<close>

text \<open>
  Only a replicating follower has messages in flight, and only one that is being sent a snapshot
  has a pending snapshot.
\<close>

definition progress_ok :: "Progress \<Rightarrow> bool" where
  "progress_ok pr \<longleftrightarrow>
     (case pInflights pr of
        None \<Rightarrow> False
      | Some ins \<Rightarrow> inflights_ok ins \<and> (pState pr \<noteq> StateReplicate \<longrightarrow> inflights_list ins = [])) \<and>
     (pPendingSnapshot pr \<noteq> 0 \<longrightarrow> pState pr = StateSnapshot)"

lemma progress_ok_frame:
  "pInflights pr' = pInflights pr \<Longrightarrow> pState pr' = pState pr \<Longrightarrow>
   pPendingSnapshot pr' = pPendingSnapshot pr \<Longrightarrow> progress_ok pr' = progress_ok pr"
  by (auto simp: progress_ok_def split: option.split)

lemma ResetState_spec:
  "progress_ok pr \<Longrightarrow> returns (Progress_ResetState pr st) (\<lambda>pr'. progress_ok pr' \<and> pState pr' = st \<and>
     pMatch pr' = pMatch pr \<and> pNext pr' = pNext pr \<and> \<not> pProbeSent pr' \<and> pPendingSnapshot pr' = 0 \<and>
     pIsLearner pr' = pIsLearner pr \<and> map_option inflights_list (pInflights pr') = Some [])"
  by (auto simp: Progress_ResetState_def progress_ok_def inflights_ok_reset inflights_list_reset wp
      split: option.splits)

lemma BecomeProbe_spec:
  assumes "progress_ok pr"
  shows "returns (Progress_BecomeProbe pr) (\<lambda>pr'. progress_ok pr' \<and> pState pr' = StateProbe \<and>
     pMatch pr' = pMatch pr \<and> \<not> pProbeSent pr' \<and>
     pNext pr' = (if pState pr = StateSnapshot then max (pMatch pr + 1) (pPendingSnapshot pr + 1)
                  else pMatch pr + 1))"
  unfolding Progress_BecomeProbe_def using ResetState_spec [OF assms, of StateProbe]
  by (auto simp: wp Let_def elim!: returns_mono cong: progress_ok_frame)

lemma BecomeReplicate_spec:
  assumes "progress_ok pr"
  shows "returns (Progress_BecomeReplicate pr) (\<lambda>pr'. progress_ok pr' \<and> pState pr' = StateReplicate \<and>
     pMatch pr' = pMatch pr \<and> pNext pr' = pMatch pr + 1)"
  unfolding Progress_BecomeReplicate_def using ResetState_spec [OF assms, of StateReplicate]
  by (auto simp: wp elim!: returns_mono cong: progress_ok_frame)

lemma BecomeSnapshot_spec:
  assumes "progress_ok pr"
  shows "returns (Progress_BecomeSnapshot pr i) (\<lambda>pr'. progress_ok pr' \<and> pState pr' = StateSnapshot \<and>
     pMatch pr' = pMatch pr \<and> pNext pr' = pNext pr \<and> pPendingSnapshot pr' = i)"
  unfolding Progress_BecomeSnapshot_def using ResetState_spec [OF assms, of StateSnapshot]
  by (auto simp: wp progress_ok_def elim!: returns_mono)

lemma MaybeUpdate_ok: "progress_ok pr \<Longrightarrow> progress_ok (fst (Progress_MaybeUpdate pr n))"
  by (auto simp: Progress_MaybeUpdate_def Progress_ProbeAcked_def Let_def cong: progress_ok_frame)

lemma MaybeDecrTo_ok: "progress_ok pr \<Longrightarrow> progress_ok (fst (Progress_MaybeDecrTo pr rj hint))"
  by (auto simp: Progress_MaybeDecrTo_def cong: progress_ok_frame)

lemma IsPaused_returns: "progress_ok pr \<Longrightarrow> \<exists>b. Progress_IsPaused pr = Some b"
  by (auto simp: Progress_IsPaused_def progress_ok_def split: ProgressState.split option.splits)

subsection \<open>Properties\<close>

text \<open>An acknowledgement of index \<open>n\<close> never moves a follower's progress back: Match becomes the
  maximum of Match and \<open>n\<close>, Next does not decrease, Match stays below Next, and the update is
  reported exactly when it is news.\<close>

theorem MaybeUpdate_advances:
  assumes "n \<noteq> - 1" and "pMatch pr < pNext pr" and "Progress_MaybeUpdate pr n = (pr', updated)"
  shows "pMatch pr' = max (pMatch pr) n \<and> pNext pr \<le> pNext pr' \<and> pMatch pr' < pNext pr' \<and>
    (updated \<longleftrightarrow> pMatch pr < n)"
proof -
  have "n < max (pNext pr) (n + 1)" "pMatch pr < max (pNext pr) (n + 1)"
    using less_plus_one64 [OF assms(1)] assms(2) by (auto simp: less_max_iff_disj)
  then show ?thesis
    using assms(3) by (auto simp: Progress_MaybeUpdate_def Progress_ProbeAcked_def Let_def)
qed

theorem MaybeUpdate_advances_witness:
  "\<exists>pr'. Progress_MaybeUpdate \<lparr>pMatch = 3, pNext = 4, pState = StateProbe, pPendingSnapshot = 0,
       pRecentActive = True, pProbeSent = True, pInflights = None, pIsLearner = False\<rparr> 7 = (pr', True) \<and>
     pMatch pr' = 7 \<and> pMatch pr' < pNext pr'"
proof -
  let ?pr = "\<lparr>pMatch = 3, pNext = 4, pState = StateProbe, pPendingSnapshot = 0,
       pRecentActive = True, pProbeSent = True, pInflights = None, pIsLearner = False\<rparr> :: Progress"
  obtain pr' u where eq: "Progress_MaybeUpdate ?pr 7 = (pr', u)" by fastforce
  show ?thesis
    using MaybeUpdate_advances [OF _ _ eq] eq by auto
qed

text \<open>A genuine rejection while probing moves Next strictly back and never below 1, so a leader
  that probes a diverging follower can be rejected only finitely often; a rejection of an index the
  follower is known to have is ignored.\<close>

theorem MaybeDecrTo_backs_off:
  assumes "Progress_MaybeDecrTo pr rj hint = (pr', decreased)" and "1 < pNext pr"
  shows "(decreased \<and> pState pr \<noteq> StateReplicate \<longrightarrow> 1 \<le> pNext pr' \<and> pNext pr' < pNext pr) \<and>
    (decreased \<and> pState pr = StateReplicate \<longrightarrow> pMatch pr < rj \<and> pNext pr' = pMatch pr + 1) \<and>
    (\<not> decreased \<longrightarrow> pr' = pr)"
proof -
  have "pNext pr \<noteq> 0"
    using assms(2) by auto
  then have "pNext pr - 1 < pNext pr"
    by (rule minus_one_less64)
  then have "max (min (pNext pr - 1) (hint + 1)) 1 < pNext pr \<and> 1 \<le> max (min (pNext pr - 1) (hint + 1)) 1"
    using assms(2) by (auto simp: min_def max_def)
  then show ?thesis
    using assms(1) by (auto simp: Progress_MaybeDecrTo_def not_le split: if_splits)
qed

theorem MaybeDecrTo_backs_off_witness:
  "\<exists>pr'. Progress_MaybeDecrTo \<lparr>pMatch = 0, pNext = 9, pState = StateProbe, pPendingSnapshot = 0,
       pRecentActive = True, pProbeSent = True, pInflights = None, pIsLearner = False\<rparr> 8 4 = (pr', True) \<and>
     1 \<le> pNext pr' \<and> pNext pr' < 9"
proof -
  let ?pr = "\<lparr>pMatch = 0, pNext = 9, pState = StateProbe, pPendingSnapshot = 0,
       pRecentActive = True, pProbeSent = True, pInflights = None, pIsLearner = False\<rparr> :: Progress"
  obtain pr' u where eq: "Progress_MaybeDecrTo ?pr 8 4 = (pr', u)" by fastforce
  have "u" using eq by (auto simp: Progress_MaybeDecrTo_def)
  then show ?thesis
    using MaybeDecrTo_backs_off [OF eq] eq by simp
qed

text \<open>C28: The closure given to Visit is called once for every tracked peer, in increasing order of
  ids, whatever the order of map iteration.\<close>

theorem Visit_in_order:
  assumes "gomap_ok (tProgress p)"
  shows "ProgressTracker_Visit p f s = foldM f (sorted_list_of_set (dom (map_of (tProgress p)))) s"
  using assms by (simp add: ProgressTracker_Visit_def Visit_ids_eq)

theorem Visit_in_order_witness:
  "ProgressTracker_Visit ((MakeProgressTracker 8)\<lparr>tProgress := [(7, undefined), (3, undefined), (5, undefined)]\<rparr>)
     (\<lambda>i s. Some (s @ [i])) [] = Some [3, 5, 7]"
proof -
  let ?p = "(MakeProgressTracker 8)\<lparr>tProgress := [(7, undefined), (3, undefined), (5, undefined)]\<rparr>"
  have ok: "gomap_ok (tProgress ?p)" and "dom (map_of (tProgress ?p)) = set [7, 3, 5]"
    by (auto simp: gomap_ok_def gomap_keys_def)
  then have "sorted_list_of_set (dom (map_of (tProgress ?p))) = [3, 5, 7]"
    by (simp only: sorted_list_of_set_sort_remdups) simp
  then show ?thesis
    using Visit_in_order [OF ok, of "\<lambda>i s. Some (s @ [i])" "[]"] by simp
qed

text \<open>The first vote of a peer is final: recording a vote stores it if the peer has none and
  changes nothing otherwise; it panics only on a nil vote map.\<close>

theorem RecordVote_first_wins:
  "ProgressTracker_RecordVote p i v =
     (case votes_map p i of
        Some _ \<Rightarrow> Some p
      | None \<Rightarrow> map_option (\<lambda>m. p\<lparr>tVotes := Some (AList.update i v m)\<rparr>) (tVotes p)) \<and>
   ensures (ProgressTracker_RecordVote p i v) (\<lambda>p'.
     votes_map p' = (if votes_map p i = None then (votes_map p)(i \<mapsto> v) else votes_map p))"
  by (auto simp: ProgressTracker_RecordVote_def votes_map_def ensures_def split: option.splits)

end
