(* ===== verification/Raft_Storage.thy ===== *)
theory Raft_Storage
  imports Raftpb
begin

section \<open>The Storage interface and MemoryStorage\<close>

text \<open>
  \<^verbatim>\<open>src/raft/storage.go\<close>. A \<^verbatim>\<open>Storage\<close> interface value is the record of its methods, each of
  which reads the storage as it is now. \<^verbatim>\<open>MemoryStorage\<close> keeps the log in a slice whose first
  element is a dummy that carries the index and term of the last compacted entry; every method
  holds the mutex from start to end, so a method is one step. The locale \<open>storage_iface\<close> states
  the documented behaviour of the interface; \<^verbatim>\<open>MemoryStorage\<close> is shown to provide it as long as
  \<open>ms_ok\<close> holds, and every method that writes keeps \<open>ms_ok\<close>. The pointer
  \<^verbatim>\<open>Snapshot.Metadata\<close> may be nil, and is in a new storage.
\<close>

text \<open>
  The size limit is not implemented: \<^verbatim>\<open>limitSize\<close> returns its argument. \<^verbatim>\<open>MemoryStorage\<close> keeps and returns \<^verbatim>\<open>[]Entry\<close>, while the interface, \<^verbatim>\<open>limitSize\<close> and the callers
  have \<^verbatim>\<open>[]*Entry\<close>: the types do not agree, and the package does not compile as it is. The model has one type of entries for both, as if the pointers
  pointed at the stored entries.
\<close>

(* raft/util.go 41-46 limitSize *)
definition limitSize :: "Entry list \<Rightarrow> uint64 \<Rightarrow> Entry list" where
  "limitSize ents maxSize = (if length ents = 0 then ents else ents)"

(* raft/storage.go 14-25 Storage *)
record Storage =
  stInitialState :: "(HardState \<times> ConfState \<times> Err option) option"
  stEntries :: "uint64 \<Rightarrow> uint64 \<Rightarrow> uint64 \<Rightarrow> (Entry list \<times> Err option) option"
  stTerm :: "uint64 \<Rightarrow> (uint64 \<times> Err option) option"
  stLastIndex :: "(uint64 \<times> Err option) option"
  stFirstIndex :: "(uint64 \<times> Err option) option"
  stSnapshot :: "(Snapshot \<times> Err option) option"

subsection \<open>MemoryStorage\<close>

(* raft/storage.go 27-33 MemoryStorage *)
record MemoryStorage =
  msHardState :: HardState
  msSnapshot :: Snapshot
  msEnts :: "Entry list"

(* raft/storage.go 35-39 newMemoryStorage *)
definition newMemoryStorage :: MemoryStorage where
  "newMemoryStorage =
     \<lparr>msHardState = HardState_zero, msSnapshot = Snapshot_zero, msEnts = [Entry_zero]\<rparr>"

(* raft/storage.go 40-42 MemoryStorage.InitialState *)
definition MemoryStorage_InitialState ::
    "MemoryStorage \<Rightarrow> (HardState \<times> ConfState \<times> Err option) option" where
  "MemoryStorage_InitialState ms = do {
     md \<leftarrow> sMetadata (msSnapshot ms);
     cs \<leftarrow> smConfState md;
     Some (msHardState ms, cs, None)
   }"

(* raft/storage.go 44-50 MemoryStorage.SetHardState *)
definition MemoryStorage_SetHardState :: "MemoryStorage \<Rightarrow> HardState \<Rightarrow> MemoryStorage \<times> Err option" where
  "MemoryStorage_SetHardState ms st = (ms\<lparr>msHardState := st\<rparr>, None)"

(* raft/storage.go 74-76 MemoryStorage.lastIndex *)
definition MemoryStorage_lastIndex :: "MemoryStorage \<Rightarrow> uint64 option" where
  "MemoryStorage_lastIndex ms = do {
     e \<leftarrow> go_nth64 (msEnts ms) 0;
     Some (eIndex e + len64 (msEnts ms) - 1)
   }"

(* raft/storage.go 77-79 MemoryStorage.firstIndex *)
definition MemoryStorage_firstIndex :: "MemoryStorage \<Rightarrow> uint64 option" where
  "MemoryStorage_firstIndex ms = do {
     e \<leftarrow> go_nth64 (msEnts ms) 0;
     Some (eIndex e + 1)
   }"

(* raft/storage.go 51-66 MemoryStorage.Entries *)
definition MemoryStorage_Entries ::
    "MemoryStorage \<Rightarrow> uint64 \<Rightarrow> uint64 \<Rightarrow> uint64 \<Rightarrow> (Entry list \<times> Err option) option" where
  "MemoryStorage_Entries ms lo hi maxSize = do {
     e \<leftarrow> go_nth64 (msEnts ms) 0;
     let offset = eIndex e;
     if lo < offset then Some ([], Some ErrCompacted)
     else do {
       li \<leftarrow> MemoryStorage_lastIndex ms;
       if hi > li + 1 then None
       else if length (msEnts ms) = 1 then Some ([], Some ErrUnavailable)
       else do {
         ents \<leftarrow> go_slice64 (msEnts ms) (lo - offset) (hi - offset);
         Some (limitSize ents maxSize, None)
       }
     }
   }"

(* raft/storage.go 68-72 MemoryStorage.LastIndex *)
definition MemoryStorage_LastIndex :: "MemoryStorage \<Rightarrow> (uint64 \<times> Err option) option" where
  "MemoryStorage_LastIndex ms = do { i \<leftarrow> MemoryStorage_lastIndex ms; Some (i, None) }"

(* raft/storage.go 80-84 MemoryStorage.FirstIndex *)
definition MemoryStorage_FirstIndex :: "MemoryStorage \<Rightarrow> (uint64 \<times> Err option) option" where
  "MemoryStorage_FirstIndex ms = do { i \<leftarrow> MemoryStorage_firstIndex ms; Some (i, None) }"

text \<open>The bound check converts the offset to a signed \<^verbatim>\<open>int\<close>.\<close>

(* raft/storage.go 85-96 MemoryStorage.Term *)
definition MemoryStorage_Term :: "MemoryStorage \<Rightarrow> uint64 \<Rightarrow> (uint64 \<times> Err option) option" where
  "MemoryStorage_Term ms i = do {
     e \<leftarrow> go_nth64 (msEnts ms) 0;
     let offset = eIndex e;
     if i < offset then Some (0, Some ErrCompacted)
     else if sint (i - offset) \<ge> int (length (msEnts ms)) then Some (0, Some ErrUnavailable)
     else do {
       x \<leftarrow> go_nth64 (msEnts ms) (i - offset);
       Some (eTerm x, None)
     }
   }"

(* raft/storage.go 98-102 MemoryStorage.Snapshot *)
definition MemoryStorage_Snapshot :: "MemoryStorage \<Rightarrow> (Snapshot \<times> Err option) option" where
  "MemoryStorage_Snapshot ms = Some (msSnapshot ms, None)"

(* raft/storage.go 104-116 MemoryStorage.ApplySnapshot *)
definition MemoryStorage_ApplySnapshot ::
    "MemoryStorage \<Rightarrow> Snapshot \<Rightarrow> (MemoryStorage \<times> Err option) option" where
  "MemoryStorage_ApplySnapshot ms snap = do {
     md \<leftarrow> sMetadata (msSnapshot ms);
     let msIndex = smIndex md;
     smd \<leftarrow> sMetadata snap;
     let snapIndex = smIndex smd;
     if msIndex \<ge> snapIndex then Some (ms, Some ErrSnapOutOfDate)
     else Some (ms\<lparr>msSnapshot := snap,
                   msEnts := [Entry_zero\<lparr>eTerm := smTerm smd, eIndex := smIndex smd\<rparr>]\<rparr>, None)
   }"

(* raft/storage.go 118-136 MemoryStorage.CreateSnapshot *)
definition MemoryStorage_CreateSnapshot ::
    "MemoryStorage \<Rightarrow> uint64 \<Rightarrow> ConfState option \<Rightarrow> bytes \<Rightarrow>
     (MemoryStorage \<times> Snapshot \<times> Err option) option" where
  "MemoryStorage_CreateSnapshot ms i cs data = do {
     md \<leftarrow> sMetadata (msSnapshot ms);
     if i < smIndex md then Some (ms, Snapshot_zero, Some ErrSnapOutOfDate)
     else do {
       e \<leftarrow> go_nth64 (msEnts ms) 0;
       let offset = eIndex e;
       li \<leftarrow> MemoryStorage_lastIndex ms;
       if i > li then None
       else do {
         x \<leftarrow> go_nth64 (msEnts ms) (i - offset);
         let md = md\<lparr>smIndex := i, smTerm := eTerm x\<rparr>;
         let md = (if cs \<noteq> None then md\<lparr>smConfState := cs\<rparr> else md);
         let snap = \<lparr>sData = data, sMetadata = Some md\<rparr>;
         Some (ms\<lparr>msSnapshot := snap\<rparr>, snap, None)
       }
     }
   }"

(* raft/storage.go 138-157 MemoryStorage.Compact *)
definition MemoryStorage_Compact ::
    "MemoryStorage \<Rightarrow> uint64 \<Rightarrow> (MemoryStorage \<times> Err option) option" where
  "MemoryStorage_Compact ms compactIndex = do {
     e \<leftarrow> go_nth64 (msEnts ms) 0;
     let offset = eIndex e;
     if compactIndex \<le> offset then Some (ms, Some ErrCompacted)
     else do {
       li \<leftarrow> MemoryStorage_lastIndex ms;
       if compactIndex > li then None
       else do {
         let i = compactIndex - offset;
         x \<leftarrow> go_nth64 (msEnts ms) i;
         rest \<leftarrow> go_drop64 (msEnts ms) (i + 1);
         Some (ms\<lparr>msEnts := Entry_zero\<lparr>eIndex := eIndex x, eTerm := eTerm x\<rparr> # rest\<rparr>, None)
       }
     }
   }"

(* raft/storage.go 159-186 MemoryStorage.Append *)
definition MemoryStorage_Append ::
    "MemoryStorage \<Rightarrow> Entry list \<Rightarrow> (MemoryStorage \<times> Err option) option" where
  "MemoryStorage_Append ms entries =
     (if length entries = 0 then Some (ms, None)
      else do {
        first \<leftarrow> MemoryStorage_firstIndex ms;
        e0 \<leftarrow> go_nth64 entries 0;
        let last = eIndex e0 + len64 entries - 1;
        if last < first then Some (ms, None)
        else do {
          entries \<leftarrow> (if first > eIndex e0 then go_drop64 entries (first - eIndex e0) else Some entries);
          e0 \<leftarrow> go_nth64 entries 0;
          d \<leftarrow> go_nth64 (msEnts ms) 0;
          let offset = eIndex e0 - eIndex d;
          if len64 (msEnts ms) > offset then
            Some (ms\<lparr>msEnts := take (unat offset) (msEnts ms) @ entries\<rparr>, None)
          else if len64 (msEnts ms) = offset then
            Some (ms\<lparr>msEnts := msEnts ms @ entries\<rparr>, None)
          else None
        }
      })"

text \<open>The interface value of a memory storage.\<close>

(* raft/storage.go 40-102 MemoryStorage *)
definition MemoryStorage_Storage :: "MemoryStorage \<Rightarrow> Storage" where
  "MemoryStorage_Storage ms =
     \<lparr>stInitialState = MemoryStorage_InitialState ms, stEntries = MemoryStorage_Entries ms,
      stTerm = MemoryStorage_Term ms, stLastIndex = MemoryStorage_LastIndex ms,
      stFirstIndex = MemoryStorage_FirstIndex ms, stSnapshot = MemoryStorage_Snapshot ms\<rparr>"

subsection \<open>The invariant of the stored log\<close>

text \<open>Consecutive indexes from some index on, none of which overflows; a Go slice is shorter than \<open>2 ^ 63\<close>.\<close>

fun contiguous :: "uint64 \<Rightarrow> Entry list \<Rightarrow> bool" where
  "contiguous i [] \<longleftrightarrow> True"
| "contiguous i (e # es) \<longleftrightarrow> eIndex e = i \<and> contiguous (i + 1) es"

definition log_from :: "uint64 \<Rightarrow> Entry list \<Rightarrow> bool" where
  "log_from i es \<longleftrightarrow> contiguous i es \<and> unat i + length es < 2 ^ 64"

definition ms_offset :: "MemoryStorage \<Rightarrow> uint64" where
  "ms_offset ms = eIndex (hd (msEnts ms))"

definition ms_ok :: "MemoryStorage \<Rightarrow> bool" where
  "ms_ok ms \<longleftrightarrow> msEnts ms \<noteq> [] \<and> log_from (ms_offset ms) (msEnts ms) \<and> length (msEnts ms) < 2 ^ 63"

lemma contiguous_append:
  "contiguous i (xs @ ys) \<longleftrightarrow> contiguous i xs \<and> contiguous (i + of_nat (length xs)) ys"
  by (induction xs arbitrary: i) (auto simp: algebra_simps)

lemma contiguous_drop: "contiguous i es \<Longrightarrow> contiguous (i + of_nat n) (drop n es)"
proof (cases "n \<le> length es")
  case True
  assume "contiguous i es"
  then show ?thesis
    using contiguous_append [of i "take n es" "drop n es"] True by simp
qed simp

lemma contiguous_take: "contiguous i es \<Longrightarrow> contiguous i (take n es)"
  using contiguous_append [of i "take n es" "drop n es"] by simp

lemma contiguous_nth: "contiguous i es \<Longrightarrow> k < length es \<Longrightarrow> eIndex (es ! k) = i + of_nat k"
proof (induction es arbitrary: i k)
  case (Cons e es)
  then show ?case by (cases k) (auto simp: algebra_simps)
qed simp

definition ms_first :: "MemoryStorage \<Rightarrow> uint64" where
  "ms_first ms = ms_offset ms + 1"

definition ms_last :: "MemoryStorage \<Rightarrow> uint64" where
  "ms_last ms = ms_offset ms + len64 (msEnts ms) - 1"

definition ms_entry :: "MemoryStorage \<Rightarrow> uint64 \<Rightarrow> Entry" where
  "ms_entry ms i = msEnts ms ! unat (i - ms_offset ms)"

lemma ms_head: "ms_ok ms \<Longrightarrow> go_nth64 (msEnts ms) 0 = Some (hd (msEnts ms))"
  by (auto simp: ms_ok_def split: list.split)

lemma ms_unat:
  assumes "ms_ok ms"
  shows "unat (len64 (msEnts ms)) = length (msEnts ms)" "0 < length (msEnts ms)"
    "unat (ms_first ms) = unat (ms_offset ms) + 1"
    "unat (ms_last ms) = unat (ms_offset ms) + length (msEnts ms) - 1"
    "unat (ms_last ms + 1) = unat (ms_offset ms) + length (msEnts ms)"
proof -
  have len: "0 < length (msEnts ms)" "unat (ms_offset ms) + length (msEnts ms) < 2 ^ 64"
    using assms by (auto simp: ms_ok_def log_from_def)
  then show "unat (len64 (msEnts ms)) = length (msEnts ms)" "0 < length (msEnts ms)"
    by (simp_all add: unat_len64)
  show "unat (ms_first ms) = unat (ms_offset ms) + 1"
    using len unat_add_of_nat64 [of "ms_offset ms" 1] by (simp only: ms_first_def of_nat_1)
  have succ: "ms_last ms + 1 = ms_offset ms + of_nat (length (msEnts ms))"
    by (simp add: ms_last_def len64_def)
  have last: "ms_last ms = ms_offset ms + of_nat (length (msEnts ms) - 1)"
    using len(1) by (cases "msEnts ms") (simp_all add: ms_last_def len64_def)
  show "unat (ms_last ms + 1) = unat (ms_offset ms) + length (msEnts ms)"
    using len unat_add_of_nat64 [of "ms_offset ms" "length (msEnts ms)"] by (simp only: succ)
  show "unat (ms_last ms) = unat (ms_offset ms) + length (msEnts ms) - 1"
    unfolding last using len unat_add_of_nat64 [of "ms_offset ms" "length (msEnts ms) - 1"] by linarith
qed

lemma ms_firstIndex: "ms_ok ms \<Longrightarrow> MemoryStorage_firstIndex ms = Some (ms_first ms)"
  by (simp add: MemoryStorage_firstIndex_def ms_head ms_first_def ms_offset_def del: go_nth64_0)

lemma ms_lastIndex: "ms_ok ms \<Longrightarrow> MemoryStorage_lastIndex ms = Some (ms_last ms)"
  by (simp add: MemoryStorage_lastIndex_def ms_head ms_last_def ms_offset_def del: go_nth64_0)

lemma ms_pos:
  assumes "ms_ok ms" "ms_offset ms \<le> i" "i \<le> ms_last ms"
  shows "unat (i - ms_offset ms) < length (msEnts ms)"
    "go_nth64 (msEnts ms) (i - ms_offset ms) = Some (ms_entry ms i)"
proof -
  show *: "unat (i - ms_offset ms) < length (msEnts ms)"
    using assms(2,3) ms_unat(2,4) [OF assms(1)]
    by (simp only: unat_sub word_nat)
  show "go_nth64 (msEnts ms) (i - ms_offset ms) = Some (ms_entry ms i)"
    using * by (simp add: go_nth64_def ms_entry_def)
qed

lemma ms_entry_index:
  assumes "ms_ok ms" "ms_offset ms \<le> i" "i \<le> ms_last ms"
  shows "eIndex (ms_entry ms i) = i"
proof -
  have "contiguous (ms_offset ms) (msEnts ms)"
    using assms(1) by (simp add: ms_ok_def log_from_def)
  then have "eIndex (ms_entry ms i) = ms_offset ms + of_nat (unat (i - ms_offset ms))"
    unfolding ms_entry_def using ms_pos(1) [OF assms] by (rule contiguous_nth)
  then show ?thesis by simp
qed

lemma MemoryStorage_Term_eq:
  assumes "ms_ok ms" "i \<le> ms_last ms"
  shows "MemoryStorage_Term ms i =
    (if i < ms_offset ms then Some (0, Some ErrCompacted) else Some (eTerm (ms_entry ms i), None))"
proof (cases "i < ms_offset ms")
  case True
  then show ?thesis
    by (simp add: MemoryStorage_Term_def ms_head [OF assms(1)] ms_offset_def Let_def del: go_nth64_0)
next
  case False
  then have pos: "ms_offset ms \<le> i" by simp
  have "unat (i - ms_offset ms) < length (msEnts ms)" "length (msEnts ms) < 2 ^ 63"
    using assms ms_pos(1) [OF assms(1) pos assms(2)] by (auto simp: ms_ok_def)
  then have "sint (i - ms_offset ms) < int (length (msEnts ms))"
    by (simp only: sint_small64 [OF order.strict_trans] of_nat_less_iff)
  then show ?thesis
    using False ms_pos(2) [OF assms(1) pos assms(2)]
    by (simp add: MemoryStorage_Term_def ms_head [OF assms(1)] ms_offset_def Let_def del: go_nth64_0)
qed

lemma stored_range:
  assumes "ms_ok ms" "ms_first ms \<le> lo" "lo < hi" "hi \<le> ms_last ms + 1"
  shows "map (\<lambda>k. ms_entry ms (lo + of_nat k)) [0..<unat (hi - lo)] =
    take (unat (hi - lo)) (drop (unat (lo - ms_offset ms)) (msEnts ms))"
proof (rule nth_equalityI)
  let ?o = "ms_offset ms"
  note u = ms_unat [OF assms(1)]
  have lo: "?o \<le> lo" "lo \<le> hi" "unat hi \<le> unat ?o + length (msEnts ms)"
    using assms(2-4) u by (auto simp: word_nat)
  then show "length (map (\<lambda>k. ms_entry ms (lo + of_nat k)) [0..<unat (hi - lo)]) =
      length (take (unat (hi - lo)) (drop (unat (lo - ?o)) (msEnts ms)))"
    by (simp add: unat_sub word_nat)
  fix k assume "k < length (map (\<lambda>k. ms_entry ms (lo + of_nat k)) [0..<unat (hi - lo)])"
  then have k: "k < unat hi - unat lo"
    using lo by (simp add: unat_sub word_nat)
  have "unat (lo + of_nat k) = unat lo + k"
    using k unat_less64 [of hi] by (intro unat_add_of_nat64) linarith
  then have "unat (lo + of_nat k - ?o) = unat (lo - ?o) + k"
    using lo by (simp add: unat_sub word_nat)
  then show "map (\<lambda>k. ms_entry ms (lo + of_nat k)) [0..<unat (hi - lo)] ! k =
      take (unat (hi - lo)) (drop (unat (lo - ?o)) (msEnts ms)) ! k"
    using k lo by (simp add: unat_sub word_nat ms_entry_def)
qed

lemma MemoryStorage_Entries_eq:
  assumes "ms_ok ms" "ms_first ms \<le> lo" "lo < hi" "hi \<le> ms_last ms + 1"
  shows "MemoryStorage_Entries ms lo hi maxSize =
    Some (map (\<lambda>k. ms_entry ms (lo + of_nat k)) [0..<unat (hi - lo)], None)"
proof -
  let ?o = "ms_offset ms" and ?es = "msEnts ms"
  note u = ms_unat [OF assms(1)]
  have lo: "?o \<le> lo" "?o \<le> hi" "\<not> lo < ?o" "lo \<le> hi"
    using assms(2,3) u(3) by (auto simp: word_nat)
  have n: "unat hi \<le> unat ?o + length ?es" "length ?es \<noteq> 1"
    using assms(2-4) u by (auto simp: word_nat)
  have "go_slice64 ?es (lo - ?o) (hi - ?o) = Some (take (unat (hi - lo)) (drop (unat (lo - ?o)) ?es))"
    using lo n by (auto simp: go_slice64_def word_nat unat_sub)
  then show ?thesis
    using lo n assms(4)
    by (simp add: MemoryStorage_Entries_def ms_head [OF assms(1)] ms_lastIndex [OF assms(1)] stored_range [OF assms]
        limitSize_def Let_def not_less del: go_nth64_0 flip: ms_offset_def)
qed

subsection \<open>The documented behaviour of a storage\<close>

text \<open>
  \<open>Term(i)\<close> must answer for every index in \<open>[FirstIndex()-1, LastIndex()]\<close>, and \<open>Entries(lo, hi)\<close>
  returns the entries of a non-empty range of stored indexes in order.
\<close>

locale storage_iface =
  fixes view :: "'s \<Rightarrow> Storage"
    and inv :: "'s \<Rightarrow> bool"
    and first :: "'s \<Rightarrow> uint64"
    and last :: "'s \<Rightarrow> uint64"
    and entry_at :: "'s \<Rightarrow> uint64 \<Rightarrow> Entry"
  assumes first_index: "inv s \<Longrightarrow> stFirstIndex (view s) = Some (first s, None)"
    and last_index: "inv s \<Longrightarrow> stLastIndex (view s) = Some (last s, None)"
    and index_bounds: "inv s \<Longrightarrow> first s \<noteq> 0 \<and> last s \<noteq> - 1 \<and> first s \<le> last s + 1"
    and term_stored: "inv s \<Longrightarrow> first s - 1 \<le> i \<Longrightarrow> i \<le> last s \<Longrightarrow>
      stTerm (view s) i = Some (eTerm (entry_at s i), None)"
    and entries_stored: "inv s \<Longrightarrow> first s \<le> lo \<Longrightarrow> lo < hi \<Longrightarrow> hi \<le> last s + 1 \<Longrightarrow>
      stEntries (view s) lo hi maxSize =
        Some (map (\<lambda>k. entry_at s (lo + of_nat k)) [0..<unat (hi - lo)], None)"
    and entry_index: "inv s \<Longrightarrow> first s \<le> i \<Longrightarrow> i \<le> last s \<Longrightarrow> eIndex (entry_at s i) = i"

interpretation memory: storage_iface MemoryStorage_Storage ms_ok ms_first ms_last ms_entry
proof
  fix s assume ok: "ms_ok s"
  show "stFirstIndex (MemoryStorage_Storage s) = Some (ms_first s, None)"
    and "stLastIndex (MemoryStorage_Storage s) = Some (ms_last s, None)"
    using ok by (simp_all add: MemoryStorage_Storage_def MemoryStorage_FirstIndex_def
        MemoryStorage_LastIndex_def ms_firstIndex ms_lastIndex)
  have "unat (ms_last s) < unat (ms_last s + 1)"
    using ms_unat(2,4,5) [OF ok] by linarith
  then have "ms_last s \<noteq> - 1" by auto
  then show "ms_first s \<noteq> 0 \<and> ms_last s \<noteq> - 1 \<and> ms_first s \<le> ms_last s + 1"
    using ms_unat [OF ok] by (auto simp: word_nat Suc_le_eq)
next
  fix s i assume *: "ms_ok s" "ms_first s - 1 \<le> i" "i \<le> ms_last s"
  then show "stTerm (MemoryStorage_Storage s) i = Some (eTerm (ms_entry s i), None)"
    by (simp add: MemoryStorage_Storage_def MemoryStorage_Term_eq ms_first_def not_less)
next
  fix s lo hi maxSize assume "ms_ok s" "ms_first s \<le> lo" "lo < hi" "hi \<le> ms_last s + 1"
  then show "stEntries (MemoryStorage_Storage s) lo hi maxSize =
      Some (map (\<lambda>k. ms_entry s (lo + of_nat k)) [0..<unat (hi - lo)], None)"
    by (simp add: MemoryStorage_Storage_def MemoryStorage_Entries_eq)
next
  fix s i assume *: "ms_ok s" "ms_first s \<le> i" "i \<le> ms_last s"
  then have "ms_offset s \<le> i"
    using ms_unat(3) [OF *(1)] by (simp add: word_nat)
  with * show "eIndex (ms_entry s i) = i"
    by (intro ms_entry_index)
qed

subsection \<open>The methods that write\<close>

lemma newMemoryStorage_ok: "ms_ok newMemoryStorage"
  by (simp add: newMemoryStorage_def ms_ok_def log_from_def ms_offset_def Entry_zero_def)

text \<open>Cutting the log at an index leaves the later entries where they are.\<close>

lemma Compact_later:
  assumes ok: "ms_ok ms" and i: "ms_offset ms \<le> i" "i < j" "j \<le> ms_last ms" and x: "eIndex x = i"
  shows "ms_entry (ms\<lparr>msEnts := x # drop (Suc (unat (i - ms_offset ms))) (msEnts ms)\<rparr>) j = ms_entry ms j"
    (is "ms_entry ?ms j = _")
proof -
  let ?o = "ms_offset ms"
  have off: "ms_offset ?ms = i"
    using x by (simp add: ms_offset_def)
  have nat: "unat i < unat j" "unat ?o \<le> unat i" "i \<le> j" "?o \<le> j"
    using i by (auto simp: word_nat)
  have sub: "unat (j - i) = unat j - unat i" "unat (j - ?o) = unat j - unat ?o" "unat (i - ?o) = unat i - unat ?o"
    using nat(3,4) i(1) by (simp_all only: unat_sub)
  have "unat (j - ?o) < length (msEnts ms)"
    by (rule ms_pos(1) [OF ok nat(4) i(3)])
  moreover have "ms_entry ?ms j = msEnts ?ms ! (unat j - unat i)"
    by (simp only: ms_entry_def [of ?ms] off sub(1))
  moreover have "ms_entry ms j = msEnts ms ! (unat j - unat ?o)"
    by (simp only: ms_entry_def [of ms] sub(2))
  moreover have "Suc (unat i - unat ?o) + (unat j - unat i - 1) = unat j - unat ?o"
    using nat(1,2) by linarith
  ultimately show ?thesis
    using nat(1,2) by (simp add: nth_Cons' sub)
qed

lemma Compact_spec:
  assumes ok: "ms_ok ms" and i: "ms_offset ms < i" "i \<le> ms_last ms"
  shows "returns (MemoryStorage_Compact ms i) (\<lambda>(ms', err). err = None \<and> ms_ok ms' \<and>
    ms_offset ms' = i \<and> ms_last ms' = ms_last ms \<and> eTerm (ms_entry ms' i) = eTerm (ms_entry ms i) \<and>
    (\<forall>j. i < j \<and> j \<le> ms_last ms \<longrightarrow> ms_entry ms' j = ms_entry ms j) \<and>
    msSnapshot ms' = msSnapshot ms \<and> msHardState ms' = msHardState ms)"
proof -
  let ?o = "ms_offset ms" and ?es = "msEnts ms" and ?k = "unat (i - ms_offset ms)"
  let ?x = "ms_entry ms i"
  let ?ms = "ms\<lparr>msEnts := Entry_zero\<lparr>eIndex := i, eTerm := eTerm ?x\<rparr> # drop (Suc ?k) ?es\<rparr>"
  have le: "?o \<le> i" using i(1) by simp
  note pos = ms_pos [OF ok le i(2)] and u = ms_unat [OF ok]
  have idx: "eIndex ?x = i"
    by (rule ms_entry_index [OF ok le i(2)])
  have con: "contiguous ?o ?es" "unat ?o + length ?es < 2 ^ 64" "length ?es < 2 ^ 63"
    using ok by (auto simp: ms_ok_def log_from_def)
  have k: "?k < length ?es" "unat i = unat ?o + ?k"
    using pos(1) le by (auto simp: unat_sub word_nat)
  have unat1: "unat (i - ?o + 1) = Suc ?k"
    using unat_add_of_nat64 [of "i - ?o" 1] k con by simp
  have call: "MemoryStorage_Compact ms i = Some (?ms, None)"
    using i k by (simp add: MemoryStorage_Compact_def ms_head [OF ok] ms_lastIndex [OF ok] pos(2) unat1 idx
        go_drop64_def not_le not_less Let_def del: go_nth64_0 flip: ms_offset_def)
  have off: "ms_offset ?ms = i"
    by (simp add: ms_offset_def)
  have "contiguous (i + 1) (drop (Suc ?k) ?es)"
    using contiguous_drop [OF con(1), of "Suc ?k"] le by (simp add: add.commute)
  then have ok': "ms_ok ?ms"
    using con k by (auto simp: ms_ok_def off log_from_def)
  have "unat (ms_last ?ms) = unat (ms_last ms)"
    using ms_unat(4) [OF ok'] u(4) k by (simp add: off)
  then have last: "ms_last ?ms = ms_last ms" by (rule word_unat_eq_iff [THEN iffD2])
  have later: "ms_entry ?ms j = ms_entry ms j" if j: "i < j" "j \<le> ms_last ms" for j
    using Compact_later [OF ok le j, of "Entry_zero\<lparr>eIndex := i, eTerm := eTerm ?x\<rparr>"] by simp
  have same: "eTerm (ms_entry ?ms i) = eTerm ?x"
    by (simp add: ms_entry_def [of ?ms] off)
  show ?thesis
    unfolding call returns_Some using ok' off last later same by simp
qed

text \<open>Where the appended entries end, and how many of them are compacted already.\<close>

lemma append_bounds:
  assumes "es \<noteq> []" "log_from i es" "f < i + len64 es"
  shows "contiguous i es" "unat i + length es < 2 ^ 64" "unat (i + len64 es) = unat i + length es"
    "unat f - unat i < length es" "i + len64 es \<noteq> 0" "unat (max i f) = unat i + (unat f - unat i)"
proof -
  show n: "contiguous i es" "unat i + length es < 2 ^ 64"
    using assms by (auto simp: log_from_def)
  show e: "unat (i + len64 es) = unat i + length es"
    unfolding len64_def using n(2) by (rule unat_add_of_nat64)
  show "unat f - unat i < length es"
    using assms(1,3) unfolding word_less_nat_alt e by (cases es) auto
  show "i + len64 es \<noteq> 0"
    using e assms(1) by auto
  show "unat (max i f) = unat i + (unat f - unat i)"
    by (auto simp: max_def word_nat)
qed

text \<open>Where the first entry that is not compacted goes in the stored array.\<close>

lemma append_offset:
  assumes ok: "ms_ok ms" and new: "es \<noteq> []" "log_from i es"
    and span: "ms_first ms < i + len64 es" "i \<le> ms_last ms + 1"
  defines "off \<equiv> eIndex (es ! (unat (ms_first ms) - unat i)) - ms_offset ms"
  shows "unat off = unat (max i (ms_first ms)) - unat (ms_offset ms)" "unat off \<le> length (msEnts ms)"
proof -
  let ?f = "ms_first ms" and ?o = "ms_offset ms"
  let ?d = "unat ?f - unat i"
  note u = ms_unat [OF ok]
  note n = append_bounds [OF new span(1)] and d = append_bounds(4) [OF new span(1)]
  have "eIndex (es ! ?d) = i + of_nat ?d"
    by (rule contiguous_nth [OF n(1) d])
  moreover have "unat (i + of_nat ?d) = unat i + ?d"
    using n(2) d by (intro unat_add_of_nat64) linarith
  ultimately have idx: "unat (eIndex (es ! ?d)) = unat (max i ?f)"
    by (simp only: n(6))
  have ge: "?o \<le> eIndex (es ! ?d)"
    using idx u(3) by (auto simp: word_nat max_def)
  show off: "unat off = unat (max i ?f) - unat ?o"
    unfolding off_def using ge idx by (simp only: unat_sub)
  show "unat off \<le> length (msEnts ms)"
    using span(2) u unfolding off by (auto simp: max_def word_nat Suc_le_eq)
qed

text \<open>
  Appending: what is stored before the first new entry stays, the new entries follow, and
  whatever was stored after them is gone. Entries at or before the compacted index are skipped.
\<close>

lemma Append_eq:
  assumes ok: "ms_ok ms" and new: "es \<noteq> []" "log_from i es" "eIndex (hd es) = i"
    and span: "ms_first ms < i + len64 es" "i \<le> ms_last ms + 1"
  shows "MemoryStorage_Append ms es =
    Some (ms\<lparr>msEnts := take (unat (max i (ms_first ms)) - unat (ms_offset ms)) (msEnts ms) @
                        drop (unat (ms_first ms) - unat i) es\<rparr>, None)"
proof -
  let ?f = "ms_first ms" and ?old = "msEnts ms"
  let ?d = "unat ?f - unat i"
  let ?off = "eIndex (es ! ?d) - ms_offset ms"
  note n = append_bounds [OF new(1,2) span(1)] and d = append_bounds(4) [OF new(1,2) span(1)]
  note off = append_offset [OF ok new(1,2) span]
  have last: "\<not> i + len64 es - 1 < ?f"
    using span(1) n(5) by (simp add: not_less le_minus_one_iff64)
  have nth0: "go_nth64 es 0 = Some (hd es)"
    using new(1) by (cases es) auto
  have sub: "unat (?f - i) = ?d" if "?f > i"
    using that by (simp add: unat_sub word_nat)
  have dropped: "(if ?f > i then go_drop64 es (?f - i) else Some es) = Some (drop ?d es)"
    using d sub by (auto simp: go_drop64_def word_nat)
  have hd0: "go_nth64 (drop ?d es) 0 = Some (es ! ?d)"
    using d by (simp add: go_nth64_def del: go_nth64_0)
  have call: "MemoryStorage_Append ms es =
      (if len64 ?old > ?off then Some (ms\<lparr>msEnts := take (unat ?off) ?old @ drop ?d es\<rparr>, None)
       else if len64 ?old = ?off then Some (ms\<lparr>msEnts := ?old @ drop ?d es\<rparr>, None) else None)"
    using new(1) last
    by (simp only: MemoryStorage_Append_def ms_firstIndex [OF ok] nth0 new(3) dropped hd0 ms_head [OF ok]
        length_0_conv if_False Let_def Option.bind.simps flip: ms_offset_def)
  moreover have "len64 ?old = ?off \<and> take (unat ?off) ?old = ?old" if "\<not> len64 ?old > ?off"
    using that off(2) ms_unat(1) [OF ok] by (auto simp: word_nat word_unat_eq_iff not_less)
  ultimately show ?thesis
    unfolding off(1) [symmetric] by auto
qed

lemma ms_splice:
  assumes ok: "ms_ok ms" and n: "0 < n" "n \<le> length (msEnts ms)"
    and tail: "contiguous (ms_offset ms + of_nat n) es" "unat (ms_offset ms) + n + length es < 2 ^ 64"
    "n + length es < 2 ^ 63"
  defines "ms' \<equiv> ms\<lparr>msEnts := take n (msEnts ms) @ es\<rparr>"
  shows "ms_ok ms'" "ms_offset ms' = ms_offset ms"
    "unat (ms_last ms') = unat (ms_offset ms) + n + length es - 1"
    "ms_offset ms \<le> j \<Longrightarrow> unat j < unat (ms_offset ms) + n \<Longrightarrow> ms_entry ms' j = ms_entry ms j"
    "unat (ms_offset ms) + n \<le> unat j \<Longrightarrow> ms_entry ms' j = es ! (unat j - unat (ms_offset ms) - n)"
proof -
  have con: "msEnts ms \<noteq> []" "contiguous (ms_offset ms) (msEnts ms)"
    using ok by (auto simp: ms_ok_def log_from_def)
  show off: "ms_offset ms' = ms_offset ms"
    using n con(1) by (cases "msEnts ms"; cases n) (auto simp: ms'_def ms_offset_def)
  show ok': "ms_ok ms'"
    unfolding ms_ok_def off using n tail con contiguous_take [OF con(2)]
    by (auto simp: ms'_def log_from_def contiguous_append)
  show "unat (ms_last ms') = unat (ms_offset ms) + n + length es - 1"
    using ms_unat(4) [OF ok'] n(2) unfolding off by (simp add: ms'_def)
  show "ms_entry ms' j = ms_entry ms j" if j: "ms_offset ms \<le> j" "unat j < unat (ms_offset ms) + n"
  proof -
    have "unat (j - ms_offset ms) < n"
      using j by (simp add: unat_sub word_nat)
    then show ?thesis
      using n(2) unfolding ms_entry_def off by (simp add: ms'_def nth_append)
  qed
  show "ms_entry ms' j = es ! (unat j - unat (ms_offset ms) - n)"
    if j: "unat (ms_offset ms) + n \<le> unat j"
  proof -
    have "unat (j - ms_offset ms) = unat j - unat (ms_offset ms)"
      using j by (simp add: unat_sub word_nat)
    then show ?thesis
      using n(2) j unfolding ms_entry_def off by (simp add: ms'_def nth_append)
  qed
qed

text \<open>The first index that changes, as a position in the old entries and in the new ones.\<close>

lemma append_position:
  assumes ok: "ms_ok ms" and new: "es \<noteq> []" "log_from i es"
    and span: "ms_first ms < i + len64 es" "i \<le> ms_last ms + 1"
  defines "m \<equiv> max i (ms_first ms)" and "d \<equiv> unat (ms_first ms) - unat i"
    and "n \<equiv> unat (max i (ms_first ms)) - unat (ms_offset ms)"
  shows "unat m = unat i + d" "i \<le> m" "0 < n" "n \<le> length (msEnts ms)" "unat (ms_offset ms) + n = unat m"
    "ms_offset ms + of_nat n = i + of_nat d"
proof -
  have m: "unat m = max (unat i) (unat (ms_first ms))"
    by (auto simp: m_def max_def word_nat)
  then show i: "unat m = unat i + d" "i \<le> m"
    by (auto simp: d_def m_def)
  show n: "0 < n" "n \<le> length (msEnts ms)" "unat (ms_offset ms) + n = unat m"
    using ms_unat(2,3,5) [OF ok] span append_bounds(3) [OF new span(1)] m unfolding word_nat n_def m_def by linarith+
  have "unat (ms_offset ms + of_nat n) = unat m"
    using n(3) unat_less64 [of m] by (subst unat_add_of_nat64) simp_all
  moreover have "unat (i + of_nat d) = unat m"
    using i(1) unat_less64 [of m] by (subst unat_add_of_nat64) simp_all
  ultimately show "ms_offset ms + of_nat n = i + of_nat d"
    by (simp add: word_unat_eq_iff)
qed

lemma Append_tail:
  assumes ok: "ms_ok ms" and new: "es \<noteq> []" "log_from i es" "eIndex (hd es) = i"
    and span: "ms_first ms < i + len64 es" "i \<le> ms_last ms + 1"
    and room: "length (msEnts ms) + length es < 2 ^ 63"
  shows "\<exists>ms'. MemoryStorage_Append ms es = Some (ms', None) \<and> ms_ok ms' \<and>
    ms_offset ms' = ms_offset ms \<and> ms_last ms' = i + len64 es - 1 \<and>
    (\<forall>j. ms_offset ms \<le> j \<and> j < max i (ms_first ms) \<longrightarrow> ms_entry ms' j = ms_entry ms j) \<and>
    (\<forall>j. max i (ms_first ms) \<le> j \<and> j < i + len64 es \<longrightarrow> ms_entry ms' j = es ! unat (j - i))"
proof -
  let ?o = "ms_offset ms" and ?m = "max i (ms_first ms)"
  let ?n = "unat ?m - unat ?o" and ?d = "unat (ms_first ms) - unat i"
  note e = append_bounds [OF new(1,2) span(1)] and d = append_bounds(4) [OF new(1,2) span(1)]
    and end64 = append_bounds(3) [OF new(1,2) span(1)]
  note pos = append_position [OF ok new(1,2) span]
  note m = pos(1,2) and n = pos(3-5) and i = pos(6)
  have tail: "contiguous (?o + of_nat ?n) (drop ?d es)"
    "unat ?o + ?n + length (drop ?d es) < 2 ^ 64" "?n + length (drop ?d es) < 2 ^ 63"
    unfolding i using contiguous_drop [OF e(1)] e(2) n d m(1) room by auto
  note splice = ms_splice [OF ok n(1,2) tail]
  let ?ms = "ms\<lparr>msEnts := take ?n (msEnts ms) @ drop ?d es\<rparr>"
  have "unat (ms_last ?ms) = unat (i + len64 es) - 1"
    unfolding end64 splice(3) using n d m(1) by simp
  then have last: "ms_last ?ms = i + len64 es - 1"
    using e(5) by (simp add: word_unat_eq_iff unat_minus_one)
  have old: "ms_entry ?ms j = ms_entry ms j" if "?o \<le> j \<and> j < ?m" for j
    using that n(3) by (intro splice(4)) (auto simp only: word_less_nat_alt)
  have fresh: "ms_entry ?ms j = es ! unat (j - i)" if j: "?m \<le> j \<and> j < i + len64 es" for j
  proof -
    have "unat ?m \<le> unat j" "i \<le> j"
      using j m(2) by (auto simp only: word_le_nat_alt intro: order_trans)
    moreover have "?d + (unat j - unat ?m) = unat j - unat i"
      using calculation(1) m(1) by linarith
    ultimately show ?thesis
      using n(3) d by (subst splice(5)) (simp_all add: unat_sub)
  qed
  show ?thesis
    using Append_eq [OF ok new span] splice(1,2) last old fresh by blast
qed

text \<open>
  C26: appending entries that start at or before the end of the stored log always succeeds. The
  log keeps its offset and its invariant, ends with the last new entry, keeps the entries before
  the first new one, and holds the new entries from there on (those not yet compacted).
\<close>

theorem MemoryStorage_Append_replaces_tail:
  assumes ok: "ms_ok ms" and new: "es \<noteq> []" "log_from i es" "eIndex (hd es) = i"
    and span: "ms_first ms < i + len64 es" "i \<le> ms_last ms + 1"
    and room: "length (msEnts ms) + length es < 2 ^ 63"
  shows "\<exists>ms'. MemoryStorage_Append ms es = Some (ms', None) \<and> ms_ok ms' \<and>
    ms_offset ms' = ms_offset ms \<and> ms_last ms' = i + len64 es - 1 \<and>
    (\<forall>j. ms_offset ms \<le> j \<and> j < max i (ms_first ms) \<longrightarrow> ms_entry ms' j = ms_entry ms j) \<and>
    (\<forall>j. max i (ms_first ms) \<le> j \<and> j < i + len64 es \<longrightarrow> ms_entry ms' j = es ! unat (j - i))"
  by (rule Append_tail [OF assms])

text \<open>A log \<open>1:1, 2:1, 3:1\<close> whose entry 3 is overwritten by entries 3 and 4 of term 2.\<close>

definition entry_of :: "nat \<Rightarrow> nat \<Rightarrow> Entry" where
  "entry_of t i = Entry_zero\<lparr>eTerm := of_nat t, eIndex := of_nat i\<rparr>"

definition ms_sample :: MemoryStorage where
  "ms_sample = \<lparr>msHardState = HardState_zero, msSnapshot = Snapshot_zero,
     msEnts = [entry_of 0 0, entry_of 1 1, entry_of 1 2, entry_of 1 3]\<rparr>"

lemma ms_sample_facts:
  "ms_ok ms_sample" "ms_offset ms_sample = 0" "ms_first ms_sample = 1" "ms_last ms_sample = 3"
  "length (msEnts ms_sample) = 4"
  by (simp_all add: ms_sample_def ms_ok_def log_from_def entry_of_def ms_offset_def ms_first_def
      ms_last_def len64_def)

theorem MemoryStorage_Append_replaces_tail_witness:
  "\<exists>ms'. MemoryStorage_Append ms_sample [entry_of 2 3, entry_of 2 4] = Some (ms', None) \<and>
     ms_ok ms' \<and> ms_last ms' = 4 \<and> ms_entry ms' 2 = entry_of 1 2 \<and> ms_entry ms' 3 = entry_of 2 3"
proof -
  let ?es = "[entry_of 2 3, entry_of 2 4]"
  have hyps: "log_from 3 ?es" "eIndex (hd ?es) = 3" "len64 ?es = 2"
    by (simp_all add: log_from_def entry_of_def len64_def)
  obtain ms' where "MemoryStorage_Append ms_sample ?es = Some (ms', None) \<and> ms_ok ms' \<and>
      ms_offset ms' = 0 \<and> ms_last ms' = 4 \<and>
      (\<forall>j. 0 \<le> j \<and> j < 3 \<longrightarrow> ms_entry ms' j = ms_entry ms_sample j) \<and>
      (\<forall>j. 3 \<le> j \<and> j < 5 \<longrightarrow> ms_entry ms' j = ?es ! unat (j - 3))"
    using MemoryStorage_Append_replaces_tail [OF ms_sample_facts(1) _ hyps(1,2)]
    by (auto simp: ms_sample_facts hyps(3))
  moreover from this have "ms_entry ms' 2 = ms_entry ms_sample 2" "ms_entry ms' 3 = ?es ! unat (3 - 3 :: uint64)"
    by auto
  moreover have "ms_entry ms_sample 2 = entry_of 1 2"
    by (simp add: ms_entry_def ms_sample_facts(2)) (simp add: ms_sample_def)
  ultimately show ?thesis by auto
qed

text \<open>
  Compacting at a stored index succeeds, keeps the invariant, moves the offset to that index
  and leaves the last index, the term at the compaction point, every later entry, the snapshot
  and the hard state as they were.
\<close>

theorem MemoryStorage_Compact_keeps_suffix:
  assumes "ms_ok ms" "ms_offset ms < i" "i \<le> ms_last ms"
  shows "\<exists>ms'. MemoryStorage_Compact ms i = Some (ms', None) \<and> ms_ok ms' \<and> ms_offset ms' = i \<and>
    ms_last ms' = ms_last ms \<and> MemoryStorage_Term ms' i = MemoryStorage_Term ms i \<and>
    (\<forall>j. i < j \<and> j \<le> ms_last ms \<longrightarrow> ms_entry ms' j = ms_entry ms j) \<and>
    msSnapshot ms' = msSnapshot ms \<and> msHardState ms' = msHardState ms"
proof -
  obtain ms' where *: "MemoryStorage_Compact ms i = Some (ms', None)" "ms_ok ms'" "ms_offset ms' = i"
    "ms_last ms' = ms_last ms" "eTerm (ms_entry ms' i) = eTerm (ms_entry ms i)"
    "\<forall>j. i < j \<and> j \<le> ms_last ms \<longrightarrow> ms_entry ms' j = ms_entry ms j"
    "msSnapshot ms' = msSnapshot ms" "msHardState ms' = msHardState ms"
    using Compact_spec [OF assms] by (auto simp: returns_def)
  have "MemoryStorage_Term ms' i = MemoryStorage_Term ms i"
    using *(3-5) assms(2,3)
    by (simp add: MemoryStorage_Term_eq [OF *(2)] MemoryStorage_Term_eq [OF assms(1)] not_less_iff_gr_or_eq)
  with * show ?thesis by blast
qed

theorem MemoryStorage_Compact_keeps_suffix_witness:
  "\<exists>ms'. MemoryStorage_Compact ms_sample 2 = Some (ms', None) \<and> ms_ok ms' \<and> ms_offset ms' = 2 \<and>
     ms_entry ms' 3 = ms_entry ms_sample 3"
  using MemoryStorage_Compact_keeps_suffix [of ms_sample 2] by (auto simp: ms_sample_facts)

lemma contiguous_map_upt:
  assumes "\<And>k. a \<le> k \<Longrightarrow> k < b \<Longrightarrow> eIndex (f k) = x + of_nat (k - a)"
  shows "contiguous x (map f [a..<b])"
  using assms
proof (induction "b - a" arbitrary: a x)
  case (Suc n)
  then have split: "[a..<b] = a # [Suc a..<b]" by (simp add: upt_conv_Cons)
  have "contiguous (x + 1) (map f [Suc a..<b])"
    using Suc.prems Suc.hyps(2) by (intro Suc.hyps(1)) (auto simp: of_nat_diff algebra_simps)
  then show ?case
    using Suc.prems [of a] Suc.hyps(2) by (simp add: split)
qed simp

text \<open>
  C27: for a non-empty range of stored indexes \<^verbatim>\<open>Entries\<close> returns exactly the stored entries of the range, whose indexes
  are those of the range in order and whose terms are what \<^verbatim>\<open>Term\<close> answers for these indexes. For an index before the compaction point both \<^verbatim>\<open>Term\<close> and
  \<^verbatim>\<open>Entries\<close>, whatever its upper bound, answer \<^verbatim>\<open>ErrCompacted\<close>.
\<close>

theorem MemoryStorage_reads_its_log:
  assumes "ms_ok ms" "ms_first ms \<le> lo" "lo < hi" "hi \<le> ms_last ms + 1"
  shows "(\<exists>es. MemoryStorage_Entries ms lo hi maxSize = Some (es, None) \<and>
      es = take (unat (hi - lo)) (drop (unat (lo - ms_offset ms)) (msEnts ms)) \<and> length es = unat (hi - lo) \<and>
      contiguous lo es \<and> (\<forall>k < length es. MemoryStorage_Term ms (lo + of_nat k) = Some (eTerm (es ! k), None)))
    \<and> (\<forall>j < ms_offset ms. MemoryStorage_Term ms j = Some (0, Some ErrCompacted) \<and>
      (\<forall>top. MemoryStorage_Entries ms j top maxSize = Some ([], Some ErrCompacted)))"
proof (intro conjI)
  let ?es = "map (\<lambda>k. ms_entry ms (lo + of_nat k)) [0..<unat (hi - lo)]"
  note u = ms_unat [OF assms(1)]
  have step: "lo + of_nat k \<le> ms_last ms" "ms_offset ms \<le> lo + of_nat k" if "k < unat (hi - lo)" for k
  proof -
    have "unat (hi - lo) = unat hi - unat lo" using assms(3) by (simp add: unat_sub word_nat)
    then have k: "unat lo + k < unat hi" using that by linarith
    then have "unat (lo + of_nat k) = unat lo + k"
      using unat_less64 [of hi] by (intro unat_add_of_nat64) linarith
    then show "lo + of_nat k \<le> ms_last ms" "ms_offset ms \<le> lo + of_nat k"
      using k assms(2,4) u(3-5) unfolding word_nat by linarith+
  qed
  have "contiguous lo ?es"
    using step by (intro contiguous_map_upt) (auto simp: ms_entry_index [OF assms(1)])
  moreover have "\<forall>k < length ?es. MemoryStorage_Term ms (lo + of_nat k) = Some (eTerm (?es ! k), None)"
    using step by (simp add: MemoryStorage_Term_eq [OF assms(1)] leD)
  moreover have "length ?es = unat (hi - lo)"
    by simp
  ultimately show "\<exists>es. MemoryStorage_Entries ms lo hi maxSize = Some (es, None) \<and>
      es = take (unat (hi - lo)) (drop (unat (lo - ms_offset ms)) (msEnts ms)) \<and> length es = unat (hi - lo) \<and>
      contiguous lo es \<and> (\<forall>k < length es. MemoryStorage_Term ms (lo + of_nat k) = Some (eTerm (es ! k), None))"
    using MemoryStorage_Entries_eq [OF assms, of maxSize] stored_range [OF assms] by blast
  show "\<forall>j < ms_offset ms. MemoryStorage_Term ms j = Some (0, Some ErrCompacted) \<and>
      (\<forall>top. MemoryStorage_Entries ms j top maxSize = Some ([], Some ErrCompacted))"
    by (simp add: MemoryStorage_Term_def MemoryStorage_Entries_def ms_head [OF assms(1)] del: go_nth64_0 flip: ms_offset_def)
qed

theorem MemoryStorage_reads_its_log_witness:
  "\<exists>es. MemoryStorage_Entries ms_sample 1 4 0 = Some (es, None) \<and> es = take 3 (drop 1 (msEnts ms_sample)) \<and> length es = 3 \<and> contiguous 1 es"
  using MemoryStorage_reads_its_log [of ms_sample 1 4 0] by (auto simp: ms_sample_facts)

text \<open>
  A storage as \<^verbatim>\<open>newMemoryStorage\<close> makes it cannot take a snapshot: the metadata pointer of
  its snapshot is nil, so applying or creating a snapshot and reading the initial state all panic,
  whatever the arguments.
\<close>

theorem newMemoryStorage_snapshot_panics:
  "MemoryStorage_ApplySnapshot newMemoryStorage snap = None \<and>
   MemoryStorage_CreateSnapshot newMemoryStorage i cs data = None \<and>
   MemoryStorage_InitialState newMemoryStorage = None"
  by (simp add: MemoryStorage_ApplySnapshot_def MemoryStorage_CreateSnapshot_def
      MemoryStorage_InitialState_def newMemoryStorage_def Snapshot_zero_def)

text \<open>What the two snapshot operations do to a storage whose snapshot has its metadata.\<close>

lemma ms_ok_snapshot [simp]: "ms_ok (ms\<lparr>msSnapshot := snap\<rparr>) = ms_ok ms"
  by (simp add: ms_ok_def ms_offset_def)

lemma ApplySnapshot_ok:
  assumes "ms_ok ms" "smIndex smd \<noteq> - 1" "sMetadata snap = Some smd"
    "MemoryStorage_ApplySnapshot ms snap = Some (ms', err)"
  shows "ms_ok ms' \<and> (if err = None then ms_offset ms' = smIndex smd \<and> ms_last ms' = smIndex smd \<and>
    eTerm (ms_entry ms' (smIndex smd)) = smTerm smd \<and> msSnapshot ms' = snap else ms' = ms)"
proof -
  have "unat (smIndex smd) + 1 < 2 ^ 64"
    using unat_less64 [of "smIndex smd + 1"] unat_Suc64 [OF assms(2)] by simp
  then show ?thesis
    using assms by (auto simp: MemoryStorage_ApplySnapshot_def ms_ok_def log_from_def ms_offset_def
        ms_last_def ms_entry_def len64_def Let_def split: if_splits bind_splits)
qed

lemma CreateSnapshot_ok:
  assumes "ms_ok ms" "sMetadata (msSnapshot ms) = Some md" "smIndex md \<le> i" "ms_offset ms \<le> i" "i \<le> ms_last ms"
  shows "\<exists>ms' snap smd. MemoryStorage_CreateSnapshot ms i cs data = Some (ms', snap, None) \<and> ms_ok ms' \<and>
    msEnts ms' = msEnts ms \<and> msSnapshot ms' = snap \<and> sData snap = data \<and> sMetadata snap = Some smd \<and>
    smIndex smd = i \<and> smTerm smd = eTerm (ms_entry ms i)"
  using assms ms_pos(2) [OF assms(1,4,5)]
  by (simp add: MemoryStorage_CreateSnapshot_def ms_head [OF assms(1)] ms_lastIndex [OF assms(1)]
      Let_def not_less flip: ms_offset_def del: go_nth64_0)

end
