(* ===== verification/Raft_Log.thy ===== *)
theory Raft_Log
  imports Raft_Storage
begin

section \<open>The raft log: stable storage and the unstable tail\<close>

text \<open>
  \<^verbatim>\<open>src/raft/log.go\<close> and \<^verbatim>\<open>src/raft/log_unstable.go\<close>. The log a raft peer sees is the stored log
  followed by the entries (or the snapshot) that are not stable yet. Methods that only read
  return their value; the methods with a pointer receiver that write return the new log. The
  lemmas on reading are proved inside the locale \<open>storage_iface\<close>, for every storage that
  behaves as documented, and hold for \<^verbatim>\<open>MemoryStorage\<close> by its interpretation.
\<close>

subsection \<open>unstable\<close>

text \<open>
  \<open>uSpare\<close> holds the cells of the backing array past the length of \<open>uEntries\<close>: their number is
  what \<^verbatim>\<open>cap\<close> adds to \<^verbatim>\<open>len\<close>, and a slice expression may reach into them.
\<close>

(* raft/log_unstable.go 5-10 unstable *)
record unstable =
  uSnapshot :: "Snapshot option"
  uEntries :: "Entry list"
  uSpare :: "Entry list"
  uOffset :: uint64
  uLogger :: Logger

(* raft/log_unstable.go 12-17 unstable.maybeFirstIndex *)
definition maybeFirstIndex :: "unstable \<Rightarrow> (uint64 \<times> bool) option" where
  "maybeFirstIndex u =
     (case uSnapshot u of
        Some s \<Rightarrow> do { md \<leftarrow> sMetadata s; Some (smIndex md + 1, True) }
      | None \<Rightarrow> Some (0, False))"

(* raft/log_unstable.go 19-27 unstable.maybeLastIndex *)
definition maybeLastIndex :: "unstable \<Rightarrow> (uint64 \<times> bool) option" where
  "maybeLastIndex u =
     (if length (uEntries u) \<noteq> 0 then Some (uOffset u + len64 (uEntries u) - 1, True)
      else case uSnapshot u of
             Some s \<Rightarrow> do { md \<leftarrow> sMetadata s; Some (smIndex md, True) }
           | None \<Rightarrow> Some (0, False))"

(* raft/log_unstable.go 28-44 unstable.maybeTerm *)
definition maybeTerm :: "unstable \<Rightarrow> uint64 \<Rightarrow> (uint64 \<times> bool) option" where
  "maybeTerm u i =
     (if i < uOffset u then
        (case uSnapshot u of
           Some s \<Rightarrow> do {
             md \<leftarrow> sMetadata s;
             if smIndex md = i then Some (smTerm md, True) else Some (0, False)
           }
         | None \<Rightarrow> Some (0, False))
      else do {
        (last, ok) \<leftarrow> maybeLastIndex u;
        if \<not> ok then Some (0, False)
        else if i > last then Some (0, False)
        else do {
          e \<leftarrow> go_nth64 (uEntries u) (i - uOffset u);
          Some (eTerm e, True)
        }
      })"

text \<open>Reslicing keeps the capacity; \<^verbatim>\<open>shrinkEntriesArray\<close> drops it once it is more than half unused.\<close>

(* raft/log_unstable.go 56-65 unstable.shrinkEntriesArray *)
definition shrinkEntriesArray :: "unstable \<Rightarrow> unstable" where
  "shrinkEntriesArray u =
     (if length (uEntries u) = 0 then u\<lparr>uEntries := [], uSpare := []\<rparr>
      else if length (uEntries u) * 2 < length (uEntries u) + length (uSpare u) then u\<lparr>uSpare := []\<rparr>
      else u)"

(* raft/log_unstable.go 45-55 unstable.stableTo *)
definition stableTo :: "unstable \<Rightarrow> uint64 \<Rightarrow> uint64 \<Rightarrow> unstable option" where
  "stableTo u i t = do {
     (gt, ok) \<leftarrow> maybeTerm u i;
     if \<not> ok then Some u
     else if gt = t \<and> i \<ge> uOffset u then do {
       es \<leftarrow> go_drop64 (uEntries u) (i + 1 - uOffset u);
       Some (shrinkEntriesArray (u\<lparr>uEntries := es, uOffset := i + 1\<rparr>))
     }
     else Some u
   }"

(* raft/log_unstable.go 70-75 unstable.mustCheckOutOfBounds *)
definition unstable_mustCheckOutOfBounds :: "unstable \<Rightarrow> uint64 \<Rightarrow> uint64 \<Rightarrow> unit option" where
  "unstable_mustCheckOutOfBounds u lo hi = (if lo > hi then Some () else Some ())"

(* raft/log_unstable.go 66-69 unstable.slice *)
definition unstable_slice :: "unstable \<Rightarrow> uint64 \<Rightarrow> uint64 \<Rightarrow> Entry list option" where
  "unstable_slice u lo hi = do {
     unstable_mustCheckOutOfBounds u lo hi;
     go_slice64 (uEntries u @ uSpare u) (lo - uOffset u) (hi - uOffset u)
   }"

(* raft/log_unstable.go 77-81 unstable.restore *)
definition unstable_restore :: "unstable \<Rightarrow> Snapshot \<Rightarrow> unstable option" where
  "unstable_restore u s = do {
     md \<leftarrow> sMetadata s;
     Some (u\<lparr>uOffset := smIndex md + 1, uEntries := [], uSpare := [], uSnapshot := Some s\<rparr>)
   }"

subsection \<open>raftLog\<close>

(* raft/log.go 10-10 noLimit *)
definition noLimit :: uint64 where
  "noLimit = - 1"

(* raft/log.go 12-23 raftLog *)
record raftLog =
  lStorage :: "Storage option"
  lUnstable :: unstable
  lCommitted :: uint64
  lApplied :: uint64
  lLogger :: Logger
  lMaxNextEntsSize :: uint64

text \<open>A call that panics when its second result is an error.\<close>

definition must :: "('a \<times> Err option) option \<Rightarrow> 'a option" where
  "must m = do { (x, err) \<leftarrow> m; if err \<noteq> None then None else Some x }"

(* raft/log.go 28-50 newLogWithSize *)
definition newLogWithSize :: "Storage option \<Rightarrow> Logger \<Rightarrow> uint64 \<Rightarrow> raftLog option" where
  "newLogWithSize storage logger maxNextEntsSize = do {
     st \<leftarrow> storage;
     firstIdx \<leftarrow> must (stFirstIndex st);
     lastIdx \<leftarrow> must (stLastIndex st);
     Some \<lparr>lStorage = storage,
           lUnstable = \<lparr>uSnapshot = None, uEntries = [], uSpare = [], uOffset = lastIdx + 1, uLogger = logger\<rparr>,
           lCommitted = firstIdx - 1, lApplied = firstIdx - 1, lLogger = logger,
           lMaxNextEntsSize = maxNextEntsSize\<rparr>
   }"

(* raft/log.go 25-27 newLog *)
definition newLog :: "Storage option \<Rightarrow> Logger \<Rightarrow> raftLog option" where
  "newLog storage logger = newLogWithSize storage logger noLimit"

(* raft/log.go 140-149 raftLog.firstIndex *)
definition firstIndex :: "raftLog \<Rightarrow> uint64 option" where
  "firstIndex rl = do {
     (i, ok) \<leftarrow> maybeFirstIndex (lUnstable rl);
     if ok then Some i else do { st \<leftarrow> lStorage rl; must (stFirstIndex st) }
   }"

(* raft/log.go 150-159 raftLog.lastIndex *)
definition lastIndex :: "raftLog \<Rightarrow> uint64 option" where
  "lastIndex rl = do {
     (i, ok) \<leftarrow> maybeLastIndex (lUnstable rl);
     if ok then Some i else do { st \<leftarrow> lStorage rl; must (stLastIndex st) }
   }"

(* raft/log.go 221-237 raftLog.term *)
definition log_term :: "raftLog \<Rightarrow> uint64 \<Rightarrow> (uint64 \<times> Err option) option" where
  "log_term rl i = do {
     fi \<leftarrow> firstIndex rl;
     let dummyIndex = fi - 1;
     if i < dummyIndex then Some (0, None)
     else do {
       li \<leftarrow> lastIndex rl;
       if i > li then Some (0, None)
       else do {
         (t, ok) \<leftarrow> maybeTerm (lUnstable rl) i;
         if ok then Some (t, None)
         else do {
           st \<leftarrow> lStorage rl;
           (t, err) \<leftarrow> stTerm st i;
           if err = None then Some (t, None)
           else if err = Some ErrCompacted \<or> err = Some ErrUnavailable then Some (0, err)
           else None
         }
       }
     }
   }"

(* raft/log.go 160-166 raftLog.lastTerm *)
definition lastTerm :: "raftLog \<Rightarrow> uint64 option" where
  "lastTerm rl = do {
     li \<leftarrow> lastIndex rl;
     (t, err) \<leftarrow> log_term rl li;
     if err \<noteq> None then None else Some t
   }"

(* raft/log.go 257-270 raftLog.mustCheckOutOfBounds *)
definition log_mustCheckOutOfBounds :: "raftLog \<Rightarrow> uint64 \<Rightarrow> uint64 \<Rightarrow> Err option option" where
  "log_mustCheckOutOfBounds rl lo hi =
     (if lo > hi then None
      else do {
        fi \<leftarrow> firstIndex rl;
        if lo < fi then Some (Some ErrCompacted)
        else do {
          li \<leftarrow> lastIndex rl;
          let len = li + 1 - fi;
          if hi > fi + len then None else Some None
        }
      })"

(* raft/log.go 61-96 raftLog.slice *)
definition log_slice :: "raftLog \<Rightarrow> uint64 \<Rightarrow> uint64 \<Rightarrow> uint64 \<Rightarrow> (Entry list \<times> Err option) option" where
  "log_slice rl lo hi maxSize = do {
     err \<leftarrow> log_mustCheckOutOfBounds rl lo hi;
     if err \<noteq> None then Some ([], err)
     else if lo = hi then Some ([], None)
     else do {
       let off = uOffset (lUnstable rl);
       let unstable_part = (\<lambda>ents.
         (if hi > off then do {
            us \<leftarrow> unstable_slice (lUnstable rl) (go_max lo off) hi;
            Some (limitSize (if length ents > 0 then ents @ us else us) maxSize, None)
          }
          else Some (limitSize ents maxSize, None)));
       if lo < off then do {
         st \<leftarrow> lStorage rl;
         (storedEnts, err) \<leftarrow> stEntries st lo (go_min hi off) maxSize;
         case err of
           Some ErrCompacted \<Rightarrow> Some ([], err)
         | Some _ \<Rightarrow> None
         | None \<Rightarrow>
             if len64 storedEnts < go_min hi off - lo then Some (storedEnts, None)
             else unstable_part storedEnts
       }
       else unstable_part []
     }
   }"

(* raft/log.go 55-60 raftLog.entries *)
definition log_entries :: "raftLog \<Rightarrow> uint64 \<Rightarrow> uint64 \<Rightarrow> (Entry list \<times> Err option) option" where
  "log_entries rl i maxsize = do {
     li \<leftarrow> lastIndex rl;
     if i > li then Some ([], None) else log_slice rl i (li + 1) maxsize
   }"

(* raft/log.go 99-101 raftLog.isUpToDate *)
definition isUpToDate :: "raftLog \<Rightarrow> uint64 \<Rightarrow> uint64 \<Rightarrow> bool option" where
  "isUpToDate rl lasti trm = do {
     lt \<leftarrow> lastTerm rl;
     li \<leftarrow> lastIndex rl;
     Some (trm > lt \<or> (trm = lt \<and> lasti \<ge> li))
   }"

(* raft/log.go 102-107 raftLog.snapshot *)
definition log_snapshot :: "raftLog \<Rightarrow> (Snapshot \<times> Err option) option" where
  "log_snapshot rl =
     (case uSnapshot (lUnstable rl) of
        Some s \<Rightarrow> Some (s, None)
      | None \<Rightarrow> do { st \<leftarrow> lStorage rl; stSnapshot st })"

text \<open>\<^verbatim>\<open>append\<close> drops its argument: the body of the function is the return statement.\<close>

(* raft/log.go 108-110 raftLog.append *)
definition log_append :: "raftLog \<Rightarrow> Entry list \<Rightarrow> (raftLog \<times> uint64) option" where
  "log_append rl es = do { li \<leftarrow> lastIndex rl; Some (rl, li) }"

(* raft/log.go 246-255 raftLog.zeroTermOnErrCompacted *)
definition zeroTermOnErrCompacted :: "uint64 \<times> Err option \<Rightarrow> uint64 option" where
  "zeroTermOnErrCompacted r =
     (case r of
        (t, None) \<Rightarrow> Some t
      | (t, Some err) \<Rightarrow> if err = ErrCompacted then Some 0 else None)"

(* raft/log.go 168-175 raftLog.commitTo *)
definition commitTo :: "raftLog \<Rightarrow> uint64 \<Rightarrow> raftLog option" where
  "commitTo rl tocommit =
     (if lCommitted rl < tocommit then do {
        li \<leftarrow> lastIndex rl;
        if li < tocommit then None else Some (rl\<lparr>lCommitted := tocommit\<rparr>)
      }
      else Some rl)"

(* raft/log.go 111-117 raftLog.maybeCommit *)
definition log_maybeCommit :: "raftLog \<Rightarrow> uint64 \<Rightarrow> uint64 \<Rightarrow> (raftLog \<times> bool) option" where
  "log_maybeCommit rl maxIndex trm =
     (if maxIndex > lCommitted rl then do {
        r \<leftarrow> log_term rl maxIndex;
        t \<leftarrow> zeroTermOnErrCompacted r;
        if t = trm then do { rl \<leftarrow> commitTo rl maxIndex; Some (rl, True) } else Some (rl, False)
      }
      else Some (rl, False))"

text \<open>\<^verbatim>\<open>hasPendingSnapshot\<close> does not look at its receiver, so it can be called on a nil log.\<close>

(* raft/log.go 119-122 raftLog.hasPendingSnapshot *)
definition hasPendingSnapshot :: "raftLog option \<Rightarrow> bool" where
  "hasPendingSnapshot rl = False"

(* raft/log.go 123-128 raftLog.unstableEntries *)
definition unstableEntries :: "raftLog \<Rightarrow> Entry list" where
  "unstableEntries rl = (if length (uEntries (lUnstable rl)) = 0 then [] else uEntries (lUnstable rl))"

text \<open>The branch of \<^verbatim>\<open>nextEnts\<close> that would read the entries is commented out in the source.\<close>

(* raft/log.go 129-135 raftLog.nextEnts *)
definition nextEnts :: "raftLog \<Rightarrow> Entry list option" where
  "nextEnts rl = do {
     fi \<leftarrow> firstIndex rl;
     let off = go_max (lApplied rl + 1) fi;
     if lCommitted rl + 1 > off then Some [] else Some []
   }"

(* raft/log.go 136-139 raftLog.hasNextEnts *)
definition hasNextEnts :: "raftLog \<Rightarrow> bool option" where
  "hasNextEnts rl = do {
     fi \<leftarrow> firstIndex rl;
     let off = go_max (lApplied rl + 1) fi;
     Some (lCommitted rl + 1 > off)
   }"

(* raft/log.go 238-244 raftLog.matchTerm *)
definition matchTerm :: "raftLog \<Rightarrow> uint64 \<Rightarrow> uint64 \<Rightarrow> bool option" where
  "matchTerm rl i trm = do {
     (t, err) \<leftarrow> log_term rl i;
     Some (if err \<noteq> None then False else t = trm)
   }"

(* raft/log.go 195-206 raftLog.findConflict *)
fun findConflict :: "raftLog \<Rightarrow> Entry list \<Rightarrow> uint64 option" where
  "findConflict rl [] = Some 0"
| "findConflict rl (ne # ents) = do {
     ok \<leftarrow> matchTerm rl (eIndex ne) (eTerm ne);
     if \<not> ok then do {
       li \<leftarrow> lastIndex rl;
       (if eIndex ne < li then do {
          r \<leftarrow> log_term rl (eIndex ne);
          zeroTermOnErrCompacted r;
          Logf (lLogger rl)
        }
        else Some ());
       Some (eIndex ne)
     }
     else findConflict rl ents
   }"

text \<open>The loop of \<^verbatim>\<open>findConflictByTerm\<close>; \<^verbatim>\<open>index--\<close> wraps around below 0.\<close>

(* raft/log.go 212-219 raftLog.findConflictByTerm *)
partial_function (option) conflictByTermLoop :: "raftLog \<Rightarrow> uint64 \<Rightarrow> uint64 \<Rightarrow> uint64 option" where
  "conflictByTermLoop rl trm index = do {
     (logTerm, err) \<leftarrow> log_term rl index;
     if logTerm \<le> trm \<or> err \<noteq> None then Some index
     else conflictByTermLoop rl trm (index - 1)
   }"

(* raft/log.go 207-220 raftLog.findConflictByTerm *)
definition findConflictByTerm :: "raftLog \<Rightarrow> uint64 \<Rightarrow> uint64 \<Rightarrow> uint64 option" where
  "findConflictByTerm rl index trm = do {
     li \<leftarrow> lastIndex rl;
     if index > li then do { Logf (lLogger rl); Some index }
     else conflictByTermLoop rl trm index
   }"

(* raft/log.go 177-193 raftLog.maybeAppend *)
definition maybeAppend ::
    "raftLog \<Rightarrow> uint64 \<Rightarrow> uint64 \<Rightarrow> uint64 \<Rightarrow> Entry list \<Rightarrow> (raftLog \<times> uint64 \<times> bool) option" where
  "maybeAppend rl index logTerm committed ents = do {
     ok \<leftarrow> matchTerm rl index logTerm;
     if ok then do {
       let lastNewi = index + len64 ents;
       ci \<leftarrow> findConflict rl ents;
       rl \<leftarrow> (if ci = 0 then Some rl
              else if ci \<le> lCommitted rl then None
              else do {
                let offset = index + 1;
                es \<leftarrow> go_drop64 ents (ci - offset);
                (rl, _) \<leftarrow> log_append rl es;
                Some rl
              });
       rl \<leftarrow> commitTo rl (go_min committed lastNewi);
       Some (rl, lastNewi, True)
     }
     else Some (rl, 0, False)
   }"

(* raft/log.go 271-275 raftLog.restore *)
definition log_restore :: "raftLog \<Rightarrow> Snapshot \<Rightarrow> raftLog option" where
  "log_restore rl s = do {
     Logf (lLogger rl);
     md \<leftarrow> sMetadata s;
     u \<leftarrow> unstable_restore (lUnstable rl) s;
     Some (rl\<lparr>lCommitted := smIndex md, lUnstable := u\<rparr>)
   }"

subsection \<open>What the log holds\<close>

text \<open>
  The invariant of a log over a storage that holds the indexes \<open>f\<close> to \<open>l\<close>: the unstable entries
  have consecutive indexes; without an unstable snapshot they start inside the stored log or right
  after it, with one they start right after the snapshot.
\<close>

definition log_ok :: "uint64 \<Rightarrow> uint64 \<Rightarrow> raftLog \<Rightarrow> bool" where
  "log_ok f l rl \<longleftrightarrow>
     log_from (uOffset (lUnstable rl)) (uEntries (lUnstable rl)) \<and>
     (case uSnapshot (lUnstable rl) of
        None \<Rightarrow> f \<le> uOffset (lUnstable rl) \<and> uOffset (lUnstable rl) \<le> l + 1 \<and>
          (uEntries (lUnstable rl) = [] \<longrightarrow> uOffset (lUnstable rl) = l + 1)
      | Some s \<Rightarrow> (case sMetadata s of
            None \<Rightarrow> False
          | Some md \<Rightarrow> smIndex md \<noteq> - 1 \<and> uOffset (lUnstable rl) = smIndex md + 1))"

definition rl_first :: "uint64 \<Rightarrow> raftLog \<Rightarrow> uint64" where
  "rl_first f rl = (case uSnapshot (lUnstable rl) of None \<Rightarrow> f | Some s \<Rightarrow> uOffset (lUnstable rl))"

definition rl_last :: "raftLog \<Rightarrow> uint64" where
  "rl_last rl = uOffset (lUnstable rl) + len64 (uEntries (lUnstable rl)) - 1"

definition rl_entry :: "(uint64 \<Rightarrow> Entry) \<Rightarrow> raftLog \<Rightarrow> uint64 \<Rightarrow> Entry" where
  "rl_entry ent rl i =
     (if uOffset (lUnstable rl) \<le> i then uEntries (lUnstable rl) ! unat (i - uOffset (lUnstable rl)) else ent i)"

definition rl_term :: "(uint64 \<Rightarrow> Entry) \<Rightarrow> raftLog \<Rightarrow> uint64 \<Rightarrow> uint64" where
  "rl_term ent rl i =
     (case uSnapshot (lUnstable rl) of
        Some s \<Rightarrow> if uOffset (lUnstable rl) \<le> i then eTerm (rl_entry ent rl i) else smTerm (the (sMetadata s))
      | None \<Rightarrow> eTerm (rl_entry ent rl i))"

text \<open>The answer of \<^verbatim>\<open>term\<close>, which is 0 outside the log.\<close>

definition rl_term0 :: "uint64 \<Rightarrow> (uint64 \<Rightarrow> Entry) \<Rightarrow> raftLog \<Rightarrow> uint64 \<Rightarrow> uint64" where
  "rl_term0 f ent rl i = (if i < rl_first f rl - 1 \<or> rl_last rl < i then 0 else rl_term ent rl i)"

text \<open>The index of the first entry whose term differs from the log's, or 0.\<close>

primrec first_conflict :: "(uint64 \<Rightarrow> uint64) \<Rightarrow> Entry list \<Rightarrow> uint64" where
  "first_conflict tm [] = 0"
| "first_conflict tm (e # es) = (if tm (eIndex e) = eTerm e then first_conflict tm es else eIndex e)"

lemma must_Some [simp]: "must (Some (x, None)) = Some x"
  by (simp add: must_def)

lemma log_bounds:
  assumes "log_ok f l rl" "f \<noteq> 0" "l \<noteq> - 1"
  shows "rl_first f rl \<le> uOffset (lUnstable rl)" "0 < unat (rl_first f rl)"
    "unat (rl_last rl) + 1 = unat (uOffset (lUnstable rl)) + length (uEntries (lUnstable rl))"
    "unat (rl_last rl + 1) = unat (rl_last rl) + 1"
proof -
  let ?o = "uOffset (lUnstable rl)" and ?es = "uEntries (lUnstable rl)"
  have lf: "unat ?o + length ?es < 2 ^ 64" using assms(1) by (simp add: log_ok_def log_from_def)
  show fo: "rl_first f rl \<le> ?o"
    using assms(1) by (auto simp: log_ok_def rl_first_def split: option.splits)
  have "rl_first f rl \<noteq> 0"
    using assms by (auto simp: log_ok_def rl_first_def add_eq_0_iff2 split: option.splits)
  then show pos: "0 < unat (rl_first f rl)" by (simp add: unat_gt_0)
  have o: "unat (?o + len64 ?es) = unat ?o + length ?es"
    unfolding len64_def using lf by (rule unat_add_of_nat64)
  then have "?o + len64 ?es \<noteq> 0"
    using fo pos by (auto simp: word_le_nat_alt)
  then have "unat (rl_last rl) = unat (?o + len64 ?es) - 1"
    unfolding rl_last_def by (rule unat_minus_one)
  then show last: "unat (rl_last rl) + 1 = unat ?o + length ?es"
    using o fo pos by (simp add: word_le_nat_alt)
  show "unat (rl_last rl + 1) = unat (rl_last rl) + 1"
    using o last by (simp add: rl_last_def)
qed

text \<open>The entries of a log at the indexes from \<open>lo\<close> to \<open>hi - 1\<close>.\<close>

definition span :: "(uint64 \<Rightarrow> 'a) \<Rightarrow> uint64 \<Rightarrow> uint64 \<Rightarrow> 'a list" where
  "span ent lo hi = map (\<lambda>k. ent (lo + of_nat k)) [0..<unat (hi - lo)]"

lemma length_span [simp]: "length (span ent lo hi) = unat (hi - lo)"
  by (simp add: span_def)

lemma span_index:
  fixes lo hi :: uint64
  assumes "lo \<le> hi" "k < unat (hi - lo)"
  shows "unat (lo + of_nat k) = unat lo + k" "lo \<le> lo + of_nat k" "lo + of_nat k < hi"
proof -
  have k: "unat lo + k < unat hi" using assms by (simp add: unat_sub word_nat)
  then show *: "unat (lo + of_nat k) = unat lo + k"
    using unat_less64 [of hi] by (intro unat_add_of_nat64) linarith
  show "lo \<le> lo + of_nat k" "lo + of_nat k < hi"
    using * k unfolding word_nat by simp_all
qed

lemma span_cong:
  assumes "lo \<le> hi" "\<And>i. lo \<le> i \<Longrightarrow> i < hi \<Longrightarrow> f i = g i"
  shows "span f lo hi = span g lo hi"
  unfolding span_def using span_index [OF assms(1)] assms(2) by simp

lemma span_append:
  assumes "lo \<le> mid" "mid \<le> hi"
  shows "span ent lo mid @ span ent mid hi = span ent lo hi"
proof (rule nth_equalityI)
  have n: "unat (mid - lo) + unat (hi - mid) = unat (hi - lo)"
    using assms by (simp add: unat_sub word_nat)
  then show "length (span ent lo mid @ span ent mid hi) = length (span ent lo hi)" by simp
  fix k assume "k < length (span ent lo mid @ span ent mid hi)"
  then have k: "k < unat (hi - lo)" using n by simp
  have "mid + of_nat (k - unat (mid - lo)) = lo + of_nat k" if "unat (mid - lo) \<le> k"
    using that by (simp add: of_nat_diff)
  then show "(span ent lo mid @ span ent mid hi) ! k = span ent lo hi ! k"
    using n k by (cases "k < unat (mid - lo)") (simp_all add: span_def nth_append not_less add.commute)
qed

lemma unstable_slice_eq:
  assumes "uOffset u \<le> lo" "lo \<le> hi" "unat hi \<le> unat (uOffset u) + length (uEntries u)"
  shows "unstable_slice u lo hi = Some (span (\<lambda>i. uEntries u ! unat (i - uOffset u)) lo hi)"
proof -
  let ?o = "uOffset u" and ?es = "uEntries u"
  have le: "unat ?o \<le> unat lo" "unat lo \<le> unat hi" "?o \<le> hi"
    using assms(1,2) order_trans [OF assms(1,2)] by (simp_all add: word_le_nat_alt)
  have sub: "unat (lo - ?o) = unat lo - unat ?o" "unat (hi - ?o) = unat hi - unat ?o"
    "unat (hi - lo) = unat hi - unat lo"
    by (simp_all add: unat_sub assms(1,2) le(3))
  let ?l = "take (unat (hi - ?o) - unat (lo - ?o)) (drop (unat (lo - ?o)) (?es @ uSpare u))"
  have "?l = span (\<lambda>i. ?es ! unat (i - ?o)) lo hi" (is "_ = ?r")
  proof (rule nth_equalityI)
    show len: "length ?l = length ?r"
      using assms(3) le by (simp add: sub)
    fix k assume "k < length ?l"
    then have k: "k < unat (hi - lo)" unfolding len by simp
    then have pos: "unat lo - unat ?o + k < length ?es"
      using assms(3) le unfolding sub(3) by linarith
    have "?o \<le> lo + of_nat k" using span_index(2) [OF assms(2) k] assms(1) by (rule order_trans [rotated])
    then have "unat (lo + of_nat k - ?o) = unat lo - unat ?o + k"
      using span_index(1) [OF assms(2) k] le(1) by (simp add: unat_sub)
    then show "?l ! k = ?r ! k"
      using k le pos by (simp add: span_def nth_append sub)
  qed
  moreover have "lo - ?o \<le> hi - ?o" "unat (hi - ?o) \<le> length (?es @ uSpare u)"
    using le assms(3) by (simp_all add: word_le_nat_alt sub)
  ultimately show ?thesis
    by (simp add: unstable_slice_def unstable_mustCheckOutOfBounds_def go_slice64_def)
qed

context storage_iface
begin

lemma log_firstIndex:
  assumes "inv s" "lStorage rl = Some (view s)" "log_ok (first s) (last s) rl"
  shows "firstIndex rl = Some (rl_first (first s) rl)"
  using assms(3)
  by (auto simp: firstIndex_def maybeFirstIndex_def rl_first_def log_ok_def assms(2) first_index [OF assms(1)]
      split: option.splits)

lemma log_lastIndex:
  assumes "inv s" "lStorage rl = Some (view s)" "log_ok (first s) (last s) rl"
  shows "lastIndex rl = Some (rl_last rl)"
  using assms(3)
  by (auto simp: lastIndex_def maybeLastIndex_def rl_last_def log_ok_def assms(2) last_index [OF assms(1)]
      split: option.splits)

text \<open>Inside the log, \<^verbatim>\<open>term\<close> asks the unstable part first and then the storage; an index before the unstable entries is the snapshot's or stored.\<close>

lemma log_term_within:
  assumes "inv s" "lStorage rl = Some (view s)" "log_ok (first s) (last s) rl"
    and "rl_first (first s) rl - 1 \<le> i" "i \<le> rl_last rl"
  shows "maybeTerm (lUnstable rl) i = Some (t, True) \<Longrightarrow> log_term rl i = Some (t, None)"
    and "maybeTerm (lUnstable rl) i = Some (t', False) \<Longrightarrow> stTerm (view s) i = Some (t, None) \<Longrightarrow> log_term rl i = Some (t, None)"
  using leD [OF assms(4)] leD [OF assms(5)]
  by (simp_all add: log_term_def log_firstIndex [OF assms(1-3)] log_lastIndex [OF assms(1-3)] Let_def assms(2))

lemma maybeTerm_unstable:
  assumes "inv s" "log_ok (first s) (last s) rl" "uOffset (lUnstable rl) \<le> i" "i \<le> rl_last rl"
  shows "maybeTerm (lUnstable rl) i = Some (rl_term ent rl i, True)"
proof -
  have "first s \<noteq> 0" "last s \<noteq> - 1" using index_bounds [OF assms(1)] by auto
  then have pos: "unat (i - uOffset (lUnstable rl)) < length (uEntries (lUnstable rl))"
    using assms(3,4) log_bounds(3) [OF assms(2)] by (simp add: unat_sub word_nat)
  then have "uEntries (lUnstable rl) \<noteq> []" by auto
  then show ?thesis
    using assms(3,4) pos
    by (auto simp: maybeTerm_def maybeLastIndex_def rl_last_def [symmetric] go_nth64_def rl_term_def rl_entry_def split: option.split)
qed

lemma before_unstable_cases:
  assumes "inv s" "log_ok (first s) (last s) rl" "rl_first (first s) rl - 1 \<le> i" "i < uOffset (lUnstable rl)"
  obtains (snap) snap md where "uSnapshot (lUnstable rl) = Some snap" "sMetadata snap = Some md" "i = smIndex md"
    | (stored) "uSnapshot (lUnstable rl) = None" "first s - 1 \<le> i" "i \<le> last s"
proof (cases "uSnapshot (lUnstable rl)")
  case None
  moreover have "i \<le> last s"
    using assms(2,4) None index_bounds [OF assms(1)] unat_Suc64 [of "last s"] by (auto simp: log_ok_def word_nat)
  ultimately show thesis
    using stored assms(3) by (simp add: rl_first_def)
next
  case (Some snap)
  then obtain md where md: "sMetadata snap = Some md" "smIndex md \<noteq> - 1" "uOffset (lUnstable rl) = smIndex md + 1"
    using assms(2) by (auto simp: log_ok_def split: option.splits)
  then have "smIndex md \<le> i" "i \<le> smIndex md"
    using Some assms(3,4) by (simp_all add: rl_first_def word_nat unat_Suc64)
  then show thesis
    using that(1) [OF Some md(1)] by simp
qed

lemma log_term_eq:
  assumes "inv s" "lStorage rl = Some (view s)" "log_ok (first s) (last s) rl"
  shows "log_term rl i = Some (rl_term0 (first s) (entry_at s) rl i, None)"
proof (cases "i < rl_first (first s) rl - 1 \<or> rl_last rl < i")
  case True
  then show ?thesis
    by (auto simp: log_term_def log_firstIndex [OF assms] log_lastIndex [OF assms] Let_def rl_term0_def)
next
  case False
  then have range: "rl_first (first s) rl - 1 \<le> i" "i \<le> rl_last rl" by auto
  note within = log_term_within [OF assms range]
  have "log_term rl i = Some (rl_term (entry_at s) rl i, None)"
  proof (cases "uOffset (lUnstable rl) \<le> i")
    case True
    then show ?thesis
      using within(1) maybeTerm_unstable [OF assms(1,3)] range(2) by blast
  next
    case before: False
    then have lt: "i < uOffset (lUnstable rl)" by simp
    with assms(1,3) range(1) show ?thesis
    proof (cases rule: before_unstable_cases)
      case (snap snap md)
      then show ?thesis
        using before lt by (intro within(1)) (simp add: maybeTerm_def rl_term_def)
    next
      case stored
      then show ?thesis
        using before lt term_stored [OF assms(1)] by (intro within(2)) (simp_all add: maybeTerm_def rl_term_def rl_entry_def)
    qed
  qed
  with False show ?thesis by (simp add: rl_term0_def)
qed

lemma slice_unstable_part:
  assumes "inv s" "log_ok (first s) (last s) rl" "lo \<le> hi" "hi \<le> rl_last rl + 1" "uOffset (lUnstable rl) < hi"
  shows "unstable_slice (lUnstable rl) (max lo (uOffset (lUnstable rl))) hi =
    Some (span (rl_entry (entry_at s) rl) (max lo (uOffset (lUnstable rl))) hi)"
proof -
  let ?u = "lUnstable rl" and ?e = "rl_entry (entry_at s) rl"
  let ?o = "uOffset ?u"
  have ne: "first s \<noteq> 0" "last s \<noteq> - 1" using index_bounds [OF assms(1)] by auto
  have "unat hi \<le> unat ?o + length (uEntries ?u)"
    using assms(4) log_bounds(3,4) [OF assms(2) ne] by (simp add: word_le_nat_alt)
  moreover have "max lo ?o \<le> hi" using assms(3,5) by simp
  moreover have "span ?e (max lo ?o) hi = span (\<lambda>i. uEntries ?u ! unat (i - ?o)) (max lo ?o) hi"
    using calculation(2) by (intro span_cong) (auto simp: rl_entry_def)
  ultimately show ?thesis by (simp add: unstable_slice_eq)
qed

lemma log_slice_eq:
  assumes "inv s" "lStorage rl = Some (view s)" "log_ok (first s) (last s) rl"
    and range: "rl_first (first s) rl \<le> lo" "lo \<le> hi" "hi \<le> rl_last rl + 1"
  shows "log_slice rl lo hi maxSize = Some (span (rl_entry (entry_at s) rl) lo hi, None)"
proof (cases "lo = hi")
  case True
  then show ?thesis
    using range by (auto simp: log_slice_def log_mustCheckOutOfBounds_def log_firstIndex [OF assms(1-3)]
        log_lastIndex [OF assms(1-3)] span_def Let_def)
next
  case False
  let ?u = "lUnstable rl" and ?e = "rl_entry (entry_at s) rl"
  let ?o = "uOffset ?u"
  have lt: "lo < hi" using range(2) False by simp
  have check: "log_mustCheckOutOfBounds rl lo hi = Some None"
    using range by (auto simp: log_mustCheckOutOfBounds_def log_firstIndex [OF assms(1-3)]
        log_lastIndex [OF assms(1-3)] Let_def)
  have tail: "unstable_slice ?u (max lo ?o) hi = Some (span ?e (max lo ?o) hi)" if "?o < hi"
    using slice_unstable_part [OF assms(1,3) range(2,3) that] .
  show ?thesis
  proof (cases "lo < ?o")
    case True
    have none: "uSnapshot ?u = None"
      using True range(1) by (auto simp: rl_first_def split: option.splits)
    then have stored: "stEntries (view s) lo (min hi ?o) maxSize = Some (span (entry_at s) lo (min hi ?o), None)"
      unfolding span_def using assms(3) range(1) True lt
      by (intro entries_stored [OF assms(1)]) (auto simp: log_ok_def rl_first_def min_le_iff_disj)
    have e: "span (entry_at s) lo (min hi ?o) = span ?e lo (min hi ?o)"
      using range(2) True by (intro span_cong) (auto simp: rl_entry_def)
    have "unat (min hi ?o - lo) \<noteq> 0"
      using lt True by (auto simp: unat_eq_zero min_def)
    moreover have "max lo ?o = ?o" using True by simp
    moreover have "span ?e lo ?o @ span ?e ?o hi = span ?e lo hi" if "?o < hi"
      using True that by (intro span_append) auto
    ultimately show ?thesis
      using True False tail stored [unfolded e]
      by (cases "?o < hi") (auto simp: log_slice_def check Let_def assms(2) len64_def limitSize_def not_less)
  next
    case ge: False
    then show ?thesis
      using False tail lt
      by (auto simp: log_slice_def check Let_def len64_def limitSize_def max_def not_less)
  qed
qed

lemma log_entry_index:
  assumes "inv s" "log_ok (first s) (last s) rl" "rl_first (first s) rl \<le> i" "i \<le> rl_last rl"
  shows "eIndex (rl_entry (entry_at s) rl i) = i"
proof -
  have ne: "first s \<noteq> 0" "last s \<noteq> - 1" using index_bounds [OF assms(1)] by auto
  note b = log_bounds [OF assms(2) ne]
  let ?o = "uOffset (lUnstable rl)"
  show ?thesis
  proof (cases "?o \<le> i")
    case True
    have "unat (i - ?o) < length (uEntries (lUnstable rl))"
      using True assms(4) b(3) by (simp add: unat_sub word_le_nat_alt)
    moreover have "contiguous ?o (uEntries (lUnstable rl))"
      using assms(2) by (simp add: log_ok_def log_from_def)
    ultimately show ?thesis
      using True contiguous_nth [of ?o] by (simp add: rl_entry_def)
  next
    case False
    then have none: "uSnapshot (lUnstable rl) = None"
      using assms(3) by (auto simp: rl_first_def split: option.splits)
    then have "i < last s + 1"
      using False assms(2) by (auto simp: log_ok_def not_le intro: order_less_le_trans)
    then have "i \<le> last s"
      using unat_Suc64 [OF ne(2)] by (simp add: word_nat)
    then show ?thesis
      using False none assms(3) entry_index [OF assms(1)] by (simp add: rl_entry_def rl_first_def)
  qed
qed

lemma log_match:
  assumes "inv s" "lStorage rl = Some (view s)" "log_ok (first s) (last s) rl"
  shows "matchTerm rl i t = Some (rl_term0 (first s) (entry_at s) rl i = t)"
  by (simp add: matchTerm_def log_term_eq [OF assms])

lemma log_findConflict:
  assumes "inv s" "lStorage rl = Some (view s)" "log_ok (first s) (last s) rl" "lLogger rl \<noteq> None"
  shows "findConflict rl ents = Some (first_conflict (rl_term0 (first s) (entry_at s) rl) ents)"
  using assms(4)
  by (induction ents) (auto simp: log_match [OF assms(1-3)] log_lastIndex [OF assms(1-3)]
      log_term_eq [OF assms(1-3)] zeroTermOnErrCompacted_def)

lemma log_commitTo:
  assumes "inv s" "lStorage rl = Some (view s)" "log_ok (first s) (last s) rl"
  shows "commitTo rl i =
    (let m = max (lCommitted rl) i
     in if rl_last rl < m \<and> lCommitted rl < m then None else Some (rl\<lparr>lCommitted := m\<rparr>))"
  by (auto simp: commitTo_def log_lastIndex [OF assms] max_def)

lemma log_conflictLoop:
  assumes "inv s" "lStorage rl = Some (view s)" "log_ok (first s) (last s) rl"
    and zero: "rl_term0 (first s) (entry_at s) rl 0 \<le> t"
  shows "returns (conflictByTermLoop rl t i) (\<lambda>r. r \<le> i \<and>
    rl_term0 (first s) (entry_at s) rl r \<le> t \<and> (\<forall>j. r < j \<and> j \<le> i \<longrightarrow> t < rl_term0 (first s) (entry_at s) rl j))"
proof (induction "unat i" arbitrary: i)
  case 0
  then have "i = 0" by (simp add: unat_eq_zero)
  with zero show ?case
    by (auto simp: conflictByTermLoop.simps [of rl t 0] log_term_eq [OF assms(1-3)] returns_Some)
next
  case (Suc n)
  let ?tm = "rl_term0 (first s) (entry_at s) rl"
  show ?case
  proof (cases "?tm i \<le> t")
    case True
    then show ?thesis
      by (auto simp: conflictByTermLoop.simps [of rl t i] log_term_eq [OF assms(1-3)] returns_Some)
  next
    case False
    have nz: "i \<noteq> 0" using Suc.hyps(2) by auto
    then have "n = unat (i - 1)" using Suc.hyps(2) by (simp add: unat_minus_one)
    then have "returns (conflictByTermLoop rl t (i - 1)) (\<lambda>r. r \<le> i - 1 \<and> ?tm r \<le> t \<and>
        (\<forall>j. r < j \<and> j \<le> i - 1 \<longrightarrow> t < ?tm j))"
      by (rule Suc.hyps(1))
    moreover have "conflictByTermLoop rl t i = conflictByTermLoop rl t (i - 1)"
      using False by (simp add: conflictByTermLoop.simps [of rl t i] log_term_eq [OF assms(1-3)])
    moreover have "r \<le> i" if "r \<le> i - 1" for r
      using that nz by (simp add: le_minus_one_iff64)
    moreover have "t < ?tm j" if "j \<le> i" "j \<le> i - 1 \<Longrightarrow> t < ?tm j" for j
      using that False nz by (cases "j = i") (auto simp: le_minus_one_iff64)
    ultimately show ?thesis by (auto elim!: returns_mono)
  qed
qed

end

subsection \<open>The log over a memory storage\<close>

definition ms_log :: "MemoryStorage \<Rightarrow> raftLog \<Rightarrow> bool" where
  "ms_log ms rl \<longleftrightarrow>
     ms_ok ms \<and> lStorage rl = Some (MemoryStorage_Storage ms) \<and> log_ok (ms_first ms) (ms_last ms) rl"

definition lg_first :: "MemoryStorage \<Rightarrow> raftLog \<Rightarrow> uint64" where
  "lg_first ms rl = rl_first (ms_first ms) rl"

definition lg_entry :: "MemoryStorage \<Rightarrow> raftLog \<Rightarrow> uint64 \<Rightarrow> Entry" where
  "lg_entry ms rl = rl_entry (ms_entry ms) rl"

definition lg_term :: "MemoryStorage \<Rightarrow> raftLog \<Rightarrow> uint64 \<Rightarrow> uint64" where
  "lg_term ms rl = rl_term0 (ms_first ms) (ms_entry ms) rl"

lemma ms_logD:
  assumes "ms_log ms rl"
  shows "ms_ok ms" "lStorage rl = Some (MemoryStorage_Storage ms)" "log_ok (ms_first ms) (ms_last ms) rl"
  using assms by (auto simp: ms_log_def)

lemma ms_log_reads:
  assumes "ms_log ms rl"
  shows "firstIndex rl = Some (lg_first ms rl)" "lastIndex rl = Some (rl_last rl)"
    "log_term rl i = Some (lg_term ms rl i, None)" "matchTerm rl i t = Some (lg_term ms rl i = t)"
    "lastTerm rl = Some (lg_term ms rl (rl_last rl))"
    "commitTo rl i = (let m = max (lCommitted rl) i
       in if rl_last rl < m \<and> lCommitted rl < m then None else Some (rl\<lparr>lCommitted := m\<rparr>))"
  unfolding lastTerm_def lg_term_def lg_first_def
  by (simp_all add: memory.log_firstIndex [OF ms_logD [OF assms]] memory.log_lastIndex [OF ms_logD [OF assms]]
      memory.log_term_eq [OF ms_logD [OF assms]] memory.log_match [OF ms_logD [OF assms]]
      memory.log_commitTo [OF ms_logD [OF assms]])

lemma ms_log_commit [simp]: "ms_log ms (rl\<lparr>lCommitted := c\<rparr>) = ms_log ms rl"
  by (auto simp: ms_log_def log_ok_def split: option.splits)

lemma rl_last_commit [simp]: "rl_last (rl\<lparr>lCommitted := c\<rparr>) = rl_last rl"
  by (simp add: rl_last_def)

lemma ms_log_newLog:
  assumes "ms_ok ms"
  shows "\<exists>rl. newLog (Some (MemoryStorage_Storage ms)) lg = Some rl \<and> ms_log ms rl \<and> rl_last rl = ms_last ms \<and>
    lg_first ms rl = ms_first ms \<and> lCommitted rl = ms_offset ms \<and> lApplied rl = ms_offset ms"
proof -
  have "unat (ms_first ms) \<le> unat (ms_last ms + 1)" "unat (ms_last ms + 1) < 2 ^ 64"
    using ms_unat [OF assms] unat_less64 [of "ms_last ms + 1"] by (auto simp: Suc_le_eq)
  then show ?thesis
    using assms by (simp add: newLog_def newLogWithSize_def memory.first_index memory.last_index ms_log_def
        log_ok_def log_from_def rl_last_def lg_first_def rl_first_def ms_first_def word_le_nat_alt)
qed

text \<open>
  C11: reading any range inside the log returns exactly the entries of that range, in order and
  without panicking, whether they are stored, unstable or on both sides of the boundary, and
  \<^verbatim>\<open>mustCheckOutOfBounds\<close> answers \<^verbatim>\<open>ErrCompacted\<close> below the first index.
\<close>

theorem raftLog_slice_complete:
  assumes "ms_log ms rl" "lo \<le> hi" "hi \<le> rl_last rl + 1"
  shows "log_slice rl lo hi maxSize =
    Some (if lo < lg_first ms rl then ([], Some ErrCompacted) else (span (lg_entry ms rl) lo hi, None))"
proof (cases "lo < lg_first ms rl")
  case True
  then show ?thesis
    using assms by (simp add: log_slice_def log_mustCheckOutOfBounds_def ms_log_reads leD)
next
  case False
  then show ?thesis
    using memory.log_slice_eq [OF ms_logD [OF assms(1)] _ assms(2,3), of maxSize]
    by (simp add: lg_first_def lg_entry_def)
qed

text \<open>A log with two stored entries of term 1 and two unstable ones of terms 2 and 3.\<close>

definition rl_sample :: raftLog where
  "rl_sample = \<lparr>lStorage = Some (MemoryStorage_Storage ms_sample),
     lUnstable = \<lparr>uSnapshot = None, uEntries = [entry_of 2 3, entry_of 3 4], uSpare = [], uOffset = 3,
                 uLogger = Some ()\<rparr>,
     lCommitted = 1, lApplied = 0, lLogger = Some (), lMaxNextEntsSize = noLimit\<rparr>"

lemma rl_sample_facts:
  "ms_log ms_sample rl_sample" "rl_last rl_sample = 4" "lg_first ms_sample rl_sample = 1"
  "lCommitted rl_sample = 1" "lLogger rl_sample = Some ()"
  by (simp_all add: ms_log_def ms_sample_facts log_ok_def rl_sample_def log_from_def entry_of_def rl_last_def
      lg_first_def rl_first_def len64_def)

theorem raftLog_slice_complete_witness:
  "log_slice rl_sample 2 5 0 = Some ([entry_of 1 2, entry_of 2 3, entry_of 3 4], None)"
proof -
  have "span (lg_entry ms_sample rl_sample) 2 5 = [entry_of 1 2, entry_of 2 3, entry_of 3 4]"
    by (simp add: span_def lg_entry_def rl_entry_def ms_entry_def ms_sample_facts rl_sample_def upt_rec)
      (simp add: ms_sample_def)
  then show ?thesis
    using raftLog_slice_complete [OF rl_sample_facts(1), of 2 5 0] by (simp add: rl_sample_facts)
qed

subsection \<open>Committing, matching and appending\<close>

text \<open>
  C12: the leader's commit rule. \<^verbatim>\<open>maybeCommit\<close> never panics on an index of a well-formed log that
  is not past its end; it moves the commit index to \<open>i\<close> exactly when \<open>i\<close> is beyond the commit index
  and the entry there has the given term, and otherwise changes nothing. The commit index never
  goes back and stays inside the log.
\<close>

theorem raftLog_maybeCommit_rule:
  assumes "ms_log ms rl" "i \<le> rl_last rl"
  shows "log_maybeCommit rl i t =
      Some (let ok = lCommitted rl < i \<and> lg_term ms rl i = t
            in (if ok then rl\<lparr>lCommitted := i\<rparr> else rl, ok))"
  using assms(2)
  by (auto simp: log_maybeCommit_def ms_log_reads [OF assms(1)] zeroTermOnErrCompacted_def max_def Let_def)

theorem raftLog_maybeCommit_rule_witness:
  "\<exists>ms rl. lCommitted rl = 1 \<and> log_maybeCommit rl 4 3 = Some (rl\<lparr>lCommitted := 4\<rparr>, True) \<and>
     log_maybeCommit rl 4 2 = Some (rl, False) \<and> ms_log ms rl"
proof -
  have "lg_term ms_sample rl_sample 4 = 3"
    by (simp add: lg_term_def rl_term0_def rl_sample_facts rl_sample_facts(3) [unfolded lg_first_def])
      (simp add: rl_term_def rl_entry_def rl_sample_def entry_of_def)
  then show ?thesis
    using raftLog_maybeCommit_rule [OF rl_sample_facts(1), of 4] rl_sample_facts
    by (intro exI [of _ ms_sample] exI [of _ rl_sample]) (simp add: Let_def)
qed

lemma first_conflict_pos:
  assumes "contiguous i es" "first_conflict tm es \<noteq> 0"
  shows "\<exists>k < length es. first_conflict tm es = i + of_nat k"
  using assms
proof (induction es arbitrary: i)
  case (Cons e es)
  show ?case
  proof (cases "tm (eIndex e) = eTerm e")
    case True
    with Cons obtain k where "k < length es" "first_conflict tm es = i + 1 + of_nat k" by fastforce
    with True show ?thesis by (intro exI [of _ "Suc k"]) simp
  qed (use Cons.prems in \<open>auto intro!: exI [of _ 0]\<close>)
qed simp

text \<open>
  C10: \<^verbatim>\<open>maybeAppend\<close> accepts a batch exactly when the log has an entry of term \<open>logTerm\<close> at \<open>index\<close>.
  If it accepts, it returns the index of the last entry of the batch and raises the commit index to
  \<open>min committed lastNewi\<close>. It panics rather than overwrite a committed entry (a conflict at or below the
  commit index) or commit past the end of the log. Nothing else of the log changes: the entries of the
  batch are not stored, because \<^verbatim>\<open>append\<close> drops them.
\<close>

theorem raftLog_maybeAppend_effect:
  assumes "ms_log ms rl" "lLogger rl \<noteq> None" "contiguous (index + 1) ents" "unat index + length ents < 2 ^ 64"
  shows "maybeAppend rl index logTerm committed ents =
    (let lastNewi = index + len64 ents; ci = first_conflict (lg_term ms rl) ents;
         tocommit = max (lCommitted rl) (min committed lastNewi)
     in if lg_term ms rl index \<noteq> logTerm then Some (rl, 0, False)
        else if ci \<noteq> 0 \<and> ci \<le> lCommitted rl then None
        else if rl_last rl < tocommit \<and> lCommitted rl < tocommit then None
        else Some (rl\<lparr>lCommitted := tocommit\<rparr>, lastNewi, True))"
proof -
  let ?ci = "first_conflict (lg_term ms rl) ents"
  have find: "findConflict rl ents = Some ?ci"
    using memory.log_findConflict [OF ms_logD [OF assms(1)] assms(2)] by (simp add: lg_term_def)
  have drop: "\<exists>es. go_drop64 ents (?ci - (index + 1)) = Some es" if nz: "?ci \<noteq> 0"
  proof -
    obtain k where k: "k < length ents" "?ci = index + 1 + of_nat k"
      using first_conflict_pos [OF assms(3) nz] by blast
    then have "unat (?ci - (index + 1)) = k"
      using assms(4) by (simp add: unat_of_nat64)
    with k(1) show ?thesis by (simp add: go_drop64_def)
  qed
  show ?thesis
  proof (cases "?ci = 0")
    case True
    then show ?thesis
      by (auto simp: maybeAppend_def ms_log_reads [OF assms(1)] find Let_def)
  next
    case False
    then obtain es where "go_drop64 ents (?ci - (index + 1)) = Some es" using drop by blast
    with False show ?thesis
      by (auto simp: maybeAppend_def ms_log_reads [OF assms(1)] find Let_def log_append_def simp del: max_less_iff_conj less_max_iff_disj)
  qed
qed

text \<open>The terms of the sample log.\<close>

lemma rl_sample_terms:
  "lg_term ms_sample rl_sample 0 = 0" "lg_term ms_sample rl_sample 1 = 1" "lg_term ms_sample rl_sample 2 = 1"
  "lg_term ms_sample rl_sample 3 = 2" "lg_term ms_sample rl_sample 4 = 3" "lg_term ms_sample rl_sample 5 = 0"
  by (simp_all add: lg_term_def rl_term0_def rl_sample_facts rl_sample_facts(3) [unfolded lg_first_def])
    (simp_all add: rl_term_def rl_entry_def rl_sample_def ms_entry_def ms_sample_facts word_nat,
     simp_all add: entry_of_def ms_sample_def)

theorem raftLog_maybeAppend_effect_witness:
  "maybeAppend rl_sample 4 3 4 [entry_of 3 5] = Some (rl_sample\<lparr>lCommitted := 4\<rparr>, 5, True) \<and>
   maybeAppend rl_sample 3 3 4 [entry_of 3 4] = Some (rl_sample, 0, False) \<and>
   maybeAppend rl_sample 0 0 0 [entry_of 7 1] = None"
  using raftLog_maybeAppend_effect [OF rl_sample_facts(1), of 4 "[entry_of 3 5]" 3 4]
    raftLog_maybeAppend_effect [OF rl_sample_facts(1), of 3 "[entry_of 3 4]" 3 4]
    raftLog_maybeAppend_effect [OF rl_sample_facts(1), of 0 "[entry_of 7 1]" 0 0]
  by (simp add: rl_sample_facts rl_sample_terms entry_of_def len64_def word_nat)

text \<open>
  C13: \<^verbatim>\<open>findConflictByTerm\<close> always returns when the term at index 0 is not above the given one (a log
  that was never compacted has term 0 there). For an index inside the log the result is the largest index
  up to it whose term is at most the given one; an index past the end is returned as it is.
\<close>

theorem raftLog_findConflictByTerm_result:
  assumes "ms_log ms rl" "lLogger rl \<noteq> None" "lg_term ms rl 0 \<le> t"
  shows "\<exists>r. findConflictByTerm rl i t = Some r \<and> r \<le> i \<and>
    (if rl_last rl < i then r = i
     else lg_term ms rl r \<le> t \<and> (\<forall>j. r < j \<and> j \<le> i \<longrightarrow> t < lg_term ms rl j))"
  using memory.log_conflictLoop [OF ms_logD [OF assms(1)], of t i] assms(2,3)
  by (auto simp: findConflictByTerm_def ms_log_reads [OF assms(1)] lg_term_def returns_def)

theorem raftLog_findConflictByTerm_result_witness:
  "\<exists>r. findConflictByTerm rl_sample 4 1 = Some r \<and> r \<le> 4 \<and> lg_term ms_sample rl_sample r \<le> 1 \<and>
     (\<forall>j. r < j \<and> j \<le> 4 \<longrightarrow> 1 < lg_term ms_sample rl_sample j)"
  using raftLog_findConflictByTerm_result [OF rl_sample_facts(1), of 1 4]
  by (simp add: rl_sample_facts rl_sample_terms)

text \<open>
  The election restriction. A candidate's last term and index are accepted as up to date exactly
  when the pair is not lexicographically below the last term and index of this log, so of two logs
  at least one is up to date for the other.
\<close>

theorem raftLog_isUpToDate_total:
  assumes "ms_log ms rl" "ms_log ms' rl'"
  shows "isUpToDate rl i t = Some (lg_term ms rl (rl_last rl) < t \<or> (lg_term ms rl (rl_last rl) = t \<and> rl_last rl \<le> i))
    \<and> (isUpToDate rl (rl_last rl') (lg_term ms' rl' (rl_last rl')) = Some True \<or>
       isUpToDate rl' (rl_last rl) (lg_term ms rl (rl_last rl)) = Some True)"
  by (auto simp: isUpToDate_def ms_log_reads [OF assms(1)] ms_log_reads [OF assms(2)])

theorem raftLog_isUpToDate_total_witness:
  "isUpToDate rl_sample 9 2 = Some False \<and> isUpToDate rl_sample 4 3 = Some True"
  using raftLog_isUpToDate_total [OF rl_sample_facts(1) rl_sample_facts(1), of 9 2]
    raftLog_isUpToDate_total [OF rl_sample_facts(1) rl_sample_facts(1), of 4 3]
  by (simp add: rl_sample_facts rl_sample_terms)

subsection \<open>Snapshots and persisting\<close>

text \<open>
  Restoring a snapshot makes it the whole log: the log starts right after the snapshot, ends at it,
  has the snapshot's term there, is committed up to it and keeps its invariant.
\<close>

theorem raftLog_restore_installs:
  assumes "ms_log ms rl" "lLogger rl \<noteq> None" "sMetadata s = Some md" "smIndex md \<noteq> - 1"
  shows "\<exists>rl'. log_restore rl s = Some rl' \<and> ms_log ms rl' \<and> lCommitted rl' = smIndex md \<and>
    firstIndex rl' = Some (smIndex md + 1) \<and> lastIndex rl' = Some (smIndex md) \<and>
    log_term rl' (smIndex md) = Some (smTerm md, None) \<and> log_snapshot rl' = Some (s, None)"
proof -
  let ?u = "(lUnstable rl)\<lparr>uOffset := smIndex md + 1, uEntries := [], uSpare := [], uSnapshot := Some s\<rparr>"
  let ?rl = "rl\<lparr>lCommitted := smIndex md, lUnstable := ?u\<rparr>"
  have call: "log_restore rl s = Some ?rl"
    using assms by (auto simp: log_restore_def unstable_restore_def)
  have "unat (smIndex md + 1) < 2 ^ 64" by (rule unat_less64)
  then have ok: "ms_log ms ?rl"
    using assms by (simp add: ms_log_def log_ok_def log_from_def)
  have last: "rl_last ?rl = smIndex md" by (simp add: rl_last_def)
  have fst: "lg_first ms ?rl = smIndex md + 1" by (simp add: lg_first_def rl_first_def)
  have "lg_term ms ?rl (smIndex md) = smTerm md"
    using assms(3,4)
    by (simp add: lg_term_def rl_term0_def last rl_term_def fst [unfolded lg_first_def] max_plus_one64)
  then show ?thesis
    using ok call last fst ms_log_reads [OF ok] by (intro exI [of _ ?rl]) (simp add: log_snapshot_def)
qed

definition snap_sample :: Snapshot where
  "snap_sample = \<lparr>sData = [], sMetadata = Some \<lparr>smIndex = 9, smTerm = 4, smConfState = None\<rparr>\<rparr>"

theorem raftLog_restore_installs_witness:
  "\<exists>rl'. log_restore rl_sample snap_sample = Some rl' \<and> ms_log ms_sample rl' \<and>
     firstIndex rl' = Some 10 \<and> lastIndex rl' = Some 9 \<and> log_term rl' 9 = Some (4, None)"
  using raftLog_restore_installs [OF rl_sample_facts(1), of snap_sample
      "\<lparr>smIndex = 9, smTerm = 4, smConfState = None\<rparr>"]
  by (auto simp: rl_sample_facts snap_sample_def)

text \<open>The unstable tail of a log over a memory storage, in natural numbers.\<close>

lemma unstable_tail:
  assumes "ms_log ms rl" "uSnapshot (lUnstable rl) = None" "uEntries (lUnstable rl) \<noteq> []"
  shows "log_from (uOffset (lUnstable rl)) (uEntries (lUnstable rl))"
    "ms_first ms \<le> uOffset (lUnstable rl)" "uOffset (lUnstable rl) \<le> ms_last ms + 1"
    "unat (rl_last rl) = unat (uOffset (lUnstable rl)) + (length (uEntries (lUnstable rl)) - 1)"
    "unat (rl_last rl + 1) = unat (rl_last rl) + 1"
proof -
  note ok = ms_logD [OF assms(1)]
  show "log_from (uOffset (lUnstable rl)) (uEntries (lUnstable rl))"
    "ms_first ms \<le> uOffset (lUnstable rl)" "uOffset (lUnstable rl) \<le> ms_last ms + 1"
    using ok(3) assms by (auto simp: log_ok_def)
  have "ms_first ms \<noteq> 0" "ms_last ms \<noteq> - 1" using memory.index_bounds [OF ok(1)] by auto
  note b = log_bounds [OF ok(3) this]
  show "unat (rl_last rl) = unat (uOffset (lUnstable rl)) + (length (uEntries (lUnstable rl)) - 1)"
    using b(3) assms(3) by (cases "uEntries (lUnstable rl)"; simp)
  show "unat (rl_last rl + 1) = unat (rl_last rl) + 1"
    by (rule b(4))
qed

text \<open>\<^verbatim>\<open>stableTo\<close> at the last entry empties the unstable part.\<close>

lemma stableTo_last:
  assumes "ms_log ms rl" "uSnapshot (lUnstable rl) = None" "uEntries (lUnstable rl) \<noteq> []"
  shows "stableTo (lUnstable rl) (rl_last rl) (lg_term ms rl (rl_last rl)) =
    Some ((lUnstable rl)\<lparr>uEntries := [], uSpare := [], uOffset := rl_last rl + 1\<rparr>)"
proof -
  let ?o = "uOffset (lUnstable rl)" and ?es = "uEntries (lUnstable rl)"
  note t = unstable_tail [OF assms] and ok = ms_logD [OF assms(1)]
  have pos: "?o \<le> rl_last rl"
    unfolding word_le_nat_alt t(4) by (rule le_add1)
  have idx: "unat (rl_last rl - ?o) = length ?es - 1"
    unfolding unat_sub [OF pos] t(4) by (rule diff_add_inverse)
  have len: "0 < length ?es" using assms(3) by simp
  have "ms_first ms \<noteq> 0" "ms_last ms \<noteq> - 1" using memory.index_bounds [OF ok(1)] by auto
  note b = log_bounds [OF ok(3) this]
  have "unat (rl_first (ms_first ms) rl - 1) = unat (rl_first (ms_first ms) rl) - 1"
    using b(2) by (intro unat_minus_one) auto
  then have "\<not> rl_last rl < rl_first (ms_first ms) rl - 1"
    using b(1) pos unfolding word_nat by linarith
  then have trm: "lg_term ms rl (rl_last rl) = eTerm (?es ! (length ?es - 1))"
    using pos idx assms by (simp add: lg_term_def rl_term0_def rl_term_def rl_entry_def)
  have "?o \<le> rl_last rl + 1"
    unfolding word_le_nat_alt t(5) t(4) by simp
  then have "unat (rl_last rl + 1 - ?o) = length ?es"
    using t(4,5) len by (simp add: unat_sub)
  then show ?thesis
    using pos idx len assms
    by (simp add: stableTo_def maybeTerm_def maybeLastIndex_def go_nth64_def go_drop64_def trm
        shrinkEntriesArray_def leD flip: rl_last_def)
qed

text \<open>
  C8: persisting the unstable tail loses nothing. Appending the unstable entries to the memory storage and
  then telling \<^verbatim>\<open>unstable\<close> that they are stable succeeds, leaves no unstable entry, and the log that reads
  through the new storage has the same first index, the same last index and the same entries.
\<close>

theorem raftLog_persist_preserves:
  assumes "ms_log ms rl" and tail: "uSnapshot (lUnstable rl) = None" "uEntries (lUnstable rl) \<noteq> []"
    and room: "length (msEnts ms) + length (uEntries (lUnstable rl)) < 2 ^ 63"
  shows "\<exists>ms' u'. MemoryStorage_Append ms (unstableEntries rl) = Some (ms', None) \<and>
    stableTo (lUnstable rl) (rl_last rl) (lg_term ms rl (rl_last rl)) = Some u' \<and>
    (let rl' = rl\<lparr>lStorage := Some (MemoryStorage_Storage ms'), lUnstable := u'\<rparr>
     in ms_log ms' rl' \<and> unstableEntries rl' = [] \<and> rl_last rl' = rl_last rl \<and>
        lg_first ms' rl' = lg_first ms rl \<and>
        span (lg_entry ms' rl') (lg_first ms rl) (rl_last rl + 1) =
        span (lg_entry ms rl) (lg_first ms rl) (rl_last rl + 1))"
proof -
  let ?u = "lUnstable rl"
  let ?o = "uOffset ?u" and ?es = "uEntries ?u"
  note ok = ms_logD [OF assms(1)] and t = unstable_tail [OF assms(1) tail] and stable = stableTo_last [OF assms(1) tail]
  have hd: "eIndex (hd ?es) = ?o"
    using t(1) tail(2) by (cases ?es) (auto simp: log_from_def)
  have e: "?o + len64 ?es = rl_last rl + 1" by (simp add: rl_last_def)
  have span: "ms_first ms < ?o + len64 ?es"
    unfolding e word_less_nat_alt t(5) t(4) using t(2) unfolding word_le_nat_alt by linarith
  obtain ms' where ms': "MemoryStorage_Append ms ?es = Some (ms', None)" "ms_ok ms'" "ms_offset ms' = ms_offset ms"
    "ms_last ms' = rl_last rl"
    and old: "\<And>j. ms_offset ms \<le> j \<Longrightarrow> j < ?o \<Longrightarrow> ms_entry ms' j = ms_entry ms j"
    and fresh: "\<And>j. ?o \<le> j \<Longrightarrow> j < rl_last rl + 1 \<Longrightarrow> ms_entry ms' j = ?es ! unat (j - ?o)"
    using Append_tail [OF ok(1) tail(2) t(1) hd span t(3) room] t(2) by (auto simp: e max_def)
  let ?rl = "rl\<lparr>lStorage := Some (MemoryStorage_Storage ms'), lUnstable := ?u\<lparr>uEntries := [], uSpare := [], uOffset := rl_last rl + 1\<rparr>\<rparr>"
  have first: "ms_first ms' = ms_first ms" using ms'(3) by (simp add: ms_first_def)
  have le: "ms_first ms \<le> rl_last rl + 1"
    using span e by simp
  then have ok': "ms_log ms' ?rl"
    using ms'(2,4) tail(1) first unat_less64 [of "rl_last rl + 1"]
    by (simp add: ms_log_def log_ok_def log_from_def)
  have f: "lg_first ms' ?rl = ms_first ms" "lg_first ms rl = ms_first ms"
    using tail(1) first by (simp_all add: lg_first_def rl_first_def)
  have "span (lg_entry ms' ?rl) (ms_first ms) (rl_last rl + 1) = span (lg_entry ms rl) (ms_first ms) (rl_last rl + 1)"
  proof (rule span_cong [OF le])
    fix i assume i: "ms_first ms \<le> i" "i < rl_last rl + 1"
    have "ms_offset ms \<le> i"
      using i(1) ms_unat(3) [OF ok(1)] by (simp add: word_le_nat_alt)
    then show "lg_entry ms' ?rl i = lg_entry ms rl i"
      using old [of i] fresh [of i] i(2) by (auto simp: lg_entry_def rl_entry_def not_le leD)
  qed
  moreover have "rl_last ?rl = rl_last rl" by (simp add: rl_last_def [of ?rl])
  ultimately show ?thesis
    using ms'(1) stable ok' f tail by (simp add: Let_def unstableEntries_def)
qed

theorem raftLog_persist_preserves_witness:
  "\<exists>ms' u'. MemoryStorage_Append ms_sample [entry_of 2 3, entry_of 3 4] = Some (ms', None) \<and>
     stableTo (lUnstable rl_sample) 4 3 = Some u' \<and> uEntries u' = []"
proof -
  have "unstableEntries rl_sample = [entry_of 2 3, entry_of 3 4]" "uSnapshot (lUnstable rl_sample) = None"
    "uEntries (lUnstable rl_sample) = [entry_of 2 3, entry_of 3 4]"
    by (simp_all add: rl_sample_def unstableEntries_def)
  then show ?thesis
    using raftLog_persist_preserves [OF rl_sample_facts(1)]
    by (auto simp: rl_sample_facts rl_sample_terms ms_sample_facts Let_def unstableEntries_def split: if_splits)
qed

end
