(* ===== verification/Read_Only.thy ===== *)
theory Read_Only
  imports Raftpb "HOL-Library.Sublist"
begin

section \<open>Pending read requests\<close>

text \<open>
  \<^verbatim>\<open>src/raft/read_only.go\<close>: the leader's queue of read-index requests. A request is known by the data of
  its first entry; \<^verbatim>\<open>pendingReadIndex\<close> maps that key to the request and the acknowledgements it got,
  \<^verbatim>\<open>readIndexQueue\<close> keeps the keys in the order of arrival. Go strings made from byte slices are byte
  lists. The invariant \<open>ro_ok\<close> says that queue and map hold the same keys; under it no operation
  panics, and \<^verbatim>\<open>advance\<close> answers exactly the requests up to the confirmed one.
\<close>

(* raft/raft.go 41-52 ReadOnlyOption *)
datatype ReadOnlyOption = ReadOnlySafe | ReadOnlyLeaseBased

(* raft/read_only.go 5-8 ReadState *)
record ReadState =
  rdIndex :: uint64
  rdRequestCtx :: bytes

(* raft/read_only.go 9-16 readIndexStatus *)
record readIndexStatus =
  rsReq :: RaftMessage
  rsIndex :: uint64
  rsAcks :: "(uint64, bool) gomap"

(* raft/read_only.go 17-21 readOnly *)
record readOnly =
  roOption :: ReadOnlyOption
  roPending :: "(bytes, readIndexStatus) gomap"
  roQueue :: "bytes list"

(* raft/read_only.go 23-28 newReadOnly *)
definition newReadOnly :: "ReadOnlyOption \<Rightarrow> readOnly" where
  "newReadOnly opt = \<lparr>roOption = opt, roPending = [], roQueue = []\<rparr>"

text \<open>The key of a request; a message without entries panics.\<close>

definition reqKey :: "RaftMessage \<Rightarrow> bytes option" where
  "reqKey m = do { e \<leftarrow> go_nth (mEntries m) 0; Some (eData e) }"

(* raft/read_only.go 33-40 readOnly.addRequest *)
definition addRequest :: "readOnly \<Rightarrow> uint64 \<Rightarrow> RaftMessage \<Rightarrow> readOnly option" where
  "addRequest ro index m = do {
     s \<leftarrow> reqKey m;
     if map_of (roPending ro) s \<noteq> None then Some ro
     else Some (ro\<lparr>roPending := AList.update s \<lparr>rsReq = m, rsIndex = index, rsAcks = []\<rparr> (roPending ro),
                   roQueue := roQueue ro @ [s]\<rparr>)
   }"

text \<open>The result is the acknowledgement map of the request, nil when the request is unknown.\<close>

(* raft/read_only.go 42-49 readOnly.recvAck *)
definition recvAck :: "readOnly \<Rightarrow> uint64 \<Rightarrow> bytes \<Rightarrow> readOnly \<times> (uint64, bool) gomap" where
  "recvAck ro i context =
     (case map_of (roPending ro) context of
        None \<Rightarrow> (ro, [])
      | Some rs \<Rightarrow>
          (let acks = AList.update i True (rsAcks rs)
           in (ro\<lparr>roPending := AList.update context (rs\<lparr>rsAcks := acks\<rparr>) (roPending ro)\<rparr>, acks)))"

(* raft/read_only.go 52-57 readOnly.lastPendingRequestCtx *)
definition lastPendingRequestCtx :: "readOnly \<Rightarrow> bytes" where
  "lastPendingRequestCtx ro = (if length (roQueue ro) = 0 then [] else roQueue ro ! (length (roQueue ro) - 1))"

(* raft/read_only.go 66-77 readOnly.advance *)
fun advanceLoop ::
    "(bytes, readIndexStatus) gomap \<Rightarrow> bytes \<Rightarrow> bytes list \<Rightarrow> (readIndexStatus list \<times> nat \<times> bool) option" where
  "advanceLoop pending ctx [] = Some ([], 0, False)"
| "advanceLoop pending ctx (okctx # queue) =
     (case map_of pending okctx of
        None \<Rightarrow> None
      | Some rs \<Rightarrow>
          if okctx = ctx then Some ([rs], 1, True)
          else do {
            (rss, i, found) \<leftarrow> advanceLoop pending ctx queue;
            Some (rs # rss, i + 1, found)
          })"

(* raft/read_only.go 80-82 readOnly.advance *)
fun deleteLoop ::
    "readIndexStatus list \<Rightarrow> (bytes, readIndexStatus) gomap \<Rightarrow> (bytes, readIndexStatus) gomap option" where
  "deleteLoop [] pending = Some pending"
| "deleteLoop (rs # rss) pending = do {
     k \<leftarrow> reqKey (rsReq rs);
     deleteLoop rss (AList.delete k pending)
   }"

(* raft/read_only.go 59-86 readOnly.advance *)
definition readOnly_advance :: "readOnly \<Rightarrow> RaftMessage \<Rightarrow> (readOnly \<times> readIndexStatus list) option" where
  "readOnly_advance ro m = do {
     (rss, i, found) \<leftarrow> advanceLoop (roPending ro) (mContext m) (roQueue ro);
     if found then do {
       pending \<leftarrow> deleteLoop rss (roPending ro);
       Some (ro\<lparr>roQueue := drop i (roQueue ro), roPending := pending\<rparr>, rss)
     }
     else Some (ro, [])
   }"

subsection \<open>The invariant\<close>

definition ro_ok :: "readOnly \<Rightarrow> bool" where
  "ro_ok ro \<longleftrightarrow> distinct (roQueue ro) \<and> set (roQueue ro) = dom (map_of (roPending ro)) \<and>
     list_all (\<lambda>(k, rs). reqKey (rsReq rs) = Some k \<and> list_all snd (rsAcks rs)) (roPending ro) \<and> gomap_ok (roPending ro)"

lemma ro_ok_lookup:
  "ro_ok ro \<Longrightarrow> map_of (roPending ro) k = Some rs \<Longrightarrow> reqKey (rsReq rs) = Some k \<and> list_all snd (rsAcks rs)"
  by (auto simp: ro_ok_def list_all_iff dest!: map_of_SomeD)

lemma list_all_update:
  "list_all P m \<Longrightarrow> P (k, v) \<Longrightarrow> list_all P (AList.update k v m)"
  by (induction m) (auto split: if_splits)

lemma newReadOnly_ok: "ro_ok (newReadOnly opt)"
  by (simp add: ro_ok_def newReadOnly_def)

lemma addRequest_ok:
  assumes "ro_ok ro" "reqKey m = Some k"
  shows "\<exists>ro'. addRequest ro i m = Some ro' \<and> ro_ok ro' \<and> roOption ro' = roOption ro \<and>
    (if k \<in> set (roQueue ro) then ro' = ro
     else roQueue ro' = roQueue ro @ [k] \<and>
       map_of (roPending ro') = (map_of (roPending ro))(k \<mapsto> \<lparr>rsReq = m, rsIndex = i, rsAcks = []\<rparr>))"
  using assms
  by (auto simp: addRequest_def ro_ok_def domIff intro!: list_all_update)

lemma recvAck_ok:
  assumes "ro_ok ro"
  shows "ro_ok (fst (recvAck ro i k))" "roQueue (fst (recvAck ro i k)) = roQueue ro"
    "roOption (fst (recvAck ro i k)) = roOption ro"
  using assms ro_ok_lookup [OF assms, of k]
  by (auto simp: recvAck_def ro_ok_def Let_def split: option.split intro!: list_all_update)

text \<open>The requests of a list of keys, and how \<^verbatim>\<open>advance\<close> walks the queue up to the confirmed key.\<close>

lemma advanceLoop_found:
  assumes "set q \<subseteq> dom (map_of pending)" "distinct q" "q = pre @ ctx # post"
  shows "advanceLoop pending ctx q =
    Some (map (\<lambda>k. the (map_of pending k)) (pre @ [ctx]), Suc (length pre), True)"
  using assms by (induction pre arbitrary: q) auto

lemma advanceLoop_absent:
  assumes "set q \<subseteq> dom (map_of pending)" "ctx \<notin> set q"
  shows "\<exists>rss i. advanceLoop pending ctx q = Some (rss, i, False)"
  using assms by (induction q) auto

lemma deleteLoop_eq:
  assumes "list_all2 (\<lambda>rs k. reqKey (rsReq rs) = Some k) rss ks"
  shows "deleteLoop rss pending = Some (fold AList.delete ks pending)"
  using assms by (induction arbitrary: pending rule: list_all2_induct) auto

lemma map_of_fold_delete: "map_of (fold AList.delete ks m) = (map_of m) |` (- set ks)"
  by (induction ks arbitrary: m) (auto simp: restrict_map_def fun_eq_iff)

lemma gomap_ok_fold_delete: "gomap_ok m \<Longrightarrow> gomap_ok (fold AList.delete ks m)"
  by (induction ks arbitrary: m) auto

lemma list_all_delete: "list_all P m \<Longrightarrow> list_all P (AList.delete k m)"
  by (auto simp: AList.delete_eq list_all_iff)

lemma list_all_fold_delete: "list_all P m \<Longrightarrow> list_all P (fold AList.delete ks m)"
  by (induction ks arbitrary: m) (auto simp: list_all_delete)

text \<open>The state after a prefix of the queue has been answered: pending requests and queue still agree.\<close>

lemma ro_ok_suffix:
  assumes ok: "ro_ok ro" and q: "roQueue ro = ks @ post"
  shows "map_of (fold AList.delete ks (roPending ro)) = (map_of (roPending ro)) |` set post"
    and "ro_ok (ro\<lparr>roQueue := post, roPending := fold AList.delete ks (roPending ro)\<rparr>)"
proof -
  have dist: "distinct (roQueue ro)" and dom: "set (roQueue ro) = dom (map_of (roPending ro))"
    using ok by (auto simp: ro_ok_def)
  show rest: "map_of (fold AList.delete ks (roPending ro)) = (map_of (roPending ro)) |` set post"
  proof
    fix k
    have "k \<in> dom (map_of (roPending ro)) \<longleftrightarrow> k \<in> set ks \<or> k \<in> set post"
      unfolding dom [symmetric] q by auto
    moreover have "set ks \<inter> set post = {}" using dist q by auto
    ultimately show "map_of (fold AList.delete ks (roPending ro)) k = (map_of (roPending ro) |` set post) k"
      unfolding map_of_fold_delete by (auto simp: restrict_map_def)
  qed
  have "set post \<subseteq> dom (map_of (roPending ro))" using dom q by auto
  then have "set post = dom (map_of (fold AList.delete ks (roPending ro)))" unfolding rest by auto
  then show "ro_ok (ro\<lparr>roQueue := post, roPending := fold AList.delete ks (roPending ro)\<rparr>)"
    using ok dist q by (simp add: ro_ok_def gomap_ok_fold_delete list_all_fold_delete del: fold_append fold_simps)
qed

lemma ro_ok_keys:
  assumes ok: "ro_ok ro" and "set ks \<subseteq> set (roQueue ro)"
  shows "list_all2 (\<lambda>rs k. reqKey (rsReq rs) = Some k) (map (\<lambda>k. the (map_of (roPending ro) k)) ks) ks"
  unfolding list.rel_map list_all2_same
proof
  fix k assume "k \<in> set ks"
  then have "k \<in> dom (map_of (roPending ro))" using assms by (auto simp: ro_ok_def)
  then show "reqKey (rsReq (the (map_of (roPending ro) k))) = Some k"
    using ro_ok_lookup [OF ok, of k] by auto
qed

text \<open>
  C25: when a quorum confirms the request \<open>ctx\<close>, \<^verbatim>\<open>advance\<close> returns the pending requests up to and including
  it, in the order in which they arrived, and removes exactly these from the queue and the map; the
  invariant is kept. A context that is not queued changes nothing and returns nothing. It never panics.
\<close>

theorem readOnly_advance_answers_prefix:
  assumes ok: "ro_ok ro"
  shows "\<exists>ro' rss. readOnly_advance ro m = Some (ro', rss) \<and> ro_ok ro' \<and>
    (if mContext m \<in> set (roQueue ro)
     then \<exists>pre. roQueue ro = pre @ mContext m # roQueue ro' \<and>
       rss = map (\<lambda>k. the (map_of (roPending ro) k)) (pre @ [mContext m]) \<and>
       map_of (roPending ro') = (map_of (roPending ro)) |` set (roQueue ro')
     else ro' = ro \<and> rss = [])"
proof (cases "mContext m \<in> set (roQueue ro)")
  case True
  let ?ctx = "mContext m"
  obtain pre post where q: "roQueue ro = pre @ ?ctx # post"
    using split_list [OF True] by blast
  have dist: "distinct (roQueue ro)" and dom: "set (roQueue ro) = dom (map_of (roPending ro))"
    using ok by (auto simp: ro_ok_def)
  let ?ks = "pre @ [?ctx]"
  let ?rss = "map (\<lambda>k. the (map_of (roPending ro) k)) ?ks"
  let ?ro = "ro\<lparr>roQueue := post, roPending := fold AList.delete ?ks (roPending ro)\<rparr>"
  have keys: "list_all2 (\<lambda>rs k. reqKey (rsReq rs) = Some k) ?rss ?ks"
    using q by (intro ro_ok_keys [OF ok]) auto
  have "drop (Suc (length pre)) (roQueue ro) = post" by (simp add: q)
  moreover have "advanceLoop (roPending ro) ?ctx (roQueue ro) = Some (?rss, Suc (length pre), True)"
    using dom dist q by (intro advanceLoop_found) auto
  ultimately have call: "readOnly_advance ro m = Some (?ro, ?rss)"
    unfolding readOnly_advance_def by (simp only: Option.bind.simps prod.case if_True deleteLoop_eq [OF keys])
  have "roQueue ro = ?ks @ post" by (simp add: q)
  note ro_ok_suffix [OF ok this]
  then show ?thesis
    using call q True by (intro exI [of _ ?ro] exI [of _ ?rss]) auto
next
  case False
  then obtain rss i where "advanceLoop (roPending ro) (mContext m) (roQueue ro) = Some (rss, i, False)"
    using ok advanceLoop_absent [of "roQueue ro" "roPending ro" "mContext m"] by (auto simp: ro_ok_def)
  with False ok show ?thesis by (simp add: readOnly_advance_def)
qed

text \<open>Two requests are queued; confirming the second answers both.\<close>

definition ro_sample :: readOnly where
  "ro_sample = (let msg = (\<lambda>k. RaftMessage_zero\<lparr>mEntries := [Entry_zero\<lparr>eData := k\<rparr>]\<rparr>)
     in \<lparr>roOption = ReadOnlySafe,
         roPending = [([1], \<lparr>rsReq = msg [1], rsIndex = 5, rsAcks = []\<rparr>), ([2], \<lparr>rsReq = msg [2], rsIndex = 6, rsAcks = []\<rparr>)],
         roQueue = [[1], [2]]\<rparr>)"

theorem readOnly_advance_answers_prefix_witness:
  "\<exists>ro' rss. readOnly_advance ro_sample (RaftMessage_zero\<lparr>mContext := [2]\<rparr>) = Some (ro', rss) \<and>
     ro_ok ro' \<and> (\<exists>pre. [[1], [2]] = pre @ [2] # roQueue ro' \<and> length rss = Suc (length pre))"
proof -
  have "ro_ok ro_sample"
    by (auto simp: ro_ok_def ro_sample_def reqKey_def go_nth_def gomap_ok_def gomap_keys_def)
  from readOnly_advance_answers_prefix [OF this, of "RaftMessage_zero\<lparr>mContext := [2]\<rparr>"] show ?thesis
    by (auto simp: ro_sample_def Let_def)
qed

text \<open>A sequence of requests and acknowledgements.\<close>

fun ro_run :: "(uint64 \<times> RaftMessage + uint64 \<times> bytes) list \<Rightarrow> readOnly \<Rightarrow> readOnly option" where
  "ro_run [] ro = Some ro"
| "ro_run (Inl (i, m) # ops) ro = do { ro \<leftarrow> addRequest ro i m; ro_run ops ro }"
| "ro_run (Inr (i, k) # ops) ro = ro_run ops (fst (recvAck ro i k))"

text \<open>
  \<^verbatim>\<open>addRequest\<close> followed by acknowledgements keeps the queue and the map in step, whatever the order
  of the calls: a key is queued once, in arrival order, and acknowledgements are only ever positive.
\<close>

theorem readOnly_requests_queue_in_order:
  assumes "ro_ok ro" "\<forall>op \<in> set ops. \<forall>i m. op = Inl (i, m) \<longrightarrow> mEntries m \<noteq> []"
  shows "\<exists>ro'. ro_run ops ro = Some ro' \<and> ro_ok ro' \<and> prefix (roQueue ro) (roQueue ro') \<and>
    set (roQueue ro') = set (roQueue ro) \<union> {k. \<exists>i m. Inl (i, m) \<in> set ops \<and> reqKey m = Some k}"
  using assms
proof (induction ops ro rule: ro_run.induct)
  case (2 i m ops ro)
  obtain k where k: "reqKey m = Some k"
    using "2.prems"(2) by (cases "mEntries m") (auto simp: reqKey_def go_nth_def)
  obtain ro1 where ro1: "addRequest ro i m = Some ro1" "ro_ok ro1"
    "if k \<in> set (roQueue ro) then ro1 = ro else roQueue ro1 = roQueue ro @ [k]"
    using addRequest_ok [OF "2.prems"(1) k, of i] by (auto split: if_splits)
  then obtain ro' where "ro_run ops ro1 = Some ro'" "ro_ok ro'" "prefix (roQueue ro1) (roQueue ro')"
    "set (roQueue ro') = set (roQueue ro1) \<union> {k. \<exists>i m. Inl (i, m) \<in> set ops \<and> reqKey m = Some k}"
    using "2.IH" [of ro1] "2.prems" by auto
  moreover have "prefix (roQueue ro) (roQueue ro1)" "set (roQueue ro1) = insert k (set (roQueue ro))"
    using ro1(3) by (auto split: if_splits)
  ultimately show ?case
    using ro1(1) k by (auto dest: prefix_order.trans)
next
  case (3 i k ops ro)
  then show ?case
    using recvAck_ok [OF "3.prems"(1), of i k] by auto
qed auto

theorem readOnly_requests_queue_in_order_witness:
  "\<exists>ro'. ro_run [Inl (3, RaftMessage_zero\<lparr>mEntries := [Entry_zero\<lparr>eData := [9]\<rparr>]\<rparr>), Inr (2, [9])] (newReadOnly ReadOnlySafe) = Some ro' \<and>
     ro_ok ro' \<and> [9] \<in> set (roQueue ro')"
  using readOnly_requests_queue_in_order [OF newReadOnly_ok [of ReadOnlySafe], of
      "[Inl (3, RaftMessage_zero\<lparr>mEntries := [Entry_zero\<lparr>eData := [9]\<rparr>]\<rparr>), Inr (2, [9])]"]
  by (auto simp: reqKey_def go_nth_def)

end
