(* ===== verification/Raft_State.thy ===== *)
theory Raft_State
  imports Progress Raft_Log Read_Only
begin

section \<open>The state of a raft peer\<close>

text \<open>
  The first half of \<^verbatim>\<open>src/raft/raft.go\<close>: the configuration, the struct \<^verbatim>\<open>raft\<close>, sending, resetting and the
  role changes. The struct is the record \<open>raft\<close>; its pointers \<^verbatim>\<open>readOnly\<close> and \<^verbatim>\<open>raftLog\<close>, the interface
  \<^verbatim>\<open>logger\<close> and the function values \<^verbatim>\<open>tick\<close> and \<^verbatim>\<open>step\<close> can be nil and are options. The function values
  are only ever one of the step and tick functions of the file, so they are enumerations. The random
  source \<^verbatim>\<open>rand.Intn\<close> is not part of the repository: \<open>rIntn k n\<close> is what its \<open>k\<close>-th call returns for the
  argument \<open>n\<close>, and \<open>rDrawn\<close> counts the calls; these two fields are not in the Go struct. That
  \<^verbatim>\<open>Intn(n)\<close> lies in \<open>[0, n)\<close> is the hypothesis \<open>intn_ok\<close> where a theorem needs it.

  Peers' progress records are reached through a map of pointers. The code keeps such a pointer only
  while the map entry stays the same, so an operation on it is an operation on the map entry
  (\<open>on_progress\<close>).
\<close>

(* raft/raft.go 14-14 None *)
definition NoneID :: uint64 where
  "NoneID = 0"

(* raft/raft.go 16-31 StateType *)
datatype StateType = StateFollower | StateCandidate | StateLeader | StatePreCandidate

(* raft/raft.go 33-39 CampaignType *)
datatype CampaignType = campaignPreElection | campaignElection | campaignTransfer

(* raft/raft.go 35-39 campaignTransfer *)
definition CampaignType_bytes :: "CampaignType \<Rightarrow> bytes" where
  "CampaignType_bytes t =
     (case t of
        campaignPreElection \<Rightarrow> bytes_of ''CampaignPreElection''
      | campaignElection \<Rightarrow> bytes_of ''CampaignElection''
      | campaignTransfer \<Rightarrow> bytes_of ''CampaignTransfer'')"

(* raft/raft.go 58-64 Config *)
record Config =
  cID :: uint64
  cElectionTick :: int
  cHeartbeatTick :: int

(* raft/raft.go 66-77 Config.validate *)
definition Config_validate :: "Config \<Rightarrow> Err option" where
  "Config_validate c =
     (if cID c = NoneID then Some (Errorf ''cannot use none as id'')
      else if cHeartbeatTick c \<le> 0 then Some (Errorf ''heartbeat tick must be greater than 0'')
      else if cElectionTick c \<le> cHeartbeatTick c
        then Some (Errorf ''election tick must be greater than heartbeat tick'')
      else None)"

(* raft/raft.go 79-79 stepFunc *)
datatype StepFunc = stepLeaderF | stepCandidateF | stepFollowerF

datatype TickFunc = tickElectionF | tickHeartBeatF

(* raft/raft.go 80-117 raft *)
record raft =
  rId :: uint64
  rTerm :: uint64
  rVote :: uint64
  rMaxMsgSize :: uint64
  rMaxUncommittedSize :: uint64
  rReadStates :: "ReadState list"
  rReadOnly :: "readOnly option"
  rState :: StateType
  rElectionTimeout :: int
  rHeartbeatTimeout :: int
  rRandomizedElectionTimeout :: int
  rDisableProposalForwarding :: bool
  rElectionElapsed :: int
  rHeartbeatElapsed :: int
  rCheckQuorum :: bool
  rPreVote :: bool
  rLead :: uint64
  rLeadTransferee :: uint64
  rTick :: "TickFunc option"
  rStep :: "StepFunc option"
  rLogger :: Logger
  rRaftLog :: "raftLog option"
  rMsgs :: "RaftMessage list"
  rTrk :: ProgressTracker
  rPendingConfIndex :: uint64
  rPendingReadIndexMessages :: "RaftMessage list"
  rUncommittedSize :: uint64
  rIntn :: "nat \<Rightarrow> int \<Rightarrow> int"
  rDrawn :: nat

text \<open>The zero value of the struct, in an environment that provides the random numbers.\<close>

(* raft/raft.go 80-117 raft *)
definition raft_zero :: "(nat \<Rightarrow> int \<Rightarrow> int) \<Rightarrow> raft" where
  "raft_zero intn =
     \<lparr>rId = 0, rTerm = 0, rVote = 0, rMaxMsgSize = 0, rMaxUncommittedSize = 0, rReadStates = [],
      rReadOnly = None, rState = StateFollower, rElectionTimeout = 0, rHeartbeatTimeout = 0,
      rRandomizedElectionTimeout = 0, rDisableProposalForwarding = False, rElectionElapsed = 0,
      rHeartbeatElapsed = 0, rCheckQuorum = False, rPreVote = False, rLead = 0, rLeadTransferee = 0,
      rTick = None, rStep = None, rLogger = None, rRaftLog = None, rMsgs = [],
      rTrk = \<lparr>tVoters = ([], []), tProgress = [], tVotes = None, tMaxInflight = 0\<rparr>,
      rPendingConfIndex = 0, rPendingReadIndexMessages = [], rUncommittedSize = 0,
      rIntn = intn, rDrawn = 0\<rparr>"

definition intn_ok :: "raft \<Rightarrow> bool" where
  "intn_ok r \<longleftrightarrow> (\<forall>k n. 0 < n \<longrightarrow> 0 \<le> rIntn r k n \<and> rIntn r k n < n)"

text \<open>\<^verbatim>\<open>rand.Intn\<close> panics when its argument is not positive.\<close>

definition Intn :: "raft \<Rightarrow> int \<Rightarrow> (raft \<times> int) option" where
  "Intn r n = (if n \<le> 0 then None else Some (r\<lparr>rDrawn := rDrawn r + 1\<rparr>, rIntn r (rDrawn r) n))"

text \<open>Operations on the log and on a progress record behind their pointers.\<close>

definition on_log :: "(raftLog \<Rightarrow> 'a option) \<Rightarrow> raft \<Rightarrow> 'a option" where
  "on_log f r = do { rl \<leftarrow> rRaftLog r; f rl }"

definition set_log :: "(raftLog \<Rightarrow> raftLog option) \<Rightarrow> raft \<Rightarrow> raft option" where
  "set_log f r = do { rl \<leftarrow> rRaftLog r; rl \<leftarrow> f rl; Some (r\<lparr>rRaftLog := Some rl\<rparr>) }"

definition progress :: "raft \<Rightarrow> uint64 \<Rightarrow> Progress option" where
  "progress r i = map_of (tProgress (rTrk r)) i"

definition put_progress :: "raft \<Rightarrow> uint64 \<Rightarrow> Progress \<Rightarrow> raft" where
  "put_progress r i pr = r\<lparr>rTrk := (rTrk r)\<lparr>tProgress := AList.update i pr (tProgress (rTrk r))\<rparr>\<rparr>"

definition on_progress :: "(Progress \<Rightarrow> Progress option) \<Rightarrow> uint64 \<Rightarrow> raft \<Rightarrow> raft option" where
  "on_progress f i r = do { pr \<leftarrow> progress r i; pr \<leftarrow> f pr; Some (put_progress r i pr) }"

subsection \<open>Message kinds\<close>

(* raft/util.go 20-23 IsLocalMsg *)
definition IsLocalMsg :: "MessageType \<Rightarrow> bool" where
  "IsLocalMsg msgt \<longleftrightarrow> msgt = MsgHup \<or> msgt = MsgBeat \<or> msgt = MsgUnreachable \<or> msgt = MsgSnapStatus \<or>
     msgt = MsgCheckQuorum"

(* raft/util.go 25-28 IsResponseMsg *)
definition IsResponseMsg :: "MessageType \<Rightarrow> bool" where
  "IsResponseMsg msgt \<longleftrightarrow> msgt = MsgAppResp \<or> msgt = MsgVoteResp \<or> msgt = MsgHeartbeatResp \<or>
     msgt = MsgUnreachable \<or> msgt = MsgPreVoteResp"

(* raft/util.go 30-39 voteRespMsgType *)
definition voteRespMsgType :: "MessageType \<Rightarrow> MessageType option" where
  "voteRespMsgType msgt =
     (case msgt of MsgVote \<Rightarrow> Some MsgVoteResp | MsgPreVote \<Rightarrow> Some MsgPreVoteResp | _ \<Rightarrow> None)"

(* raft/util.go 48-50 PayloadSize *)
definition PayloadSize :: "Entry \<Rightarrow> uint64" where
  "PayloadSize e = len64 (eData e)"

subsection \<open>Small operations\<close>

(* raft/raft.go 119-121 raft.hasLeader *)
definition hasLeader :: "raft \<Rightarrow> bool" where
  "hasLeader r \<longleftrightarrow> rLead r \<noteq> NoneID"

(* raft/node.go 54-57 SoftState *)
record SoftState =
  ssLead :: uint64
  ssRaftState :: StateType

(* raft/raft.go 122-127 raft.softState *)
definition softState :: "raft \<Rightarrow> SoftState" where
  "softState r = \<lparr>ssLead = rLead r, ssRaftState = rState r\<rparr>"

(* raft/raft.go 128-134 raft.hardState *)
definition hardState :: "raft \<Rightarrow> HardState option" where
  "hardState r = do {
     rl \<leftarrow> rRaftLog r;
     Some \<lparr>hTerm = rTerm r, hVote = rVote r, hCommit = lCommitted rl\<rparr>
   }"

(* raft/raft.go 135-137 raft.resetRandomizedElectionTimeout *)
definition resetRandomizedElectionTimeout :: "raft \<Rightarrow> raft option" where
  "resetRandomizedElectionTimeout r = do {
     (r, n) \<leftarrow> Intn r (rElectionTimeout r);
     Some (r\<lparr>rRandomizedElectionTimeout := go_wrap (rElectionTimeout r + n)\<rparr>)
   }"

(* raft/raft.go 138-146 numOfPendingConf *)
fun numOfPendingConf :: "Entry list \<Rightarrow> int" where
  "numOfPendingConf [] = 0"
| "numOfPendingConf (e # ents) = (if eType e = EntryConfChange then 1 else 0) + numOfPendingConf ents"

(* raft/raft.go 150-164 raft.send *)
definition send :: "RaftMessage \<Rightarrow> raft \<Rightarrow> raft option" where
  "send m r = do {
     let m = (if mFrom m = NoneID then m\<lparr>mFrom := rId r\<rparr> else m);
     if mType m = MsgVote \<or> mType m = MsgVoteResp then
       (if mTerm m = 0 then None else Some (r\<lparr>rMsgs := rMsgs r @ [m]\<rparr>))
     else
       (if mTerm m \<noteq> 0 then None else Some (r\<lparr>rMsgs := rMsgs r @ [m]\<rparr>))
   }"

(* raft/raft.go 147-149 raft.sendTimeoutNow *)
definition sendTimeoutNow :: "uint64 \<Rightarrow> raft \<Rightarrow> raft option" where
  "sendTimeoutNow to r = send (RaftMessage_zero\<lparr>mTo := to, mType := MsgTimeoutNow\<rparr>) r"

(* raft/raft.go 204-206 raft.abortLeaderTransfer *)
definition abortLeaderTransfer :: "raft \<Rightarrow> raft" where
  "abortLeaderTransfer r = r\<lparr>rLeadTransferee := NoneID\<rparr>"

(* raft/raft.go 165-175 raft.reset *)
definition reset :: "uint64 \<Rightarrow> raft \<Rightarrow> raft option" where
  "reset trm r = do {
     let r = (if rTerm r \<noteq> trm then r\<lparr>rTerm := trm, rVote := NoneID\<rparr> else r);
     let r = r\<lparr>rLead := NoneID, rElectionElapsed := 0, rHeartbeatElapsed := 0\<rparr>;
     r \<leftarrow> resetRandomizedElectionTimeout r;
     Some (abortLeaderTransfer r)
   }"

(* raft/raft.go 176-186 raft.increaseUncommittedSize *)
definition increaseUncommittedSize :: "Entry list \<Rightarrow> raft \<Rightarrow> raft \<times> bool" where
  "increaseUncommittedSize ents r =
     (let s = foldl (\<lambda>s e. s + PayloadSize e) 0 ents
      in if rUncommittedSize r > 0 \<and> s > 0 \<and> rUncommittedSize r + s > rMaxUncommittedSize r then (r, False)
         else (r\<lparr>rUncommittedSize := rUncommittedSize r + s\<rparr>, True))"

(* raft/raft.go 213-216 raft.promotable *)
definition promotable :: "raft \<Rightarrow> bool" where
  "promotable r =
     (case progress r (rId r) of
        None \<Rightarrow> False
      | Some pr \<Rightarrow> \<not> pIsLearner pr \<and> \<not> hasPendingSnapshot (rRaftLog r))"

(* raft/raft.go 217-219 raft.pastElectionTimeout *)
definition pastElectionTimeout :: "raft \<Rightarrow> bool" where
  "pastElectionTimeout r \<longleftrightarrow> rElectionElapsed r \<ge> rRandomizedElectionTimeout r"

(* raft/raft.go 220-234 raft.responseToReadIndexReq *)
definition responseToReadIndexReq :: "RaftMessage \<Rightarrow> uint64 \<Rightarrow> raft \<Rightarrow> (raft \<times> RaftMessage) option" where
  "responseToReadIndexReq req readIndex r =
     (if mFrom req = NoneID \<or> mFrom req = rId r then do {
        k \<leftarrow> reqKey req;
        Some (r\<lparr>rReadStates := rReadStates r @ [\<lparr>rdIndex = readIndex, rdRequestCtx = k\<rparr>]\<rparr>, RaftMessage_zero)
      }
      else Some (r, RaftMessage_zero\<lparr>mType := MsgReadIndexResp, mTo := mFrom req, mIndex := readIndex,
                                     mEntries := mEntries req\<rparr>))"

subsection \<open>Role changes\<close>

(* raft/raft.go 284-291 raft.becomeFollower *)
definition becomeFollower :: "uint64 \<Rightarrow> uint64 \<Rightarrow> raft \<Rightarrow> raft option" where
  "becomeFollower trm lead r = do {
     let r = r\<lparr>rStep := Some stepFollowerF\<rparr>;
     r \<leftarrow> reset trm r;
     let r = r\<lparr>rTick := Some tickElectionF, rLead := lead, rState := StateFollower\<rparr>;
     Logf (rLogger r);
     Some r
   }"

text \<open>\<^verbatim>\<open>becomePreCandidate\<close> has an empty body: the state stays what it was.\<close>

(* raft/raft.go 292-294 raft.becomePreCandidate *)
definition becomePreCandidate :: "raft \<Rightarrow> raft option" where
  "becomePreCandidate r = Some r"

(* raft/raft.go 295-305 raft.becomeCandidate *)
definition becomeCandidate :: "raft \<Rightarrow> raft option" where
  "becomeCandidate r =
     (if rState r = StateLeader then None
      else do {
        let r = r\<lparr>rStep := Some stepCandidateF\<rparr>;
        r \<leftarrow> reset (rTerm r + 1) r;
        let r = r\<lparr>rTick := Some tickElectionF, rVote := rId r, rState := StateCandidate\<rparr>;
        Logf (rLogger r);
        Some r
      })"

(* raft/raft.go 306-319 raft.becomeLeader *)
definition becomeLeader :: "raft \<Rightarrow> raft option" where
  "becomeLeader r =
     (if rState r = StateFollower then None
      else do {
        let r = r\<lparr>rStep := Some stepLeaderF\<rparr>;
        r \<leftarrow> reset (rTerm r) r;
        let r = r\<lparr>rTick := Some tickHeartBeatF, rLead := rId r, rState := StateLeader\<rparr>;
        Logf (rLogger r);
        Some r
      })"

(* raft/raft.go 236-248 newRaft *)
definition newRaft :: "(nat \<Rightarrow> int \<Rightarrow> int) \<Rightarrow> Config \<Rightarrow> raft option" where
  "newRaft intn c =
     (if Config_validate c \<noteq> None then None
      else do {
        let r = (raft_zero intn)\<lparr>rId := cID c, rElectionTimeout := cElectionTick c,
                                 rHeartbeatTimeout := cHeartbeatTick c\<rparr>;
        becomeFollower (rTerm r) NoneID r
      })"

end
