(* ===== verification/Raft_Step.thy ===== *)
theory Raft_Step
  imports Raft_State
begin

section \<open>The raft state machine\<close>

text \<open>
  The second half of \<^verbatim>\<open>src/raft/raft.go\<close>: replication, elections, the three step functions, \<^verbatim>\<open>Step\<close> and the
  ticks, in the order in which they call each other. Every function takes the peer and returns the
  changed peer (with its result, if it has one); \<^term>\<open>None\<close> is a panic. The arguments of a logging call are
  evaluated, because they read the log and can panic. The message values are copies; the code writes
  the term and index of a proposed entry through its pointer, and nothing reads the proposal afterwards.
\<close>

(* raft/node.go 68-71 IsEmptySnap *)
definition IsEmptySnap :: "Snapshot \<Rightarrow> bool" where
  "IsEmptySnap sp = True"

definition log_info :: "raft \<Rightarrow> unit option" where
  "log_info r = do { on_log lastTerm r; on_log lastIndex r; Logf (rLogger r) }"

subsection \<open>Committing and appending\<close>

(* raft/raft.go 575-578 raft.maybeCommit *)
definition maybeCommit :: "raft \<Rightarrow> (raft \<times> bool) option" where
  "maybeCommit r = do {
     mci \<leftarrow> ProgressTracker_Committed (rTrk r);
     rl \<leftarrow> rRaftLog r;
     (rl, b) \<leftarrow> log_maybeCommit rl mci (rTerm r);
     Some (r\<lparr>rRaftLog := Some rl\<rparr>, b)
   }"

(* raft/raft.go 187-203 raft.appendEntry *)
definition appendEntry :: "Entry list \<Rightarrow> raft \<Rightarrow> (raft \<times> bool) option" where
  "appendEntry es r = do {
     li \<leftarrow> on_log lastIndex r;
     let es = map (\<lambda>(i, e). e\<lparr>eTerm := rTerm r, eIndex := li + 1 + of_nat i\<rparr>) (enumerate 0 es);
     let (r, ok) = increaseUncommittedSize es r;
     if \<not> ok then do { Logf (rLogger r); Some (r, False) }
     else do {
       rl \<leftarrow> rRaftLog r;
       (rl, li) \<leftarrow> log_append rl es;
       let r = r\<lparr>rRaftLog := Some rl\<rparr>;
       r \<leftarrow> on_progress (\<lambda>pr. Some (fst (Progress_MaybeUpdate pr li))) (rId r) r;
       (r, _) \<leftarrow> maybeCommit r;
       Some (r, True)
     }
   }"

subsection \<open>Sending entries, snapshots and heartbeats\<close>

(* raft/raft.go 625-636 raft.maybeSendAppend *)
definition sentEntries :: "Entry list \<Rightarrow> Progress \<Rightarrow> Progress option" where
  "sentEntries ents pr =
     (if length ents \<noteq> 0 then
        (case pState pr of
           StateReplicate \<Rightarrow> do {
             e \<leftarrow> go_nth ents (int (length ents) - 1);
             let pr = Progress_OptimisticUpdate pr (eIndex e);
             ins \<leftarrow> pInflights pr;
             ins \<leftarrow> Inflights_Add ins (eIndex e);
             Some (pr\<lparr>pInflights := Some ins\<rparr>)
           }
         | StateProbe \<Rightarrow> Some (pr\<lparr>pProbeSent := True\<rparr>)
         | StateSnapshot \<Rightarrow> None)
      else Some pr)"

(* raft/raft.go 596-618 raft.maybeSendAppend *)
definition sendSnapshot :: "uint64 \<Rightarrow> Progress \<Rightarrow> raft \<Rightarrow> (raft \<times> bool) option" where
  "sendSnapshot to pr r =
     (if \<not> pRecentActive pr then do { Logf (rLogger r); Some (r, False) }
      else do {
        (snapshot, err) \<leftarrow> on_log log_snapshot r;
        case err of
          Some e \<Rightarrow>
            if e = ErrSnapshotTemporarilyUnavailable then do { Logf (rLogger r); Some (r, False) } else None
        | None \<Rightarrow>
            if IsEmptySnap snapshot then None
            else do {
              md \<leftarrow> sMetadata snapshot;
              on_log firstIndex r;
              Logf (rLogger r);
              r \<leftarrow> on_progress (\<lambda>pr. Progress_BecomeSnapshot pr (smIndex md)) to r;
              r \<leftarrow> send (RaftMessage_zero\<lparr>mTo := to, mType := MsgSnap, mSnapshot := Some snapshot\<rparr>) r;
              Some (r, True)
            }
      })"

(* raft/raft.go 582-640 raft.maybeSendAppend *)
definition maybeSendAppend :: "uint64 \<Rightarrow> bool \<Rightarrow> raft \<Rightarrow> (raft \<times> bool) option" where
  "maybeSendAppend to sendIfEmpty r = do {
     pr \<leftarrow> progress r to;
     paused \<leftarrow> Progress_IsPaused pr;
     if paused then Some (r, False)
     else do {
       (trm, errt) \<leftarrow> on_log (\<lambda>rl. log_term rl (pNext pr - 1)) r;
       (ents, erre) \<leftarrow> on_log (\<lambda>rl. log_entries rl (pNext pr) (rMaxMsgSize r)) r;
       if length ents = 0 \<and> \<not> sendIfEmpty then Some (r, False)
       else if errt \<noteq> None \<or> erre \<noteq> None then sendSnapshot to pr r
       else do {
         rl \<leftarrow> rRaftLog r;
         let m = RaftMessage_zero\<lparr>mTo := to, mType := MsgApp, mIndex := pNext pr - 1, mLogTerm := trm,
                                  mEntries := ents, mCommit := lCommitted rl\<rparr>;
         r \<leftarrow> on_progress (sentEntries ents) to r;
         r \<leftarrow> send m r;
         Some (r, True)
       }
     }
   }"

(* raft/raft.go 579-581 raft.sendAppend *)
definition sendAppend :: "uint64 \<Rightarrow> raft \<Rightarrow> raft option" where
  "sendAppend to r = map_option fst (maybeSendAppend to True r)"

text \<open>The loop \<^verbatim>\<open>for r.maybeSendAppend(m.From, false) {}\<close>.\<close>

(* raft/raft.go 504-505 stepLeader *)
partial_function (option) sendAppendLoop :: "uint64 \<Rightarrow> raft \<Rightarrow> raft option" where
  "sendAppendLoop to r = do {
     (r, more) \<leftarrow> maybeSendAppend to False r;
     if more then sendAppendLoop to r else Some r
   }"

(* raft/raft.go 916-923 raft.bcastAppend *)
definition bcastAppend :: "raft \<Rightarrow> raft option" where
  "bcastAppend r =
     ProgressTracker_Visit (rTrk r) (\<lambda>i r. if i = rId r then Some r else sendAppend i r) r"

(* raft/raft.go 896-905 raft.sendHeartbeat *)
definition sendHeartbeat :: "uint64 \<Rightarrow> bytes \<Rightarrow> raft \<Rightarrow> raft option" where
  "sendHeartbeat to ctx r = do {
     pr \<leftarrow> progress r to;
     rl \<leftarrow> rRaftLog r;
     let commit = go_min (pMatch pr) (lCommitted rl);
     send (RaftMessage_zero\<lparr>mTo := to, mType := MsgHeartbeat, mCommit := commit, mContext := ctx\<rparr>) r
   }"

(* raft/raft.go 924-931 raft.bcastHeartbeatWithCtx *)
definition bcastHeartbeatWithCtx :: "bytes \<Rightarrow> raft \<Rightarrow> raft option" where
  "bcastHeartbeatWithCtx ctx r =
     ProgressTracker_Visit (rTrk r) (\<lambda>i r. if i = rId r then Some r else sendHeartbeat i ctx r) r"

(* raft/raft.go 906-913 raft.bcastHeartbeat *)
definition bcastHeartbeat :: "raft \<Rightarrow> raft option" where
  "bcastHeartbeat r = do {
     ro \<leftarrow> rReadOnly r;
     let lastCtx = lastPendingRequestCtx ro;
     if length lastCtx = 0 then bcastHeartbeatWithCtx [] r else bcastHeartbeatWithCtx lastCtx r
   }"

subsection \<open>Read index\<close>

(* raft/raft.go 933-935 raft.committedEntryInCurrentTerm *)
definition committedEntryInCurrentTerm :: "raft \<Rightarrow> bool option" where
  "committedEntryInCurrentTerm r = do {
     rl \<leftarrow> rRaftLog r;
     res \<leftarrow> log_term rl (lCommitted rl);
     t \<leftarrow> zeroTermOnErrCompacted res;
     Some (t = rTerm r)
   }"

text \<open>\<^verbatim>\<open>if resp := r.responseToReadIndexReq(req, index); resp.To != None \{ r.send(resp) \}\<close>\<close>

(* raft/raft.go 446-448 stepLeader *)
definition respondReadIndex :: "RaftMessage \<Rightarrow> uint64 \<Rightarrow> raft \<Rightarrow> raft option" where
  "respondReadIndex req index r = do {
     (r, resp) \<leftarrow> responseToReadIndexReq req index r;
     if mTo resp \<noteq> NoneID then send resp r else Some r
   }"

(* raft/raft.go 936-947 sendMsgReadIndexResponse *)
definition sendMsgReadIndexResponse :: "RaftMessage \<Rightarrow> raft \<Rightarrow> raft option" where
  "sendMsgReadIndexResponse m r = do {
     ro \<leftarrow> rReadOnly r;
     rl \<leftarrow> rRaftLog r;
     case roOption ro of
       ReadOnlySafe \<Rightarrow> do {
         ro \<leftarrow> addRequest ro (lCommitted rl) m;
         k \<leftarrow> reqKey m;
         let (ro, _) = recvAck ro (rId r) k;
         bcastHeartbeatWithCtx k (r\<lparr>rReadOnly := Some ro\<rparr>)
       }
     | ReadOnlyLeaseBased \<Rightarrow> respondReadIndex m (lCommitted rl) r
   }"

(* raft/raft.go 948-960 releasePendingReadIndexMessages *)
definition releasePendingReadIndexMessages :: "raft \<Rightarrow> raft option" where
  "releasePendingReadIndexMessages r = do {
     ok \<leftarrow> committedEntryInCurrentTerm r;
     if \<not> ok then do { Logf (rLogger r); Some r }
     else do {
       let msgs = rPendingReadIndexMessages r;
       let r = r\<lparr>rPendingReadIndexMessages := []\<rparr>;
       foldM sendMsgReadIndexResponse msgs r
     }
   }"

subsection \<open>Followers: entries, heartbeats and snapshots from the leader\<close>

(* raft/raft.go 812-837 raft.handleAppendEntries *)
definition handleAppendEntries :: "RaftMessage \<Rightarrow> raft \<Rightarrow> raft option" where
  "handleAppendEntries m r = do {
     rl \<leftarrow> rRaftLog r;
     if mIndex m < lCommitted rl then
       send (RaftMessage_zero\<lparr>mTo := mFrom m, mType := MsgAppResp, mIndex := lCommitted rl\<rparr>) r
     else do {
       (rl, mLastIndex, ok) \<leftarrow> maybeAppend rl (mIndex m) (mLogTerm m) (mCommit m) (mEntries m);
       let r = r\<lparr>rRaftLog := Some rl\<rparr>;
       if ok then
         send (RaftMessage_zero\<lparr>mTo := mFrom m, mType := MsgAppResp, mIndex := mLastIndex\<rparr>) r
       else do {
         res \<leftarrow> log_term rl (mIndex m);
         zeroTermOnErrCompacted res;
         Logf (rLogger r);
         li \<leftarrow> lastIndex rl;
         let hintIndex = go_min (mIndex m) li;
         hintIndex \<leftarrow> findConflictByTerm rl hintIndex (mLogTerm m);
         (hintTerm, err) \<leftarrow> log_term rl hintIndex;
         if err \<noteq> None then None
         else send (RaftMessage_zero\<lparr>mTo := mFrom m, mType := MsgAppResp, mIndex := mIndex m, mReject := True,
                                     mRejectHint := hintIndex, mLogTerm := hintTerm\<rparr>) r
       }
     }
   }"

(* raft/raft.go 838-841 raft.handleHeartbeat *)
definition handleHeartbeat :: "RaftMessage \<Rightarrow> raft \<Rightarrow> raft option" where
  "handleHeartbeat m r = do {
     r \<leftarrow> set_log (\<lambda>rl. commitTo rl (mCommit m)) r;
     send (RaftMessage_zero\<lparr>mTo := mFrom m, mType := MsgHeartbeatResp, mContext := mContext m\<rparr>) r
   }"

(* raft/raft.go 854-893 raft.restore *)
definition restore :: "Snapshot \<Rightarrow> raft \<Rightarrow> (raft \<times> bool) option" where
  "restore s r = do {
     md \<leftarrow> sMetadata s;
     rl \<leftarrow> rRaftLog r;
     if smIndex md \<le> lCommitted rl then Some (r, False)
     else if rState r \<noteq> StateFollower then do {
       Logf (rLogger r);
       r \<leftarrow> becomeFollower (rTerm r + 1) NoneID r;
       Some (r, False)
     }
     else do {
       cs \<leftarrow> smConfState md;
       let found = (\<exists>s \<in> set [csVoters cs, csLearners cs, csVotersOutgoing cs]. rId r \<in> set s);
       if \<not> found then do { Logf (rLogger r); Some (r, False) }
       else do {
         same \<leftarrow> matchTerm rl (smIndex md) (smTerm md);
         rl \<leftarrow> (if same then do { log_info r; commitTo rl (smIndex md) } else Some rl);
         rl \<leftarrow> log_restore rl s;
         Some (r\<lparr>rRaftLog := Some rl, rTrk := MakeProgressTracker (tMaxInflight (rTrk r))\<rparr>, True)
       }
     }
   }"

(* raft/raft.go 842-853 raft.handleSnapshot *)
definition handleSnapshot :: "RaftMessage \<Rightarrow> raft \<Rightarrow> raft option" where
  "handleSnapshot m r = do {
     s \<leftarrow> mSnapshot m;
     md \<leftarrow> sMetadata s;
     (r, ok) \<leftarrow> restore s r;
     Logf (rLogger r);
     if ok then do {
       li \<leftarrow> on_log lastIndex r;
       send (RaftMessage_zero\<lparr>mTo := mFrom m, mType := MsgAppResp, mIndex := li\<rparr>) r
     }
     else do {
       rl \<leftarrow> rRaftLog r;
       send (RaftMessage_zero\<lparr>mTo := mFrom m, mType := MsgAppResp, mIndex := lCommitted rl\<rparr>) r
     }
   }"

subsection \<open>Elections\<close>

(* raft/raft.go 803-811 raft.poll *)
definition poll :: "uint64 \<Rightarrow> MessageType \<Rightarrow> bool \<Rightarrow> raft \<Rightarrow> (raft \<times> nat \<times> nat \<times> VoteResult) option" where
  "poll i t v r = do {
     (if v then Logf (rLogger r) else Logf (rLogger r));
     trk \<leftarrow> ProgressTracker_RecordVote (rTrk r) i v;
     Some (r\<lparr>rTrk := trk\<rparr>, ProgressTracker_TallyVotes trk)
   }"

(* raft/raft.go 790-801 raft.campaign *)
definition sendVoteRequest :: "CampaignType \<Rightarrow> uint64 \<Rightarrow> MessageType \<Rightarrow> uint64 \<Rightarrow> raft \<Rightarrow> raft option" where
  "sendVoteRequest t trm voteMsg i r =
     (if i = rId r then Some r
      else do {
        log_info r;
        li \<leftarrow> on_log lastIndex r;
        lt \<leftarrow> on_log lastTerm r;
        let ctx = (if t = campaignTransfer then CampaignType_bytes t else []);
        send (RaftMessage_zero\<lparr>mTerm := trm, mTo := i, mType := voteMsg, mIndex := li, mLogTerm := lt,
                               mContext := ctx\<rparr>) r
      })"

(* raft/raft.go 757-802 raft.campaign *)
function campaign :: "CampaignType \<Rightarrow> raft \<Rightarrow> raft option" where
  "campaign t r = do {
     (if \<not> promotable r then Logf (rLogger r) else Some ());
     (r, voteMsg, trm) \<leftarrow>
       (if t = campaignElection then do {
          r \<leftarrow> becomePreCandidate r;
          Some (r, MsgPreVote, rTerm r + 1)
        }
        else do {
          r \<leftarrow> becomeCandidate r;
          Some (r, MsgVote, rTerm r)
        });
     respType \<leftarrow> voteRespMsgType voteMsg;
     (r, _, _, res) \<leftarrow> poll (rId r) respType True r;
     if res = VoteWon then
       (if t = campaignPreElection then campaign campaignElection r else becomeLeader r)
     else
       foldM (sendVoteRequest t trm voteMsg) (sort (JointConfig_IDs (tVoters (rTrk r)))) r
   }"
  by pat_completeness auto
termination
  by (relation "measure (\<lambda>(t, r). if t = campaignPreElection then 1 else 0)") auto

declare campaign.simps [simp del]

(* raft/raft.go 737-756 raft.hup *)
definition hup :: "CampaignType \<Rightarrow> raft \<Rightarrow> raft option" where
  "hup t r =
     (if rState r = StateLeader then do { Logf (rLogger r); Some r }
      else if \<not> promotable r then do { Logf (rLogger r); Some r }
      else do {
        rl \<leftarrow> rRaftLog r;
        (ents, err) \<leftarrow> log_slice rl (lApplied rl + 1) (lCommitted rl + 1) noLimit;
        if err \<noteq> None then None
        else if numOfPendingConf ents \<noteq> 0 \<and> lCommitted rl > lApplied rl then do { Logf (rLogger r); Some r }
        else do { Logf (rLogger r); campaign t r }
      })"

subsection \<open>The leader\<close>

text \<open>
  Proposals. The conf change \<open>cc\<close> of an entry is declared and never assigned in the loop over the
  entries, so the loop calls \<open>propConfChange\<close> with nil only.
\<close>

(* raft/raft.go 419-437 stepLeader *)
definition propConfChange :: "ConfChange option \<Rightarrow> nat \<Rightarrow> raft \<Rightarrow> raft option" where
  "propConfChange cc i r =
     (if cc \<noteq> None then do {
        rl \<leftarrow> rRaftLog r;
        let alreadyPending = rPendingConfIndex r > lApplied rl;
        let alreadyJoint = length (snd (tVoters (rTrk r))) > 0;
        let wantsLeaveJoint = False;
        if alreadyPending \<or> (alreadyJoint \<and> \<not> wantsLeaveJoint) \<or> (\<not> alreadyJoint \<and> wantsLeaveJoint)
        then do { Logf (rLogger r); Some r }
        else do { li \<leftarrow> lastIndex rl; Some (r\<lparr>rPendingConfIndex := li + of_nat i + 1\<rparr>) }
      }
      else Some r)"

(* raft/raft.go 402-443 stepLeader *)
definition leaderProp :: "RaftMessage \<Rightarrow> raft \<Rightarrow> (raft \<times> Err option) option" where
  "leaderProp m r =
     (if length (mEntries m) = 0 then None
      else if progress r (rId r) = None then Some (r, Some ErrProposalDropped)
      else if rLeadTransferee r \<noteq> NoneID then do { Logf (rLogger r); Some (r, Some ErrProposalDropped) }
      else do {
        r \<leftarrow> foldM (\<lambda>i. propConfChange None i) [0..<length (mEntries m)] r;
        (r, ok) \<leftarrow> appendEntry (mEntries m) r;
        if \<not> ok then Some (r, Some ErrProposalDropped)
        else do { r \<leftarrow> bcastAppend r; Some (r, None) }
      })"

(* raft/raft.go 444-456 stepLeader *)
definition leaderReadIndex :: "RaftMessage \<Rightarrow> raft \<Rightarrow> raft option" where
  "leaderReadIndex m r =
     (if ProgressTracker_IsSingleton (rTrk r) then do {
        rl \<leftarrow> rRaftLog r;
        respondReadIndex m (lCommitted rl) r
      }
      else do {
        ok \<leftarrow> committedEntryInCurrentTerm r;
        if \<not> ok then Some (r\<lparr>rPendingReadIndexMessages := rPendingReadIndexMessages r @ [m]\<rparr>)
        else sendMsgReadIndexResponse m r
      })"

(* raft/raft.go 467-480 stepLeader *)
definition leaderAppRejected :: "RaftMessage \<Rightarrow> raft \<Rightarrow> raft option" where
  "leaderAppRejected m r = do {
     Logf (rLogger r);
     nextProbeIdx \<leftarrow>
       (if mLogTerm m > 0 then on_log (\<lambda>rl. findConflictByTerm rl (mRejectHint m) (mLogTerm m)) r
        else Some (mRejectHint m));
     pr \<leftarrow> progress r (mFrom m);
     let (pr, ok) = Progress_MaybeDecrTo pr (mIndex m) nextProbeIdx;
     let r = put_progress r (mFrom m) pr;
     if ok then do {
       r \<leftarrow> (if pState pr = StateReplicate then on_progress Progress_BecomeProbe (mFrom m) r else Some r);
       sendAppend (mFrom m) r
     }
     else Some r
   }"

(* raft/raft.go 484-493 stepLeader *)
definition ackedProgress :: "Logger \<Rightarrow> uint64 \<Rightarrow> Progress \<Rightarrow> Progress option" where
  "ackedProgress lg index pr =
     (if pState pr = StateProbe then Progress_BecomeReplicate pr
      else if pState pr = StateSnapshot \<and> pMatch pr \<ge> pPendingSnapshot pr then do {
        Logf lg;
        pr \<leftarrow> Progress_BecomeProbe pr;
        Progress_BecomeReplicate pr
      }
      else if pState pr = StateReplicate then do {
        ins \<leftarrow> pInflights pr;
        ins \<leftarrow> Inflights_FreeLE ins index;
        Some (pr\<lparr>pInflights := Some ins\<rparr>)
      }
      else Some pr)"

(* raft/raft.go 482-510 stepLeader *)
definition leaderAppAccepted :: "RaftMessage \<Rightarrow> raft \<Rightarrow> raft option" where
  "leaderAppAccepted m r = do {
     pr \<leftarrow> progress r (mFrom m);
     oldPaused \<leftarrow> Progress_IsPaused pr;
     let (pr, updated) = Progress_MaybeUpdate pr (mIndex m);
     let r = put_progress r (mFrom m) pr;
     if updated then do {
       r \<leftarrow> on_progress (ackedProgress (rLogger r) (mIndex m)) (mFrom m) r;
       (r, committed) \<leftarrow> maybeCommit r;
       r \<leftarrow> (if committed then do { r \<leftarrow> releasePendingReadIndexMessages r; bcastAppend r }
             else if oldPaused then sendAppend (mFrom m) r
             else Some r);
       r \<leftarrow> sendAppendLoop (mFrom m) r;
       if mFrom m = rLeadTransferee r then do {
         pr \<leftarrow> progress r (mFrom m);
         li \<leftarrow> on_log lastIndex r;
         if pMatch pr = li then do { Logf (rLogger r); sendTimeoutNow (mFrom m) r } else Some r
       }
       else Some r
     }
     else Some r
   }"

(* raft/raft.go 512-533 stepLeader *)
definition leaderHeartbeatResp :: "RaftMessage \<Rightarrow> raft \<Rightarrow> raft option" where
  "leaderHeartbeatResp m r = do {
     r \<leftarrow> on_progress (\<lambda>pr. do {
            let pr = pr\<lparr>pRecentActive := True, pProbeSent := False\<rparr>;
            if pState pr = StateReplicate then do {
              ins \<leftarrow> pInflights pr;
              if Inflights_Full ins then do {
                ins \<leftarrow> Inflights_FreeFirstOne ins;
                Some (pr\<lparr>pInflights := Some ins\<rparr>)
              }
              else Some pr
            }
            else Some pr
          }) (mFrom m) r;
     pr \<leftarrow> progress r (mFrom m);
     li \<leftarrow> on_log lastIndex r;
     r \<leftarrow> (if pMatch pr < li then sendAppend (mFrom m) r else Some r);
     ro \<leftarrow> rReadOnly r;
     if roOption ro \<noteq> ReadOnlySafe \<or> length (mContext m) = 0 then Some r
     else do {
       let (ro, acks) = recvAck ro (mFrom m) (mContext m);
       let r = r\<lparr>rReadOnly := Some ro\<rparr>;
       if JointConfig_VoteResult (tVoters (rTrk r)) (map_of acks) \<noteq> VoteWon then Some r
       else do {
         (ro, rss) \<leftarrow> readOnly_advance ro m;
         foldM (\<lambda>rs. respondReadIndex (rsReq rs) (rsIndex rs)) rss (r\<lparr>rReadOnly := Some ro\<rparr>)
       }
     }
   }"

(* raft/raft.go 543-571 stepLeader *)
definition leaderTransfer :: "RaftMessage \<Rightarrow> Progress \<Rightarrow> raft \<Rightarrow> raft option" where
  "leaderTransfer m pr r =
     (if pIsLearner pr then do { Logf (rLogger r); Some r }
      else do {
        let leadTransferee = mFrom m;
        let lastLeadTransferee = rLeadTransferee r;
        if lastLeadTransferee \<noteq> NoneID \<and> lastLeadTransferee = leadTransferee then do { Logf (rLogger r); Some r }
        else do {
          r \<leftarrow> (if lastLeadTransferee \<noteq> NoneID then do { Logf (rLogger r); Some (abortLeaderTransfer r) } else Some r);
          Logf (rLogger r);
          if leadTransferee = rId r then Some r
          else do {
            let r = r\<lparr>rElectionElapsed := 0, rLeadTransferee := leadTransferee\<rparr>;
            li \<leftarrow> on_log lastIndex r;
            if pMatch pr = li then sendTimeoutNow leadTransferee r else sendAppend leadTransferee r
          }
        }
      })"

(* raft/raft.go 393-574 stepLeader *)
definition stepLeader :: "RaftMessage \<Rightarrow> raft \<Rightarrow> (raft \<times> Err option) option" where
  "stepLeader m r =
     (case mType m of
        MsgBeat \<Rightarrow> do { r \<leftarrow> bcastHeartbeat r; Some (r, None) }
      | MsgCheckQuorum \<Rightarrow> Some (r, None)
      | MsgProp \<Rightarrow> leaderProp m r
      | MsgReadIndex \<Rightarrow> do { r \<leftarrow> leaderReadIndex m r; Some (r, None) }
      | _ \<Rightarrow>
          (case progress r (mFrom m) of
             None \<Rightarrow> do { Logf (rLogger r); Some (r, None) }
           | Some pr \<Rightarrow>
               (case mType m of
                  MsgAppResp \<Rightarrow> do {
                    let r = put_progress r (mFrom m) (pr\<lparr>pRecentActive := True\<rparr>);
                    r \<leftarrow> (if mReject m then leaderAppRejected m r else leaderAppAccepted m r);
                    Some (r, None)
                  }
                | MsgHeartbeatResp \<Rightarrow> do { r \<leftarrow> leaderHeartbeatResp m r; Some (r, None) }
                | MsgSnapStatus \<Rightarrow> Some (r, None)
                | MsgUnreachable \<Rightarrow> do {
                    r \<leftarrow> (if pState pr = StateReplicate then on_progress Progress_BecomeProbe (mFrom m) r else Some r);
                    Logf (rLogger r);
                    Some (r, None)
                  }
                | MsgTransferLeader \<Rightarrow> do { r \<leftarrow> leaderTransfer m pr r; Some (r, None) }
                | _ \<Rightarrow> Some (r, None))))"

subsection \<open>Candidates and followers\<close>

(* raft/raft.go 645-683 stepCandidate *)
definition stepCandidate :: "RaftMessage \<Rightarrow> raft \<Rightarrow> (raft \<times> Err option) option" where
  "stepCandidate m r = do {
     let myVoteRespType = (if rState r = StatePreCandidate then MsgPreVoteResp else MsgVoteResp);
     if mType m = MsgProp then do { Logf (rLogger r); Some (r, Some ErrProposalDropped) }
     else if mType m = MsgApp then do {
       r \<leftarrow> becomeFollower (mTerm m) (mFrom m) r;
       r \<leftarrow> handleAppendEntries m r;
       Some (r, None)
     }
     else if mType m = MsgHeartbeat then do {
       r \<leftarrow> becomeFollower (mTerm m) (mFrom m) r;
       r \<leftarrow> handleHeartbeat m r;
       Some (r, None)
     }
     else if mType m = MsgSnap then do {
       r \<leftarrow> becomeFollower (mTerm m) (mFrom m) r;
       r \<leftarrow> handleSnapshot m r;
       Some (r, None)
     }
     else if mType m = myVoteRespType then do {
       (r, gr, rj, res) \<leftarrow> poll (mFrom m) (mType m) (\<not> mReject m) r;
       Logf (rLogger r);
       r \<leftarrow> (case res of
              VoteWon \<Rightarrow>
                if rState r = StatePreCandidate then campaign campaignElection r
                else do { r \<leftarrow> becomeLeader r; bcastAppend r }
            | VoteLost \<Rightarrow> becomeFollower (rTerm r) NoneID r
            | VotePending \<Rightarrow> Some r);
       Some (r, None)
     }
     else if mType m = MsgTimeoutNow then do { Logf (rLogger r); Some (r, None) }
     else Some (r, None)
   }"

(* raft/raft.go 684-736 stepFollower *)
definition stepFollower :: "RaftMessage \<Rightarrow> raft \<Rightarrow> (raft \<times> Err option) option" where
  "stepFollower m r =
     (case mType m of
        MsgProp \<Rightarrow>
          if rLead r = NoneID then do { Logf (rLogger r); Some (r, Some ErrProposalDropped) }
          else if rDisableProposalForwarding r then do { Logf (rLogger r); Some (r, Some ErrProposalDropped) }
          else do { r \<leftarrow> send (m\<lparr>mTo := rLead r\<rparr>) r; Some (r, None) }
      | MsgApp \<Rightarrow> Some (r\<lparr>rElectionElapsed := 0, rLead := mFrom m\<rparr>, None)
      | MsgHeartbeat \<Rightarrow> do {
          r \<leftarrow> handleHeartbeat m (r\<lparr>rElectionElapsed := 0, rLead := mFrom m\<rparr>);
          Some (r, None)
        }
      | MsgSnap \<Rightarrow> do {
          r \<leftarrow> handleSnapshot m (r\<lparr>rElectionElapsed := 0, rLead := mFrom m\<rparr>);
          Some (r, None)
        }
      | MsgTransferLeader \<Rightarrow>
          if rLead r = NoneID then do { Logf (rLogger r); Some (r, None) }
          else do { r \<leftarrow> send (m\<lparr>mTo := rLead r\<rparr>) r; Some (r, None) }
      | MsgTimeoutNow \<Rightarrow> do {
          Logf (rLogger r);
          r \<leftarrow> hup campaignTransfer r;
          Some (r, None)
        }
      | MsgReadIndex \<Rightarrow>
          if rLead r = NoneID then do { Logf (rLogger r); Some (r, None) }
          else do { r \<leftarrow> send (m\<lparr>mTo := rLead r\<rparr>) r; Some (r, None) }
      | MsgReadIndexResp \<Rightarrow>
          if length (mEntries m) \<noteq> 1 then do { Logf (rLogger r); Some (r, None) }
          else do {
            k \<leftarrow> reqKey m;
            Some (r\<lparr>rReadStates := rReadStates r @ [\<lparr>rdIndex = mIndex m, rdRequestCtx = k\<rparr>]\<rparr>, None)
          }
      | _ \<Rightarrow> Some (r, None))"

(* raft/raft.go 386-386 raft.Step *)
definition callStep :: "RaftMessage \<Rightarrow> raft \<Rightarrow> (raft \<times> Err option) option" where
  "callStep m r =
     (case rStep r of
        None \<Rightarrow> None
      | Some stepLeaderF \<Rightarrow> stepLeader m r
      | Some stepCandidateF \<Rightarrow> stepCandidate m r
      | Some stepFollowerF \<Rightarrow> stepFollower m r)"

subsection \<open>Step and the ticks\<close>

text \<open>The first switch of \<^verbatim>\<open>Step\<close>, on the term; the result says whether \<^verbatim>\<open>Step\<close> goes on.\<close>

(* raft/raft.go 321-361 raft.Step *)
definition stepTerm :: "RaftMessage \<Rightarrow> raft \<Rightarrow> (raft \<times> bool) option" where
  "stepTerm m r =
     (if mTerm m = 0 then Some (r, True)
      else if mTerm m > rTerm r then do {
        let force = (mContext m = CampaignType_bytes campaignTransfer);
        let inLease = (rCheckQuorum r \<and> rLead r \<noteq> NoneID \<and> rElectionElapsed r < rElectionTimeout r);
        if (mType m = MsgPreVote \<or> mType m = MsgVote) \<and> \<not> force \<and> inLease then do {
          log_info r;
          Some (r, False)
        }
        else if mType m = MsgPreVote then Some (r, True)
        else if mType m = MsgPreVoteResp \<and> \<not> mReject m then Some (r, True)
        else do {
          Logf (rLogger r);
          r \<leftarrow> (if mType m = MsgApp \<or> mType m = MsgHeartbeat \<or> mType m = MsgSnap
                then becomeFollower (mTerm m) (mFrom m) r
                else becomeFollower (mTerm m) NoneID r);
          Some (r, True)
        }
      }
      else if mTerm m < rTerm r then do {
        r \<leftarrow> (if (rCheckQuorum r \<or> rPreVote r) \<and> (mType m = MsgHeartbeat \<or> mType m = MsgApp) then
                send (RaftMessage_zero\<lparr>mTo := mFrom m, mType := MsgAppResp\<rparr>) r
              else if mType m = MsgPreVote then do {
                log_info r;
                send (RaftMessage_zero\<lparr>mTo := mFrom m, mTerm := rTerm r, mType := MsgPreVoteResp, mReject := True\<rparr>) r
              }
              else do { Logf (rLogger r); Some r });
        Some (r, False)
      }
      else Some (r, True))"

(* raft/raft.go 370-384 raft.Step *)
definition stepVote :: "RaftMessage \<Rightarrow> raft \<Rightarrow> raft option" where
  "stepVote m r = do {
     let canVote = (rVote r = mFrom m \<or> (rVote r = NoneID \<and> rLead r = NoneID) \<or>
                    (mType m = MsgPreVote \<and> mTerm m > rTerm r));
     ok \<leftarrow> (if canVote then on_log (\<lambda>rl. isUpToDate rl (mIndex m) (mLogTerm m)) r else Some False);
     t \<leftarrow> voteRespMsgType (mType m);
     let resp = RaftMessage_zero\<lparr>mTo := mFrom m, mTerm := rTerm r, mType := t, mReject := True\<rparr>;
     if ok then do {
       log_info r;
       r \<leftarrow> send resp r;
       Some (if mType m = MsgVote then r\<lparr>rElectionElapsed := 0, rVote := mFrom m\<rparr> else r)
     }
     else send resp r
   }"

(* raft/raft.go 320-392 raft.Step *)
definition Step :: "RaftMessage \<Rightarrow> raft \<Rightarrow> (raft \<times> Err option) option" where
  "Step m r = do {
     (r, goOn) \<leftarrow> stepTerm m r;
     if \<not> goOn then Some (r, None)
     else if mType m = MsgHup then do {
       r \<leftarrow> (if rPreVote r then hup campaignPreElection r else hup campaignElection r);
       Some (r, None)
     }
     else if mType m = MsgVote \<or> mType m = MsgPreVote then do { r \<leftarrow> stepVote m r; Some (r, None) }
     else callStep m r
   }"

text \<open>A tick that steps a message logs the error, if there is one.\<close>

(* raft/raft.go 254-256 raft.tickElection *)
definition stepLogged :: "RaftMessage \<Rightarrow> raft \<Rightarrow> raft option" where
  "stepLogged m r = do {
     (r, err) \<leftarrow> Step m r;
     (if err \<noteq> None then Logf (rLogger r) else Some ());
     Some r
   }"

(* raft/raft.go 249-258 raft.tickElection *)
definition tickElection :: "raft \<Rightarrow> raft option" where
  "tickElection r = do {
     let r = r\<lparr>rElectionElapsed := rElectionElapsed r + 1\<rparr>;
     if promotable r \<and> pastElectionTimeout r then
       stepLogged (RaftMessage_zero\<lparr>mFrom := rId r, mType := MsgHup\<rparr>) (r\<lparr>rElectionElapsed := 0\<rparr>)
     else Some r
   }"

(* raft/raft.go 259-283 raft.tickHeartBeat *)
definition tickHeartBeat :: "raft \<Rightarrow> raft option" where
  "tickHeartBeat r = do {
     let r = r\<lparr>rHeartbeatElapsed := rHeartbeatElapsed r + 1, rElectionElapsed := rElectionElapsed r + 1\<rparr>;
     r \<leftarrow> (if rElectionElapsed r \<ge> rElectionTimeout r then do {
             let r = r\<lparr>rElectionElapsed := 0\<rparr>;
             r \<leftarrow> (if rCheckQuorum r
                   then stepLogged (RaftMessage_zero\<lparr>mFrom := rId r, mType := MsgCheckQuorum\<rparr>) r else Some r);
             Some (if rState r = StateLeader \<and> rLeadTransferee r \<noteq> NoneID then abortLeaderTransfer r else r)
           }
           else Some r);
     if rState r \<noteq> StateLeader then Some r
     else if rHeartbeatElapsed r \<ge> rHeartbeatTimeout r then
       stepLogged (RaftMessage_zero\<lparr>mFrom := rId r, mType := MsgBeat\<rparr>) (r\<lparr>rHeartbeatElapsed := 0\<rparr>)
     else Some r
   }"

(* raft/rawnode.go 24-26 RawNode.Tick *)
definition callTick :: "raft \<Rightarrow> raft option" where
  "callTick r =
     (case rTick r of
        None \<Rightarrow> None
      | Some tickElectionF \<Rightarrow> tickElection r
      | Some tickHeartBeatF \<Rightarrow> tickHeartBeat r)"

end
