(* ===== verification/Raft_Frames.thy ===== *)
theory Raft_Frames
  imports Raft_Step
begin

section \<open>What the operations of a peer keep\<close>

text \<open>
  The frame lemmas of \<open>Raft_Step\<close>. \<open>quiet r r'\<close> holds between the peer before and after an operation
  that neither changes role nor term: its identity, term, vote, role and timers are the same, its log only
  grew (\<open>log_grows\<close>: the commit index did not go back and still lies in the log), and it only added
  messages that obey the sending rules (\<open>sent_ok\<close>). The relation is reflexive and transitive, so the
  lemmas compose along the calls; \<open>quiet_rules\<close> walks a \<^verbatim>\<open>do\<close> block.
\<close>

definition commit_in :: "raftLog \<Rightarrow> bool" where
  "commit_in rl \<longleftrightarrow> (case lastIndex rl of None \<Rightarrow> False | Some li \<Rightarrow> lCommitted rl \<le> li)"

definition log_grows :: "raftLog option \<Rightarrow> raftLog option \<Rightarrow> bool" where
  "log_grows l l' \<longleftrightarrow>
     (case (l, l') of
        (None, None) \<Rightarrow> True
      | (Some rl, Some rl') \<Rightarrow>
          lStorage rl' = lStorage rl \<and> lApplied rl' = lApplied rl \<and> lCommitted rl \<le> lCommitted rl' \<and>
          (commit_in rl \<longrightarrow> commit_in rl')
      | _ \<Rightarrow> False)"

text \<open>Vote requests and responses carry a term and nothing else does; every vote response is a rejection.\<close>

definition sent_ok :: "RaftMessage \<Rightarrow> bool" where
  "sent_ok m \<longleftrightarrow> (mTerm m \<noteq> 0 \<longleftrightarrow> mType m = MsgVote \<or> mType m = MsgVoteResp) \<and>
     (mType m = MsgVoteResp \<or> mType m = MsgPreVoteResp \<longrightarrow> mReject m)"

definition grows :: "raft \<Rightarrow> raft \<Rightarrow> bool" where
  "grows r r' \<longleftrightarrow> log_grows (rRaftLog r) (rRaftLog r') \<and> (\<exists>ms. rMsgs r' = rMsgs r @ ms \<and> list_all sent_ok ms)"

definition same_env :: "raft \<Rightarrow> raft \<Rightarrow> bool" where
  "same_env r r' \<longleftrightarrow> rId r' = rId r \<and> rLogger r' = rLogger r \<and> rElectionTimeout r' = rElectionTimeout r \<and>
     rHeartbeatTimeout r' = rHeartbeatTimeout r \<and> rIntn r' = rIntn r"

definition same_role :: "raft \<Rightarrow> raft \<Rightarrow> bool" where
  "same_role r r' \<longleftrightarrow> rTerm r' = rTerm r \<and> rVote r' = rVote r \<and> rState r' = rState r \<and> rLead r' = rLead r \<and>
     rStep r' = rStep r \<and> rTick r' = rTick r \<and> rLeadTransferee r' = rLeadTransferee r \<and>
     rRandomizedElectionTimeout r' = rRandomizedElectionTimeout r"

definition quiet :: "raft \<Rightarrow> raft \<Rightarrow> bool" where
  "quiet r r' \<longleftrightarrow> same_env r r' \<and> same_role r r' \<and> grows r r'"

lemma log_grows_refl [simp]: "log_grows l l"
  by (simp add: log_grows_def split: option.split)

lemma log_grows_trans: "log_grows a b \<Longrightarrow> log_grows b c \<Longrightarrow> log_grows a c"
  by (auto simp: log_grows_def split: option.splits)

lemma grows_refl [simp]: "grows r r"
  by (simp add: grows_def)

lemma grows_trans: "grows a b \<Longrightarrow> grows b c \<Longrightarrow> grows a c"
  by (fastforce simp: grows_def intro: log_grows_trans)

lemma quiet_refl [simp]: "quiet r r"
  by (simp add: quiet_def same_env_def same_role_def)

lemma quiet_trans: "quiet a b \<Longrightarrow> quiet b c \<Longrightarrow> quiet a c"
  by (auto simp: quiet_def same_env_def same_role_def intro: grows_trans)

lemma quiet_update [simp]:
  "quiet r (r1\<lparr>rTrk := trk\<rparr>) = quiet r r1"
  "quiet r (r1\<lparr>rReadStates := rs\<rparr>) = quiet r r1"
  "quiet r (r1\<lparr>rReadOnly := ro\<rparr>) = quiet r r1"
  "quiet r (r1\<lparr>rPendingReadIndexMessages := ms\<rparr>) = quiet r r1"
  "quiet r (r1\<lparr>rUncommittedSize := n\<rparr>) = quiet r r1"
  "quiet r (r1\<lparr>rPendingConfIndex := n\<rparr>) = quiet r r1"
  "quiet r (r1\<lparr>rElectionElapsed := k\<rparr>) = quiet r r1"
  "quiet r (r1\<lparr>rHeartbeatElapsed := k\<rparr>) = quiet r r1"
  "quiet r (put_progress r1 i pr) = quiet r r1"
  by (simp_all add: quiet_def same_env_def same_role_def grows_def put_progress_def)

lemma quiet_set_log:
  assumes "quiet r r1" "rRaftLog r1 = Some rl" "log_grows (Some rl) (Some rl')"
  shows "quiet r (r1\<lparr>rRaftLog := Some rl'\<rparr>)"
  using assms
  by (auto simp: quiet_def same_env_def same_role_def grows_def intro: log_grows_trans)

subsection \<open>Rules to walk a block\<close>

definition quiet2 :: "raft \<Rightarrow> raft \<times> 'a \<Rightarrow> bool" where
  "quiet2 r p = quiet r (fst p)"

lemma quiet2_pair [simp]: "quiet2 r (r1, x) = quiet r r1"
  by (simp add: quiet2_def)

named_theorems quiet_rules \<open>introduction rules for ensures with the frame relation\<close>

lemma ensures_bindI:
  "ensures m P \<Longrightarrow> (\<And>x. P x \<Longrightarrow> ensures (g x) Q) \<Longrightarrow> ensures (Option.bind m g) Q"
  by (auto simp: wp elim: ensures_mono)

lemma quiet_bind [quiet_rules]:
  "ensures m (quiet r) \<Longrightarrow> (\<And>r1. quiet r r1 \<Longrightarrow> ensures (g r1) (quiet r)) \<Longrightarrow> ensures (Option.bind m g) (quiet r)"
  by (rule ensures_bindI)

lemma quiet_bind_pair [quiet_rules]:
  "ensures m (quiet r) \<Longrightarrow> (\<And>r1. quiet r r1 \<Longrightarrow> ensures (g r1) (quiet2 r)) \<Longrightarrow> ensures (Option.bind m g) (quiet2 r)"
  by (rule ensures_bindI)

lemma quiet2_bind [quiet_rules]:
  "ensures m (quiet2 r) \<Longrightarrow> (\<And>r1 x. quiet r r1 \<Longrightarrow> ensures (g (r1, x)) (quiet r)) \<Longrightarrow> ensures (Option.bind m g) (quiet r)"
  by (erule ensures_bindI) (auto simp: quiet2_def)

lemma quiet2_bind_pair [quiet_rules]:
  "ensures m (quiet2 r) \<Longrightarrow> (\<And>r1 x. quiet r r1 \<Longrightarrow> ensures (g (r1, x)) (quiet2 r)) \<Longrightarrow> ensures (Option.bind m g) (quiet2 r)"
  by (erule ensures_bindI) (auto simp: quiet2_def)

lemma pure_bind: "(\<And>x. m = Some x \<Longrightarrow> ensures (g x) Q) \<Longrightarrow> ensures (Option.bind m g) Q"
  by (cases m) (simp_all add: wp)

lemma ensures_returnI [quiet_rules]: "Q x \<Longrightarrow> ensures (Some x) Q"
  by (simp add: wp)

lemma ensures_ifI [quiet_rules]:
  "(b \<Longrightarrow> ensures m Q) \<Longrightarrow> (\<not> b \<Longrightarrow> ensures m' Q) \<Longrightarrow> ensures (if b then m else m') Q"
  by simp

lemma ensures_LetI [quiet_rules]: "ensures (f x) Q \<Longrightarrow> ensures (Let x f) Q"
  by (simp add: Let_def)

lemma ensures_prodI [quiet_rules]:
  "(\<And>a b. p = (a, b) \<Longrightarrow> ensures (f a b) Q) \<Longrightarrow> ensures (case p of (a, b) \<Rightarrow> f a b) Q"
  by (cases p) simp

lemma ensures_optionI [quiet_rules]:
  "ensures m Q \<Longrightarrow> (\<And>x. o' = Some x \<Longrightarrow> ensures (f x) Q) \<Longrightarrow> ensures (case o' of None \<Rightarrow> m | Some x \<Rightarrow> f x) Q"
  by (cases o') simp_all

lemma ensures_NoneI [quiet_rules]: "ensures None Q"
  by (simp add: wp)

lemma quiet_foldM [quiet_rules]:
  assumes "quiet r0 r" "\<And>x r. quiet r0 r \<Longrightarrow> ensures (f x r) (quiet r0)"
  shows "ensures (foldM f xs r) (quiet r0)"
  using assms(1)
proof (induction xs arbitrary: r)
  case (Cons x xs)
  show ?case
    by (simp, rule quiet_bind [OF assms(2) [OF Cons.prems]], rule Cons.IH)
qed (simp add: wp)

subsection \<open>The log operations\<close>

lemma commitTo_grows: "ensures (commitTo rl i) (\<lambda>rl'. log_grows (Some rl) (Some rl'))"
proof -
  have "lastIndex (rl\<lparr>lCommitted := i\<rparr>) = lastIndex rl"
    by (simp add: lastIndex_def cong: if_cong)
  then show ?thesis
    by (auto simp: commitTo_def wp ensures_def bind_Some_iff log_grows_def commit_in_def split: if_splits)
qed

lemma log_maybeCommit_grows: "ensures (log_maybeCommit rl i t) (\<lambda>(rl', b). log_grows (Some rl) (Some rl'))"
  using commitTo_grows [of rl i]
  by (auto simp: log_maybeCommit_def ensures_def bind_Some_iff split: if_splits)

lemma maybeAppend_grows:
  "ensures (maybeAppend rl i t c es) (\<lambda>(rl', x). log_grows (Some rl) (Some rl'))"
  using commitTo_grows
  by (auto simp: maybeAppend_def ensures_def bind_Some_iff Let_def log_append_def split: if_splits)

lemma log_restore_grows:
  assumes "sMetadata s = Some md" "lCommitted rl \<le> smIndex md"
  shows "ensures (log_restore rl s) (\<lambda>rl'. log_grows (Some rl) (Some rl'))"
  using assms
  by (auto simp: log_restore_def unstable_restore_def wp log_grows_def commit_in_def lastIndex_def
      maybeLastIndex_def)

subsection \<open>Sending\<close>

lemma send_quiet [quiet_rules]:
  assumes "quiet r0 r" "mType m = MsgVoteResp \<or> mType m = MsgPreVoteResp \<longrightarrow> mReject m"
  shows "ensures (send m r) (quiet r0)"
proof (rule ensures_I)
  fix r' assume "send m r = Some r'"
  then have "quiet r r'"
    using assms(2)
    by (auto simp: send_def Let_def quiet_def same_env_def same_role_def grows_def sent_ok_def split: if_splits)
  with assms(1) show "quiet r0 r'" by (rule quiet_trans)
qed

lemma on_progress_quiet [quiet_rules]:
  "quiet r0 r \<Longrightarrow> ensures (on_progress f i r) (quiet r0)"
  by (auto simp: on_progress_def wp ensures_def bind_Some_iff)

lemma maybeCommit_quiet [quiet_rules]:
  assumes "quiet r0 r"
  shows "ensures (maybeCommit r) (quiet2 r0)"
  using assms log_maybeCommit_grows
  by (fastforce simp: maybeCommit_def ensures_def bind_Some_iff intro: quiet_set_log)

lemma sendTimeoutNow_quiet [quiet_rules]: "quiet r0 r \<Longrightarrow> ensures (sendTimeoutNow to r) (quiet r0)"
  unfolding sendTimeoutNow_def by (rule quiet_rules | simp)+

lemma increaseUncommittedSize_quiet:
  "increaseUncommittedSize es r = (r', b) \<Longrightarrow> quiet r0 r \<Longrightarrow> quiet r0 r'"
  by (auto simp: increaseUncommittedSize_def Let_def split: if_splits)

lemma log_append_same: "log_append rl es = Some (rl', i) \<Longrightarrow> rl' = rl"
  by (auto simp: log_append_def bind_Some_iff)

lemma appendEntry_quiet [quiet_rules]:
  assumes "quiet r0 r"
  shows "ensures (appendEntry es r) (quiet2 r0)"
proof -
  note size = increaseUncommittedSize_quiet [OF _ assms]
  have app: "quiet r0 (r'\<lparr>rRaftLog := Some rl'\<rparr>)"
    if "increaseUncommittedSize x r = (r', b)" "rRaftLog r' = Some rl" "log_append rl y = Some (rl', i)" for x r' b rl rl' y i
    using quiet_set_log [OF size [OF that(1)] that(2)] log_append_same [OF that(3)] by simp
  show ?thesis
    unfolding appendEntry_def
    by (rule quiet_rules pure_bind | (erule size) | (erule app, assumption, assumption) | simp)+
qed

lemma sendSnapshot_quiet [quiet_rules]: "quiet r0 r \<Longrightarrow> ensures (sendSnapshot to pr r) (quiet2 r0)"
  unfolding sendSnapshot_def by (rule quiet_rules pure_bind | assumption | simp)+

lemma maybeSendAppend_quiet [quiet_rules]: "quiet r0 r \<Longrightarrow> ensures (maybeSendAppend to b r) (quiet2 r0)"
  unfolding maybeSendAppend_def by (rule quiet_rules pure_bind | assumption | simp)+

lemma sendAppend_quiet [quiet_rules]: "quiet r0 r \<Longrightarrow> ensures (sendAppend to r) (quiet r0)"
  using maybeSendAppend_quiet [of r0 r to True] by (auto simp: sendAppend_def ensures_def)

lemma sendAppendLoop_quiet [quiet_rules]:
  assumes "quiet r0 r"
  shows "ensures (sendAppendLoop to r) (quiet r0)"
proof (rule ensures_I)
  fix r' assume loop: "sendAppendLoop to r = Some r'"
  have "quiet r r'"
  proof (rule sendAppendLoop.raw_induct [OF _ loop])
    fix f to r r'
    assume IH: "\<And>to r y. f to r = Some y \<Longrightarrow> quiet r y"
      and body: "do { (r, more) \<leftarrow> maybeSendAppend to False r; if more then f to r else Some r } = Some r'"
    from body obtain r1 more where "maybeSendAppend to False r = Some (r1, more)"
      and r': "(if more then f to r1 else Some r1) = Some r'"
      by (auto simp: bind_Some_iff)
    then have "quiet r r1"
      using ensures_D [OF maybeSendAppend_quiet [OF quiet_refl]] by fastforce
    with r' IH [of to r1 r'] show "quiet r r'"
      by (auto intro: quiet_trans split: if_splits)
  qed
  with assms show "quiet r0 r'" by (rule quiet_trans)
qed

lemma bcastAppend_quiet [quiet_rules]: "quiet r0 r \<Longrightarrow> ensures (bcastAppend r) (quiet r0)"
  unfolding bcastAppend_def ProgressTracker_Visit_def by (rule quiet_rules | assumption | simp)+

lemma sendHeartbeat_quiet [quiet_rules]: "quiet r0 r \<Longrightarrow> ensures (sendHeartbeat to ctx r) (quiet r0)"
  unfolding sendHeartbeat_def by (rule quiet_rules pure_bind | assumption | simp)+

lemma bcastHeartbeatWithCtx_quiet [quiet_rules]: "quiet r0 r \<Longrightarrow> ensures (bcastHeartbeatWithCtx ctx r) (quiet r0)"
  unfolding bcastHeartbeatWithCtx_def ProgressTracker_Visit_def by (rule quiet_rules | assumption | simp)+

lemma bcastHeartbeat_quiet [quiet_rules]: "quiet r0 r \<Longrightarrow> ensures (bcastHeartbeat r) (quiet r0)"
  unfolding bcastHeartbeat_def by (rule quiet_rules pure_bind | assumption | simp)+

subsection \<open>Reads, handlers and votes\<close>

lemma respondReadIndex_quiet [quiet_rules]:
  assumes "quiet r0 r"
  shows "ensures (respondReadIndex req index r) (quiet r0)"
proof -
  have "quiet r0 r' \<and> mType resp \<noteq> MsgVoteResp \<and> mType resp \<noteq> MsgPreVoteResp"
    if "responseToReadIndexReq req index r = Some (r', resp)" for r' resp
    using that assms
    by (auto simp: responseToReadIndexReq_def RaftMessage_zero_def bind_Some_iff split: if_splits)
  then show ?thesis
    unfolding respondReadIndex_def
    by (intro pure_bind ensures_prodI ensures_ifI ensures_returnI send_quiet) auto
qed

lemma sendMsgReadIndexResponse_quiet [quiet_rules]:
  "quiet r0 r \<Longrightarrow> ensures (sendMsgReadIndexResponse m r) (quiet r0)"
  unfolding sendMsgReadIndexResponse_def
  by (rule pure_bind)+ (auto intro!: quiet_rules pure_bind split: ReadOnlyOption.split)

lemma releasePendingReadIndexMessages_quiet [quiet_rules]:
  "quiet r0 r \<Longrightarrow> ensures (releasePendingReadIndexMessages r) (quiet r0)"
  unfolding releasePendingReadIndexMessages_def by (rule quiet_rules pure_bind | assumption | simp)+

lemma handleAppendEntries_quiet [quiet_rules]:
  assumes "quiet r0 r"
  shows "ensures (handleAppendEntries m r) (quiet r0)"
proof -
  have log: "quiet r0 (r\<lparr>rRaftLog := Some rl'\<rparr>)"
    if "rRaftLog r = Some rl" "maybeAppend rl i t c es = Some (rl', x)" for rl rl' i t c es x
    using quiet_set_log [OF assms that(1)] ensures_D [OF maybeAppend_grows that(2)] by simp
  show ?thesis
    unfolding handleAppendEntries_def
    by (rule quiet_rules pure_bind | (erule log, assumption) | simp add: assms)+
qed

lemma handleHeartbeat_quiet [quiet_rules]:
  assumes "quiet r0 r"
  shows "ensures (handleHeartbeat m r) (quiet r0)"
proof -
  have commit: "ensures (set_log (\<lambda>rl. commitTo rl (mCommit m)) r) (quiet r0)"
    using commitTo_grows quiet_set_log [OF assms]
    by (fastforce simp: set_log_def ensures_def bind_Some_iff)
  show ?thesis
    unfolding handleHeartbeat_def by (rule commit quiet_rules | assumption | simp)+
qed

lemma restore_quiet [quiet_rules]:
  assumes "quiet r0 r" "rState r = StateFollower"
  shows "ensures (restore s r) (quiet2 r0)"
proof -
  have log: "quiet r0 (r\<lparr>rRaftLog := Some rl2\<rparr>)"
    if "rRaftLog r = Some rl" "sMetadata s = Some md" "\<not> smIndex md \<le> lCommitted rl"
      "(if same then do { log_info r; commitTo rl (smIndex md) } else Some rl) = Some rl1" "log_restore rl1 s = Some rl2"
    for rl rl1 rl2 md same
  proof -
    have "log_grows (Some rl) (Some rl1) \<and> lCommitted rl1 \<le> smIndex md"
      using that(3,4) ensures_D [OF commitTo_grows, of rl "smIndex md" rl1]
      by (auto simp: bind_Some_iff commitTo_def split: if_splits)
    then show ?thesis
      using quiet_set_log [OF assms(1) that(1)] log_grows_trans ensures_D [OF log_restore_grows [OF that(2)] that(5)]
      by blast
  qed
  show ?thesis
    unfolding restore_def
    by (rule quiet_rules pure_bind | (simp only: quiet_update quiet2_pair, erule log, assumption, assumption, assumption, assumption)
        | simp add: assms)+
qed

lemma handleSnapshot_quiet [quiet_rules]:
  assumes "quiet r0 r" "rState r = StateFollower"
  shows "ensures (handleSnapshot m r) (quiet r0)"
  unfolding handleSnapshot_def by (rule quiet_rules pure_bind | assumption | simp add: assms)+

lemma poll_quiet [quiet_rules]: "quiet r0 r \<Longrightarrow> ensures (poll i t v r) (quiet2 r0)"
  unfolding poll_def by (rule quiet_rules pure_bind | assumption | simp)+

lemma sendVoteRequest_quiet [quiet_rules]:
  "quiet r0 r \<Longrightarrow> vt = MsgVote \<or> vt = MsgPreVote \<Longrightarrow> ensures (sendVoteRequest t trm vt i r) (quiet r0)"
  unfolding sendVoteRequest_def by (rule quiet_rules pure_bind | assumption | auto)+

subsection \<open>The leader's handlers\<close>

lemma propConfChange_None [simp]: "propConfChange None i r = Some r"
  by (simp add: propConfChange_def)

lemma leaderProp_quiet [quiet_rules]: "quiet r0 r \<Longrightarrow> ensures (leaderProp m r) (quiet2 r0)"
  unfolding leaderProp_def by (rule quiet_rules pure_bind | assumption | simp)+

lemma leaderReadIndex_quiet [quiet_rules]: "quiet r0 r \<Longrightarrow> ensures (leaderReadIndex m r) (quiet r0)"
  unfolding leaderReadIndex_def by (rule quiet_rules pure_bind | assumption | simp)+

lemma leaderAppRejected_quiet [quiet_rules]: "quiet r0 r \<Longrightarrow> ensures (leaderAppRejected m r) (quiet r0)"
  unfolding leaderAppRejected_def by (rule quiet_rules pure_bind | assumption | simp)+

lemma leaderAppAccepted_quiet [quiet_rules]: "quiet r0 r \<Longrightarrow> ensures (leaderAppAccepted m r) (quiet r0)"
  unfolding leaderAppAccepted_def by (rule quiet_rules pure_bind | assumption | simp)+

lemma leaderHeartbeatResp_quiet [quiet_rules]: "quiet r0 r \<Longrightarrow> ensures (leaderHeartbeatResp m r) (quiet r0)"
  unfolding leaderHeartbeatResp_def by (rule quiet_rules pure_bind | assumption | simp)+

end
