(* ===== verification/Raft_Props.thy ===== *)
theory Raft_Props
  imports Raft_Frames
begin

section \<open>Correctness of the raft state machine\<close>

text \<open>
  What every \<^verbatim>\<open>Step\<close> and every tick keeps. \<open>role_ok\<close> ties the fields of a role together, \<open>moves\<close> is the
  relation between the peer before and after any operation (same identity, log and messages only grow, the
  role stays consistent, the randomised timeout stays in range), and \<open>tv\<close> orders (term, vote): the term does
  not go back and within a term the vote, once cast, is fixed. The theorems lift both from one step to
  executions, and state where the code deviates from what it is meant to do.
\<close>

definition role_ok :: "raft \<Rightarrow> bool" where
  "role_ok r \<longleftrightarrow> rId r \<noteq> 0 \<and>
     (case rState r of
        StateFollower \<Rightarrow> rStep r = Some stepFollowerF \<and> rTick r = Some tickElectionF \<and> rLeadTransferee r = 0
      | StateCandidate \<Rightarrow> rStep r = Some stepCandidateF \<and> rTick r = Some tickElectionF \<and> rLeadTransferee r = 0 \<and>
          rLead r = 0 \<and> rVote r = rId r
      | StateLeader \<Rightarrow> rStep r = Some stepLeaderF \<and> rTick r = Some tickHeartBeatF \<and>
          rLead r = rId r \<and> rVote r = rId r
      | StatePreCandidate \<Rightarrow> False)"

definition timeout_ok :: "raft \<Rightarrow> bool" where
  "timeout_ok r \<longleftrightarrow> intn_ok r \<and> rElectionTimeout r \<le> 2 ^ 62 \<and> rElectionTimeout r \<le> rRandomizedElectionTimeout r \<and>
     rRandomizedElectionTimeout r < 2 * rElectionTimeout r"

definition moves :: "raft \<Rightarrow> raft \<Rightarrow> bool" where
  "moves r r' \<longleftrightarrow> same_env r r' \<and> grows r r' \<and> role_ok r' \<and> (timeout_ok r \<longrightarrow> timeout_ok r')"

definition tv :: "raft \<Rightarrow> raft \<Rightarrow> bool" where
  "tv r r' \<longleftrightarrow> rTerm r < rTerm r' \<or> (rTerm r' = rTerm r \<and> (rVote r \<noteq> 0 \<longrightarrow> rVote r' = rVote r))"

lemma moves_trans: "moves a b \<Longrightarrow> moves b c \<Longrightarrow> moves a c"
  by (auto simp: moves_def same_env_def intro: grows_trans)

lemma tv_refl [simp]: "tv r r"
  by (simp add: tv_def)

lemma tv_trans: "tv a b \<Longrightarrow> tv b c \<Longrightarrow> tv a c"
  by (auto simp: tv_def)

lemma quiet_role: "quiet r r' \<Longrightarrow> role_ok r' = role_ok r"
  by (auto simp: role_ok_def quiet_def same_env_def same_role_def split: StateType.split)

lemma quiet_moves: "role_ok r \<Longrightarrow> quiet r r' \<Longrightarrow> moves r r'"
  by (auto simp: moves_def quiet_role) (auto simp: quiet_def timeout_ok_def intn_ok_def same_env_def same_role_def)

lemma quiet_tv: "quiet r r' \<Longrightarrow> tv r r'"
  by (simp add: tv_def quiet_def same_role_def)

lemma quiet_fields:
  assumes "quiet r r'"
  shows "rTerm r' = rTerm r" "rVote r' = rVote r" "rState r' = rState r" "rId r' = rId r"
  using assms by (simp_all add: quiet_def same_env_def same_role_def)

lemma moves_refl: "role_ok r \<Longrightarrow> moves r r"
  by (rule quiet_moves) simp_all

subsection \<open>Role changes\<close>

lemma random_timeout:
  assumes "intn_ok r" "\<not> rElectionTimeout r \<le> 0" "rElectionTimeout r \<le> 2 ^ 62"
  shows "rElectionTimeout r \<le> go_wrap (rElectionTimeout r + rIntn r k (rElectionTimeout r))"
    "go_wrap (rElectionTimeout r + rIntn r k (rElectionTimeout r)) < 2 * rElectionTimeout r"
proof -
  have "0 \<le> rIntn r k (rElectionTimeout r)" "rIntn r k (rElectionTimeout r) < rElectionTimeout r"
    using assms(1,2) by (simp_all add: intn_ok_def)
  then show "rElectionTimeout r \<le> go_wrap (rElectionTimeout r + rIntn r k (rElectionTimeout r))"
    "go_wrap (rElectionTimeout r + rIntn r k (rElectionTimeout r)) < 2 * rElectionTimeout r"
    using assms(2,3) by (simp_all add: go_wrap_id)
qed

lemma reset_effect:
  assumes "reset t r = Some r'"
  shows "rTerm r' = t" "rVote r' = (if rTerm r = t then rVote r else 0)" "rLead r' = 0" "rLeadTransferee r' = 0"
    "rState r' = rState r" "rStep r' = rStep r" "rTick r' = rTick r" "same_env r r'"
    "rRaftLog r' = rRaftLog r" "rMsgs r' = rMsgs r" "rTrk r' = rTrk r"
    "intn_ok r \<Longrightarrow> rElectionTimeout r \<le> 2 ^ 62 \<Longrightarrow> rElectionTimeout r \<le> rRandomizedElectionTimeout r' \<and> rRandomizedElectionTimeout r' < 2 * rElectionTimeout r"
  using assms
  by (auto simp: reset_def resetRandomizedElectionTimeout_def Intn_def abortLeaderTransfer_def bind_Some_iff
      same_env_def NoneID_def Let_def random_timeout split: if_splits)

lemma becomeFollower_effect:
  assumes "rId r \<noteq> 0"
  shows "ensures (becomeFollower t lead r) (\<lambda>r'. moves r r' \<and> rState r' = StateFollower \<and> rTerm r' = t \<and>
    rVote r' = (if rTerm r = t then rVote r else 0) \<and> rLead r' = lead \<and> rMsgs r' = rMsgs r \<and> rRaftLog r' = rRaftLog r)"
proof (rule ensures_I)
  fix r' assume "becomeFollower t lead r = Some r'"
  then obtain r1 where r1: "reset t (r\<lparr>rStep := Some stepFollowerF\<rparr>) = Some r1"
    and r': "r' = r1\<lparr>rTick := Some tickElectionF, rLead := lead, rState := StateFollower\<rparr>"
    by (auto simp: becomeFollower_def bind_Some_iff Let_def)
  note e = reset_effect [OF r1]
  show "moves r r' \<and> rState r' = StateFollower \<and> rTerm r' = t \<and>
    rVote r' = (if rTerm r = t then rVote r else 0) \<and> rLead r' = lead \<and> rMsgs r' = rMsgs r \<and> rRaftLog r' = rRaftLog r"
    using e assms
    by (auto simp: r' moves_def same_env_def grows_def role_ok_def timeout_ok_def intn_ok_def)
qed

lemma becomeCandidate_effect:
  assumes "rId r \<noteq> 0"
  shows "ensures (becomeCandidate r) (\<lambda>r'. moves r r' \<and> rState r' = StateCandidate \<and> rTerm r' = rTerm r + 1)"
proof (rule ensures_I)
  fix r' assume "becomeCandidate r = Some r'"
  then obtain r1 where r1: "reset (rTerm r + 1) (r\<lparr>rStep := Some stepCandidateF\<rparr>) = Some r1"
    and r': "r' = r1\<lparr>rTick := Some tickElectionF, rVote := rId r1, rState := StateCandidate\<rparr>"
    by (auto simp: becomeCandidate_def bind_Some_iff Let_def split: if_splits)
  note e = reset_effect [OF r1]
  show "moves r r' \<and> rState r' = StateCandidate \<and> rTerm r' = rTerm r + 1"
    using e assms
    by (auto simp: r' moves_def same_env_def grows_def role_ok_def timeout_ok_def intn_ok_def)
qed

lemma becomeLeader_effect:
  assumes "role_ok r"
  shows "ensures (becomeLeader r) (\<lambda>r'. moves r r' \<and> rState r' = StateLeader \<and> rTerm r' = rTerm r \<and> rVote r' = rVote r)"
proof (rule ensures_I)
  fix r' assume "becomeLeader r = Some r'"
  then obtain r1 where "rState r \<noteq> StateFollower" and r1: "reset (rTerm r) (r\<lparr>rStep := Some stepLeaderF\<rparr>) = Some r1"
    and r': "r' = r1\<lparr>rTick := Some tickHeartBeatF, rLead := rId r1, rState := StateLeader\<rparr>"
    by (auto simp: becomeLeader_def bind_Some_iff Let_def split: if_splits)
  moreover from this(1) assms have "rVote r = rId r" "rId r \<noteq> 0"
    by (auto simp: role_ok_def split: StateType.splits)
  ultimately show "moves r r' \<and> rState r' = StateLeader \<and> rTerm r' = rTerm r \<and> rVote r' = rVote r"
    using reset_effect [OF r1]
    by (auto simp: r' moves_def same_env_def grows_def role_ok_def timeout_ok_def intn_ok_def)
qed

text \<open>Both relations at once, the second under a condition.\<close>

definition goes :: "bool \<Rightarrow> raft \<Rightarrow> raft \<Rightarrow> bool" where
  "goes C r r' \<longleftrightarrow> moves r r' \<and> (C \<longrightarrow> tv r r')"

definition goes2 :: "bool \<Rightarrow> raft \<Rightarrow> raft \<times> 'a \<Rightarrow> bool" where
  "goes2 C r p = goes C r (fst p)"

lemma goes2_pair [simp]: "goes2 C r (r1, x) = goes C r r1"
  by (simp add: goes2_def)

lemma goes_refl: "role_ok r \<Longrightarrow> goes C r r"
  by (simp add: goes_def moves_refl)

lemma goes_trans: "goes C a b \<Longrightarrow> goes C b c \<Longrightarrow> goes C a c"
  by (auto simp: goes_def intro: moves_trans tv_trans)

lemma goes_role: "goes C r r' \<Longrightarrow> role_ok r' \<and> rId r' \<noteq> 0"
  by (simp add: goes_def moves_def role_ok_def)

lemma quiet_goes: "role_ok r \<Longrightarrow> quiet r r' \<Longrightarrow> goes C r r'"
  by (simp add: goes_def quiet_moves quiet_tv)

lemma ensures_quiet_goes: "role_ok r \<Longrightarrow> ensures m (quiet r) \<Longrightarrow> ensures m (goes C r)"
  by (auto elim!: ensures_mono intro: quiet_goes)

lemma ensures_quiet2_goes: "role_ok r \<Longrightarrow> ensures m (quiet2 r) \<Longrightarrow> ensures m (goes2 C r)"
  by (auto elim!: ensures_mono simp: quiet2_def goes2_def intro: quiet_goes)

lemma ensures_goes_call: "goes C r r1 \<Longrightarrow> ensures m (goes C r1) \<Longrightarrow> ensures m (goes C r)"
  by (auto elim!: ensures_mono intro: goes_trans)

lemma ensures_goes_bind:
  "ensures m (goes C r) \<Longrightarrow> (\<And>r1. goes C r r1 \<Longrightarrow> role_ok r1 \<Longrightarrow> ensures (g r1) (goes C r1)) \<Longrightarrow>
   ensures (Option.bind m g) (goes C r)"
  by (rule ensures_bindI, assumption, rule ensures_goes_call) (auto dest: goes_role)

subsection \<open>Elections\<close>

lemma becomeLeader_goes: "role_ok r \<Longrightarrow> ensures (becomeLeader r) (goes C r)"
  by (rule ensures_mono [OF becomeLeader_effect]) (auto simp: goes_def tv_def)

lemma becomeCandidate_goes:
  assumes "role_ok r" "C \<longrightarrow> rTerm r \<noteq> - 1"
  shows "ensures (becomeCandidate r) (goes C r)"
  using assms less_plus_one64 [of "rTerm r"]
  by (intro ensures_mono [OF becomeCandidate_effect]) (auto simp: goes_def tv_def role_ok_def)

lemma voteRequests_goes:
  "role_ok r \<Longrightarrow> vt = MsgVote \<or> vt = MsgPreVote \<Longrightarrow>
   ensures (foldM (sendVoteRequest t trm vt) ids r) (goes C r)"
  by (rule ensures_quiet_goes) (auto intro!: quiet_foldM sendVoteRequest_quiet)

lemma poll_bind_goes:
  assumes "role_ok r" "\<And>r1 gr rj res. role_ok r1 \<Longrightarrow> quiet r r1 \<Longrightarrow> ensures (g (r1, gr, rj, res)) (goes C r1)"
  shows "ensures (Option.bind (poll i t v r) g) (goes C r)"
proof (rule ensures_bindI [OF poll_quiet [OF quiet_refl]])
  fix x :: "raft \<times> nat \<times> nat \<times> VoteResult" assume "quiet2 r x"
  then obtain r1 gr rj res where x: "x = (r1, gr, rj, res)" "quiet r r1" by (cases x) auto
  then have "role_ok r1" using quiet_role assms(1) by blast
  with x show "ensures (g x) (goes C r)"
    using ensures_goes_call [OF quiet_goes [OF assms(1) x(2)]] assms(2) by simp
qed

lemma campaignElection_goes:
  assumes "role_ok r"
  shows "ensures (campaign campaignElection r) (goes C r)"
  by (subst campaign.simps, rule pure_bind, simp add: voteRespMsgType_def becomePreCandidate_def,
      rule poll_bind_goes [OF assms])
    (auto intro!: voteRequests_goes becomeLeader_goes)

lemma campaign_goes:
  assumes "role_ok r" "C \<longrightarrow> rTerm r \<noteq> - 1"
  shows "ensures (campaign t r) (goes C r)"
proof (cases "t = campaignElection")
  case False
  have tail: "ensures (do {
       (r, uu, uv, res) \<leftarrow> poll (rId r1) MsgVoteResp True r1;
       if res = VoteWon then if t = campaignPreElection then campaign campaignElection r else becomeLeader r
       else foldM (sendVoteRequest t trm MsgVote) (sort (JointConfig_IDs (tVoters (rTrk r)))) r }) (goes C r1)"
    if "role_ok r1" for r1 trm
    by (rule poll_bind_goes [OF that])
      (auto intro!: voteRequests_goes becomeLeader_goes campaignElection_goes)
  show ?thesis
    by (subst campaign.simps, rule pure_bind)
      (simp add: False voteRespMsgType_def, rule ensures_goes_bind [OF becomeCandidate_goes [OF assms]], rule tail)
qed (use campaignElection_goes assms in simp)

lemma hup_goes:
  assumes "role_ok r" "C \<longrightarrow> rTerm r \<noteq> - 1"
  shows "ensures (hup t r) (goes C r)"
  unfolding hup_def
  by (rule ensures_ifI pure_bind ensures_returnI ensures_prodI ensures_NoneI campaign_goes goes_refl assms)+

subsection \<open>The step functions\<close>

lemma role_ok_vote: "role_ok r \<Longrightarrow> quiet r r' \<Longrightarrow> rVote r = v \<or> (rVote r = 0 \<and> rLead r = 0) \<Longrightarrow>
    goes C r (r'\<lparr>rElectionElapsed := 0, rVote := v\<rparr>)"
  by (auto simp: goes_def tv_def moves_def role_ok_def quiet_def same_env_def same_role_def grows_def timeout_ok_def
      intn_ok_def split: StateType.splits)

lemma stepVote_goes:
  assumes "role_ok r"
  shows "ensures (stepVote m r) (goes C r)"
proof (rule ensures_I)
  fix r' assume call: "stepVote m r = Some r'"
  then obtain t r1 where t: "voteRespMsgType (mType m) = Some t"
    and send: "send (RaftMessage_zero\<lparr>mTo := mFrom m, mTerm := rTerm r, mType := t, mReject := True\<rparr>) r = Some r1"
    and r': "r' = r1 \<or> (mType m = MsgVote \<and> (rVote r = mFrom m \<or> (rVote r = NoneID \<and> rLead r = NoneID)) \<and>
        r' = r1\<lparr>rElectionElapsed := 0, rVote := mFrom m\<rparr>)"
    by (fastforce simp: stepVote_def Let_def bind_Some_iff split: if_splits)
  have "quiet r r1"
    using ensures_D [OF send_quiet [OF quiet_refl] send] by simp
  with r' show "goes C r r'"
    using quiet_goes [OF assms, of r1 C] role_ok_vote [OF assms, of r1 "mFrom m" C] by (auto simp: NoneID_def)
qed

lemma stepTerm_goes:
  assumes "role_ok r"
  shows "ensures (stepTerm m r) (\<lambda>(r', goOn). goes C r r' \<and>
    (goOn \<longrightarrow> (mTerm m = 0 \<and> r' = r) \<or> (mTerm m \<noteq> 0 \<and> rTerm r' \<le> mTerm m)))"
proof -
  have id: "rId r \<noteq> 0" using assms by (simp add: role_ok_def)
  have follower: "ensures (becomeFollower (mTerm m) lead r) (\<lambda>r'. goes C r r' \<and> rTerm r' \<le> mTerm m)"
    if "rTerm r < mTerm m" for lead
    using that by (auto intro!: ensures_mono [OF becomeFollower_effect [OF id]] simp: goes_def tv_def)
  have answer: "ensures (send (RaftMessage_zero\<lparr>mTo := mFrom m, mTerm := t, mType := ty, mReject := True\<rparr>) r) (goes C r)"
    "ensures (send (RaftMessage_zero\<lparr>mTo := mFrom m, mType := MsgAppResp\<rparr>) r) (goes C r)" for t ty
    by (rule ensures_quiet_goes [OF assms], rule send_quiet; simp)+
  show ?thesis
    unfolding stepTerm_def
    using follower answer goes_refl [OF assms, of C]
    by (auto simp: wp Let_def log_info_def not_less intro!: pure_bind elim!: ensures_mono)
qed

lemma leaderTransfer_moves:
  "ensures (leaderTransfer m pr r) (\<lambda>r'. \<exists>x. quiet (r\<lparr>rLeadTransferee := x\<rparr>) r')"
proof -
  have q: "quiet (r\<lparr>rLeadTransferee := x\<rparr>) (r'\<lparr>rElectionElapsed := e, rLeadTransferee := x\<rparr>)"
    "quiet (r\<lparr>rLeadTransferee := x\<rparr>) (r'\<lparr>rLeadTransferee := x\<rparr>)" if "r' = r \<or> r' = abortLeaderTransfer r" for x e r'
    using that by (auto simp: quiet_def same_env_def same_role_def grows_def abortLeaderTransfer_def)
  have send: "ensures (sendTimeoutNow to r1) (\<lambda>r'. \<exists>x. quiet (r\<lparr>rLeadTransferee := x\<rparr>) r')"
    "ensures (sendAppend to r1) (\<lambda>r'. \<exists>x. quiet (r\<lparr>rLeadTransferee := x\<rparr>) r')"
    if "quiet (r\<lparr>rLeadTransferee := x\<rparr>) r1" for to r1 x
    using that by (auto intro!: exI ensures_mono [OF sendTimeoutNow_quiet [OF that]] ensures_mono [OF sendAppend_quiet [OF that]])
  have same: "\<exists>x. quiet (r\<lparr>rLeadTransferee := x\<rparr>) r"
    by (rule exI [of _ "rLeadTransferee r"]) simp
  have aborted: "\<exists>x. quiet (r\<lparr>rLeadTransferee := x\<rparr>) (abortLeaderTransfer r)"
    by (rule exI [of _ NoneID]) (simp add: abortLeaderTransfer_def)
  show ?thesis
    unfolding leaderTransfer_def using same aborted send [OF q(1)]
    by (auto simp: wp Let_def intro!: pure_bind)
qed

lemma ensures_goes_pair: "ensures m (goes C r) \<Longrightarrow> ensures (Option.bind m (\<lambda>r. Some (r, x))) (goes2 C r)"
  by (auto simp: wp elim: ensures_mono)

lemma ensures_goes2_return: "goes C r r1 \<Longrightarrow> ensures (Some (r1, x)) (goes2 C r)"
  by (simp add: wp)

lemma leader_transferee_goes:
  assumes "role_ok r" "rState r = StateLeader" "quiet (r\<lparr>rLeadTransferee := x\<rparr>) r'"
  shows "goes C r r'"
proof -
  have "goes C r (r\<lparr>rLeadTransferee := x\<rparr>)"
    using assms(1,2) by (simp add: goes_def tv_def moves_def role_ok_def same_env_def grows_def timeout_ok_def intn_ok_def)
  moreover from this have "role_ok (r\<lparr>rLeadTransferee := x\<rparr>)" by (simp add: goes_role)
  ultimately show ?thesis
    using assms(3) quiet_goes goes_trans by blast
qed

lemma stepLeader_goes:
  assumes "role_ok r" "rState r = StateLeader"
  shows "ensures (stepLeader m r) (goes2 C r)"
proof -
  note q = ensures_quiet_goes [OF assms(1)] ensures_quiet2_goes [OF assms(1)]
  have transfer: "ensures (leaderTransfer m pr r) (goes C r)" for pr
    using ensures_mono [OF leaderTransfer_moves] leader_transferee_goes [OF assms] by blast
  have resp: "ensures (let r = put_progress r (mFrom m) pr in
      (if mReject m then leaderAppRejected m r else leaderAppAccepted m r) \<bind> (\<lambda>r. Some (r, None))) (goes2 C r)" for pr
    unfolding Let_def by (rule ensures_goes_pair q quiet_rules | simp)+
  have unreach: "ensures (if b then on_progress Progress_BecomeProbe (mFrom m) r else Some r) (goes C r)" for b
    by (rule q quiet_rules | simp)+
  have other: "ensures (Option.bind (Logf (rLogger r)) (\<lambda>_. Some (r, x))) (goes2 C r)" "ensures (Some (r, x)) (goes2 C r)" for x
    by (auto simp: wp intro: goes_refl assms(1))
  have unreach': "ensures (do { r \<leftarrow> if b then on_progress Progress_BecomeProbe (mFrom m) r else Some r; Logf (rLogger r); Some (r, x) }) (goes2 C r)" for b x
    by (rule ensures_bindI [OF unreach]) (simp add: wp)
  show ?thesis
    unfolding stepLeader_def
    by (simp split: MessageType.split option.split add: other resp unreach' ensures_goes_pair [OF transfer])
      (intro conjI impI allI ensures_goes_pair q quiet_rules; simp)
qed

lemma stepFollower_goes:
  assumes "role_ok r" "rState r = StateFollower" "C \<longrightarrow> rTerm r \<noteq> - 1"
  shows "ensures (stepFollower m r) (goes2 C r)"
proof -
  let ?r = "r\<lparr>rElectionElapsed := 0, rLead := mFrom m\<rparr>"
  have lead: "goes C r ?r" "rState ?r = StateFollower"
    using assms(1,2) by (simp_all add: goes_def tv_def moves_def role_ok_def same_env_def grows_def timeout_ok_def intn_ok_def)
  then have role: "role_ok ?r" by (simp only: goes_role)
  have handlers: "ensures (handleHeartbeat m ?r) (goes C r)" "ensures (handleSnapshot m ?r) (goes C r)"
    by (rule ensures_goes_call [OF lead(1)], rule ensures_quiet_goes [OF role],
        rule handleHeartbeat_quiet handleSnapshot_quiet, simp_all add: lead(2) del: quiet_update)+
  have send: "ensures (send (m\<lparr>mTo := x\<rparr>) r) (goes C r)" if "mType m \<in> {MsgProp, MsgTransferLeader, MsgReadIndex}" for x
    using that by (intro ensures_quiet_goes [OF assms(1)] send_quiet) auto
  have read: "goes C r (r\<lparr>rReadStates := x\<rparr>)" for x
    by (rule quiet_goes [OF assms(1)]) simp
  show ?thesis
    unfolding stepFollower_def
    using handlers send read lead(1) goes_refl [OF assms(1), of C] hup_goes [OF assms(1,3)]
    by (auto simp: wp split: MessageType.split intro!: pure_bind ensures_goes_pair elim!: ensures_mono)
qed

text \<open>A candidate that hears from a leader becomes its follower and handles the message as one.\<close>

lemma becomeFollower_goes:
  "C \<longrightarrow> rTerm r \<le> t \<Longrightarrow> rId r \<noteq> 0 \<Longrightarrow>
   ensures (becomeFollower t lead r) (\<lambda>r'. goes C r r' \<and> role_ok r' \<and> rState r' = StateFollower)"
  by (auto intro!: ensures_mono [OF becomeFollower_effect] simp: goes_def tv_def moves_def)

lemma follow_and_handle_goes:
  assumes "rId r \<noteq> 0" "C \<longrightarrow> rTerm r \<le> t" "\<And>r1. rState r1 = StateFollower \<Longrightarrow> ensures (h r1) (quiet r1)"
  shows "ensures (do { r \<leftarrow> becomeFollower t lead r; r \<leftarrow> h r; Some (r, None) }) (goes2 C r)"
proof (rule ensures_bindI [OF becomeFollower_goes [OF assms(2,1)]])
  fix r1 assume r1: "goes C r r1 \<and> role_ok r1 \<and> rState r1 = StateFollower"
  then have "ensures (h r1) (goes C r1)"
    using assms(3) by (intro ensures_quiet_goes) auto
  with r1 have "ensures (h r1) (goes C r)"
    by (blast intro: ensures_goes_call)
  then show "ensures (h r1 \<bind> (\<lambda>r. Some (r, None))) (goes2 C r)"
    by (rule ensures_goes_pair)
qed

text \<open>What follows the verdict of an election.\<close>

lemma verdict_goes:
  assumes "role_ok r"
  shows "ensures (case res of VotePending \<Rightarrow> Some r | VoteLost \<Rightarrow> becomeFollower (rTerm r) NoneID r
    | VoteWon \<Rightarrow> if rState r = StatePreCandidate then campaign campaignElection r
       else becomeLeader r \<bind> bcastAppend) (goes C r)"
proof -
  have "ensures (do { r \<leftarrow> becomeLeader r; bcastAppend r }) (goes C r)"
    by (rule ensures_goes_bind [OF becomeLeader_goes [OF assms]], rule ensures_quiet_goes, assumption, rule bcastAppend_quiet) simp
  moreover have "ensures (becomeFollower (rTerm r) NoneID r) (goes C r)"
    using assms by (intro ensures_mono [OF becomeFollower_goes]) (auto simp: role_ok_def)
  ultimately show ?thesis
    using campaignElection_goes [OF assms] goes_refl [OF assms] by (auto simp: wp split: VoteResult.split)
qed

lemma poll_verdict_goes:
  assumes "role_ok r"
  shows "ensures (do { (r, gr, rj, res) \<leftarrow> poll i t v r; Logf (rLogger r);
    r \<leftarrow> (case res of VotePending \<Rightarrow> Some r | VoteLost \<Rightarrow> becomeFollower (rTerm r) NoneID r
      | VoteWon \<Rightarrow> if rState r = StatePreCandidate then campaign campaignElection r
         else becomeLeader r \<bind> bcastAppend); Some (r, None) }) (goes2 C r)"
proof -
  have "ensures (poll i t v r \<bind> (\<lambda>(r, gr, rj, res). Logf (rLogger r) \<bind>
     (\<lambda>_. (case res of VotePending \<Rightarrow> Some r | VoteLost \<Rightarrow> becomeFollower (rTerm r) NoneID r
       | VoteWon \<Rightarrow> if rState r = StatePreCandidate then campaign campaignElection r
          else becomeLeader r \<bind> bcastAppend)))) (goes C r)"
    by (rule poll_bind_goes [OF assms]) (use verdict_goes in \<open>simp add: wp\<close>)
  from ensures_goes_pair [OF this] show ?thesis
    by (simp add: case_prod_unfold)
qed

lemma stepCandidate_goes:
  assumes "role_ok r" "C \<longrightarrow> mType m \<in> {MsgApp, MsgHeartbeat, MsgSnap} \<longrightarrow> rTerm r \<le> mTerm m"
  shows "ensures (stepCandidate m r) (goes2 C r)"
proof -
  have id: "rId r \<noteq> 0" using assms(1) by (simp add: role_ok_def)
  have drop: "ensures (Option.bind (Logf (rLogger r)) (\<lambda>_. Some (r, x))) (goes2 C r)" "ensures (Some (r, x)) (goes2 C r)" for x
    by (auto simp: wp intro: goes_refl assms(1))
  show ?thesis
    unfolding stepCandidate_def Let_def
    by (intro ensures_ifI drop poll_verdict_goes [OF assms(1)] follow_and_handle_goes [OF id])
      (use assms(2) in \<open>auto intro!: handleAppendEntries_quiet handleHeartbeat_quiet handleSnapshot_quiet\<close>)
qed

subsection \<open>Step and the ticks\<close>

text \<open>
  The messages for which (term, vote) is known to move forward. A candidate that is stepped a message of
  the leader with term 0 falls back to term 0, and the two largest terms overflow.
\<close>

definition forward :: "RaftMessage \<Rightarrow> raft \<Rightarrow> bool" where
  "forward m r \<longleftrightarrow> rTerm r \<noteq> - 1 \<and> mTerm m \<noteq> - 1 \<and>
     \<not> (rState r = StateCandidate \<and> mTerm m = 0 \<and> 0 < rTerm r \<and> mType m \<in> {MsgApp, MsgHeartbeat, MsgSnap})"

lemma role_ok_step:
  "role_ok r \<Longrightarrow> rStep r = Some stepLeaderF \<longleftrightarrow> rState r = StateLeader"
  "role_ok r \<Longrightarrow> rStep r = Some stepFollowerF \<longleftrightarrow> rState r = StateFollower"
  "role_ok r \<Longrightarrow> rStep r = Some stepCandidateF \<longleftrightarrow> rState r = StateCandidate"
  by (auto simp: role_ok_def split: StateType.splits)

lemma callStep_goes:
  assumes "role_ok r" "C \<longrightarrow> rTerm r \<noteq> - 1"
    "C \<longrightarrow> rState r = StateCandidate \<longrightarrow> mType m \<in> {MsgApp, MsgHeartbeat, MsgSnap} \<longrightarrow> rTerm r \<le> mTerm m"
  shows "ensures (callStep m r) (goes2 C r)"
  using stepLeader_goes [OF assms(1)] stepFollower_goes [OF assms(1) _ assms(2)] stepCandidate_goes [OF assms(1), of C m]
    role_ok_step [OF assms(1)] assms(3)
  by (auto simp: callStep_def wp split: option.split StepFunc.split)

lemma Step_goes:
  assumes "role_ok r" "C \<longrightarrow> forward m r"
  shows "ensures (Step m r) (goes2 C r)"
  unfolding Step_def
proof (rule ensures_bindI [OF stepTerm_goes [OF assms(1), of m C]])
  fix x assume x: "case x of (r', goOn) \<Rightarrow> goes C r r' \<and>
    (goOn \<longrightarrow> (mTerm m = 0 \<and> r' = r) \<or> (mTerm m \<noteq> 0 \<and> rTerm r' \<le> mTerm m))"
  obtain r1 goOn where p: "x = (r1, goOn)" by (cases x)
  have r1: "goes C r r1" "role_ok r1" using x p goes_role by auto
  have term1: "C \<longrightarrow> rTerm r1 \<noteq> - 1" if goOn
    using x p that assms(2) by (auto simp: forward_def word_order.extremum_unique)
  have cand: "C \<longrightarrow> rState r1 = StateCandidate \<longrightarrow> mType m \<in> {MsgApp, MsgHeartbeat, MsgSnap} \<longrightarrow> rTerm r1 \<le> mTerm m" if goOn
    using x p that assms(2) by (auto simp: forward_def word_gt_0)
  have call: "ensures n (goes2 C r)" if "ensures n (goes2 C r1)" for n :: "(raft \<times> Err option) option"
    using that r1(1) by (auto elim!: ensures_mono simp: goes2_def intro: goes_trans)
  show "ensures (case x of (r, goOn) \<Rightarrow>
      if \<not> goOn then Some (r, None)
      else if mType m = MsgHup then do {
        r \<leftarrow> (if rPreVote r then hup campaignPreElection r else hup campaignElection r);
        Some (r, None)
      }
      else if mType m = MsgVote \<or> mType m = MsgPreVote then do { r \<leftarrow> stepVote m r; Some (r, None) }
      else callStep m r) (goes2 C r)"
    unfolding p prod.case
    by (intro ensures_ifI ensures_goes2_return r1(1) call ensures_goes_pair hup_goes [OF r1(2)] stepVote_goes [OF r1(2)]
        callStep_goes [OF r1(2)] term1 cand) simp_all
qed

lemma stepLogged_goes:
  assumes "role_ok r" "C \<longrightarrow> forward m r"
  shows "ensures (stepLogged m r) (goes C r)"
  unfolding stepLogged_def using Step_goes [OF assms]
  by (auto simp: wp goes2_def elim!: ensures_mono)

lemma goes_timer [simp]:
  "goes C r (r1\<lparr>rElectionElapsed := k\<rparr>) = goes C r r1" "goes C r (r1\<lparr>rHeartbeatElapsed := k\<rparr>) = goes C r r1"
  by (auto simp: goes_def tv_def moves_def role_ok_def same_env_def grows_def timeout_ok_def intn_ok_def
      split: StateType.splits)

lemma tickElection_goes:
  assumes "role_ok r" "C \<longrightarrow> rTerm r \<noteq> - 1"
  shows "ensures (tickElection r) (goes C r)"
proof -
  let ?r = "r\<lparr>rElectionElapsed := rElectionElapsed r + 1\<rparr>"
  have r1: "goes C r ?r" "goes C r (?r\<lparr>rElectionElapsed := 0\<rparr>)"
    using assms(1) by (simp_all add: goes_refl)
  have "ensures (stepLogged (RaftMessage_zero\<lparr>mFrom := rId ?r, mType := MsgHup\<rparr>) (?r\<lparr>rElectionElapsed := 0\<rparr>)) (goes C r)"
    using assms(2) goes_role [OF r1(2)]
    by (intro ensures_goes_call [OF r1(2)] stepLogged_goes) (auto simp: forward_def RaftMessage_zero_def)
  then show ?thesis
    using r1(1) by (simp add: tickElection_def wp)
qed

lemma stepLogged_CheckQuorum:
  assumes "role_ok r" "rState r = StateLeader"
  shows "stepLogged (RaftMessage_zero\<lparr>mFrom := i, mType := MsgCheckQuorum\<rparr>) r = Some r"
  using assms
  by (simp add: stepLogged_def Step_def stepTerm_def callStep_def role_ok_def stepLeader_def RaftMessage_zero_def)

lemma tickHeartBeat_goes:
  assumes "role_ok r" "rState r = StateLeader" "C \<longrightarrow> rTerm r \<noteq> - 1"
  shows "ensures (tickHeartBeat r) (goes C r)"
proof -
  have same: "goes C r r" by (rule goes_refl [OF assms(1)])
  have transfer: "goes C r (r1\<lparr>rLeadTransferee := x\<rparr>)" if "goes C r r1" "rState r1 = StateLeader" for r1 x
    using that goes_role [OF that(1)] leader_transferee_goes [of r1 x _ C] by (auto intro: goes_trans)
  have beat: "ensures (stepLogged (RaftMessage_zero\<lparr>mFrom := i, mType := MsgBeat\<rparr>) r1) (goes C r)"
    if "goes C r r1" "rTerm r1 = rTerm r" for i r1
    using that assms(3) goes_role [OF that(1)]
    by (intro ensures_goes_call [OF that(1)] stepLogged_goes) (auto simp: forward_def RaftMessage_zero_def)
  have role: "role_ok (r\<lparr>rHeartbeatElapsed := h, rElectionElapsed := e\<rparr>)" for h e
    using goes_role [of C r "r\<lparr>rHeartbeatElapsed := h, rElectionElapsed := e\<rparr>"] same by simp
  note quorum = stepLogged_CheckQuorum [OF role]
  show ?thesis
    unfolding tickHeartBeat_def
    by (auto simp: wp Let_def quorum assms(2) abortLeaderTransfer_def same intro!: beat transfer)
qed

lemma callTick_goes:
  assumes "role_ok r" "C \<longrightarrow> rTerm r \<noteq> - 1"
  shows "ensures (callTick r) (goes C r)"
  using assms tickElection_goes [OF assms] tickHeartBeat_goes [OF assms(1) _ assms(2)]
  by (auto simp: callTick_def role_ok_def wp split: option.split TickFunc.split StateType.splits)

subsection \<open>Executions\<close>

text \<open>
  One transition of a peer: its driver steps a message or ticks, and the call returns. With \<open>C\<close> the
  message is one that moves the term forward.
\<close>

inductive raft_next :: "bool \<Rightarrow> raft \<Rightarrow> raft \<Rightarrow> bool" for C where
  next_step: "Step m r = Some (r', err) \<Longrightarrow> C \<longrightarrow> forward m r \<Longrightarrow> raft_next C r r'"
| next_tick: "callTick r = Some r' \<Longrightarrow> C \<longrightarrow> rTerm r \<noteq> - 1 \<Longrightarrow> raft_next C r r'"

lemma raft_next_goes:
  assumes "raft_next C r r'" "role_ok r"
  shows "goes C r r'"
  using assms(1)
proof cases
  case (next_step m err)
  then show ?thesis
    using ensures_D [OF Step_goes [OF assms(2) next_step(2)] next_step(1)] by simp
next
  case next_tick
  then show ?thesis
    using ensures_D [OF callTick_goes [OF assms(2)]] by blast
qed

lemma raft_run_goes: "(raft_next C)\<^sup>*\<^sup>* r r' \<Longrightarrow> role_ok r \<Longrightarrow> goes C r r'"
proof (induction rule: rtranclp_induct)
  case (step y z)
  then show ?case
    using goes_role [of C r y] raft_next_goes [of C y z] by (blast intro: goes_trans)
qed (rule goes_refl)

text \<open>A follower of a three-peer group at term 5 over the sample log.\<close>

definition pr_sample :: Progress where
  "pr_sample = \<lparr>pMatch = 0, pNext = 1, pState = StateProbe, pPendingSnapshot = 0, pRecentActive = True, pProbeSent = False,
     pInflights = Some (NewInflights 4), pIsLearner = False\<rparr>"

definition raft_sample :: raft where
  "raft_sample = (raft_zero (\<lambda>k n. 0))\<lparr>rId := 1, rTerm := 5, rElectionTimeout := 10, rHeartbeatTimeout := 1,
     rRandomizedElectionTimeout := 12, rTick := Some tickElectionF, rStep := Some stepFollowerF, rLogger := Some (),
     rRaftLog := Some rl_sample, rReadOnly := Some (newReadOnly ReadOnlySafe),
     rTrk := \<lparr>tVoters = ([1, 2, 3], []), tProgress = [(1, pr_sample), (2, pr_sample), (3, pr_sample)], tVotes = Some [],
              tMaxInflight = 4\<rparr>\<rparr>"

lemma raft_sample_ok: "role_ok raft_sample" "timeout_ok raft_sample"
  by (simp_all add: role_ok_def timeout_ok_def intn_ok_def raft_sample_def raft_zero_def)

text \<open>The vote request of peer 2 for term 6, with an up-to-date log.\<close>

definition vote_sample :: RaftMessage where
  "vote_sample = RaftMessage_zero\<lparr>mType := MsgVote, mFrom := 2, mTo := 1, mTerm := 6, mIndex := 4, mLogTerm := 3\<rparr>"

lemma raft_sample_votes: "\<exists>r'. Step vote_sample raft_sample = Some (r', None) \<and> rTerm r' = 6 \<and> rVote r' = 2 \<and>
    rMsgs r' = [RaftMessage_zero\<lparr>mTo := 2, mFrom := 1, mTerm := 6, mType := MsgVoteResp, mReject := True\<rparr>]"
  using ms_log_reads [OF rl_sample_facts(1)]
  by (simp add: Step_def stepTerm_def stepVote_def vote_sample_def raft_sample_def raft_zero_def RaftMessage_zero_def
      becomeFollower_def reset_def resetRandomizedElectionTimeout_def Intn_def abortLeaderTransfer_def Let_def
      CampaignType_bytes_def bytes_of_def on_log_def isUpToDate_def rl_sample_facts rl_sample_terms voteRespMsgType_def
      log_info_def send_def NoneID_def)

lemma raft_sample_run: "\<exists>r'. (raft_next C)\<^sup>*\<^sup>* raft_sample r' \<and> rTerm r' = 6 \<and> rVote r' = 2"
proof -
  have "forward vote_sample raft_sample"
    by (simp add: forward_def vote_sample_def raft_sample_def raft_zero_def)
  then show ?thesis
    using raft_sample_votes next_step [of vote_sample raft_sample _ None C] by blast
qed

subsection \<open>Safety along executions\<close>

text \<open>
  C5: roles stay consistent. In every state that steps and ticks reach, the step and the tick function are those
  of the role, a leader names itself as leader, leaders and candidates have voted for themselves, only a leader
  has a transfer target, the empty role \<^verbatim>\<open>StatePreCandidate\<close> is never entered, the id never changes, and, for an \<^verbatim>\<open>electionTimeout\<close> of at
  most \<open>2 ^ 62\<close>, the randomised election timeout stays in \<open>[electionTimeout, 2 * electionTimeout)\<close>. Beyond this bound the sum in
  \<^verbatim>\<open>resetRandomizedElectionTimeout\<close> can overflow.
\<close>

theorem raft_roles_consistent:
  assumes "(raft_next False)\<^sup>*\<^sup>* r r'" "role_ok r"
  shows "role_ok r' \<and> rId r' = rId r \<and> (timeout_ok r \<longrightarrow> timeout_ok r')"
  using raft_run_goes [OF assms] by (simp add: goes_def moves_def same_env_def)

theorem raft_roles_consistent_witness:
  "\<exists>r'. (raft_next False)\<^sup>*\<^sup>* raft_sample r' \<and> rTerm r' = 6 \<and> role_ok r' \<and> timeout_ok r'"
  using raft_roles_consistent [OF _ raft_sample_ok(1)] raft_sample_run raft_sample_ok(2) by blast

text \<open>
  C2: what is committed stays committed. Along every execution the commit index of a peer never goes back, it
  never passes the end of its log once it lies within it, and neither the storage it reads nor the applied
  index is touched.
\<close>

theorem raft_commit_monotone:
  assumes "(raft_next False)\<^sup>*\<^sup>* r r'" "role_ok r" "rRaftLog r = Some rl"
  shows "\<exists>rl'. rRaftLog r' = Some rl' \<and> lCommitted rl \<le> lCommitted rl' \<and> (commit_in rl \<longrightarrow> commit_in rl') \<and>
    lStorage rl' = lStorage rl \<and> lApplied rl' = lApplied rl"
  using raft_run_goes [OF assms(1,2)] assms(3)
  by (auto simp: goes_def moves_def grows_def log_grows_def split: option.splits)

theorem raft_commit_monotone_witness:
  "\<exists>r' rl'. (raft_next False)\<^sup>*\<^sup>* raft_sample r' \<and> rTerm r' = 6 \<and> rRaftLog r' = Some rl' \<and> 1 \<le> lCommitted rl' \<and> commit_in rl'"
proof -
  obtain r' where r': "(raft_next False)\<^sup>*\<^sup>* raft_sample r'" "rTerm r' = 6" using raft_sample_run by blast
  have "rRaftLog raft_sample = Some rl_sample" "commit_in rl_sample"
    by (simp_all add: raft_sample_def commit_in_def ms_log_reads [OF rl_sample_facts(1)] rl_sample_facts word_nat)
  with raft_commit_monotone [OF r'(1) raft_sample_ok(1)] r' show ?thesis
    by (auto simp: rl_sample_facts)
qed

text \<open>
  C1: one vote per term. Along an execution in which no candidate is stepped a leader message without a term,
  the term never goes back, and as long as the term is the same a vote that was cast is not changed.
\<close>

theorem raft_one_vote_per_term:
  assumes "(raft_next True)\<^sup>*\<^sup>* r r'" "role_ok r"
  shows "rTerm r \<le> rTerm r' \<and> (rTerm r' = rTerm r \<and> rVote r \<noteq> 0 \<longrightarrow> rVote r' = rVote r)"
  using raft_run_goes [OF assms] by (auto simp: goes_def tv_def)

theorem raft_one_vote_per_term_witness:
  "\<exists>r'. (raft_next True)\<^sup>*\<^sup>* raft_sample r' \<and> rTerm raft_sample \<le> rTerm r' \<and> rVote r' = 2"
  using raft_one_vote_per_term [OF _ raft_sample_ok(1)] raft_sample_run by blast

text \<open>
  C6: the outgoing messages. Along every execution messages are only added at the end of \<^verbatim>\<open>msgs\<close>, a message carries a
  term exactly when it is a vote request or a vote response, and every response to a vote or pre-vote
  request is a rejection: no peer ever grants a vote.
\<close>

theorem raft_messages_append_and_never_grant:
  assumes "(raft_next False)\<^sup>*\<^sup>* r r'" "role_ok r"
  shows "\<exists>ms. rMsgs r' = rMsgs r @ ms \<and>
    (\<forall>m \<in> set ms. (mTerm m \<noteq> 0 \<longleftrightarrow> mType m = MsgVote \<or> mType m = MsgVoteResp) \<and>
      (mType m = MsgVoteResp \<or> mType m = MsgPreVoteResp \<longrightarrow> mReject m))"
  using raft_run_goes [OF assms]
  by (auto simp: goes_def moves_def grows_def list_all_iff sent_ok_def)

theorem raft_messages_append_and_never_grant_witness:
  "\<exists>r'. (raft_next False)\<^sup>*\<^sup>* raft_sample r' \<and> rVote r' = 2 \<and> (\<exists>ms. rMsgs r' = rMsgs raft_sample @ ms)"
  using raft_messages_append_and_never_grant [OF _ raft_sample_ok(1)] raft_sample_run by blast

end
