(* ===== verification/Raft_Behaviour.thy ===== *)
theory Raft_Behaviour
  imports Raft_Props
begin

section \<open>What single operations of a peer do\<close>

text \<open>
  The functional behaviour of heartbeats, of the answer to an append request, of the replication loop, of
  elections and of the constructor. Several of these theorems pin down where \<^verbatim>\<open>src/raft/raft.go\<close> does not do what
  its names and comments announce.
\<close>

subsection \<open>Heartbeats\<close>

definition heartbeat_to :: "bytes \<Rightarrow> raft \<Rightarrow> raftLog \<Rightarrow> uint64 \<Rightarrow> RaftMessage" where
  "heartbeat_to ctx r rl i = RaftMessage_zero\<lparr>mTo := i, mFrom := rId r, mType := MsgHeartbeat,
     mCommit := min (pMatch (the (progress r i))) (lCommitted rl), mContext := ctx\<rparr>"

lemma heartbeats_eq:
  assumes "rRaftLog r = Some rl" "\<forall>i \<in> set ids. progress r i \<noteq> None"
  shows "foldM (\<lambda>i r. if i = rId r then Some r else sendHeartbeat i ctx r) ids r =
    Some (r\<lparr>rMsgs := rMsgs r @ map (heartbeat_to ctx r rl) (filter (\<lambda>i. i \<noteq> rId r) ids)\<rparr>)"
  using assms
proof (induction ids arbitrary: r)
  case (Cons i ids)
  then obtain pr where pr: "progress r i = Some pr" by auto
  have same: "heartbeat_to ctx (r\<lparr>rMsgs := ms\<rparr>) rl = heartbeat_to ctx r rl" "progress (r\<lparr>rMsgs := ms\<rparr>) j = progress r j" for ms j
    by (simp_all add: heartbeat_to_def progress_def fun_eq_iff)
  show ?case
    using Cons.prems Cons.IH [of "r\<lparr>rMsgs := rMsgs r @ [heartbeat_to ctx r rl i]\<rparr>"] Cons.IH [of r] pr
    by (auto simp: sendHeartbeat_def send_def same RaftMessage_zero_def NoneID_def heartbeat_to_def)
qed simp

text \<open>
  C24: a heartbeat broadcast sends exactly one heartbeat to every other tracked peer, in ascending order of the ids,
  whatever the order of the progress map; each carries the commit index cut down to what that peer is known
  to have. Nothing else of the peer changes.
\<close>

theorem bcastHeartbeat_reaches_all:
  assumes "rRaftLog r = Some rl" "gomap_ok (tProgress (rTrk r))"
  shows "bcastHeartbeatWithCtx ctx r = Some (r\<lparr>rMsgs := rMsgs r @
    map (heartbeat_to ctx r rl) (filter (\<lambda>i. i \<noteq> rId r) (sorted_list_of_set (dom (progress r))))\<rparr>)"
proof -
  have dom: "dom (map_of (tProgress (rTrk r))) = dom (progress r)"
    by (auto simp: progress_def)
  have ids: "Visit_ids (rTrk r) = sorted_list_of_set (dom (progress r))"
    using Visit_ids_eq [OF assms(2)] by (simp add: dom)
  have "finite (dom (progress r))"
    unfolding dom [symmetric] by (rule finite_dom_map_of)
  then have "\<forall>i \<in> set (Visit_ids (rTrk r)). progress r i \<noteq> None"
    by (auto simp: ids)
  then show ?thesis
    using heartbeats_eq [OF assms(1)] by (simp add: bcastHeartbeatWithCtx_def ProgressTracker_Visit_def ids)
qed

theorem bcastHeartbeat_reaches_all_witness:
  "\<exists>r'. bcastHeartbeatWithCtx [] raft_sample = Some r' \<and> map mTo (rMsgs r') = [2, 3] \<and> map mCommit (rMsgs r') = [0, 0]"
proof -
  have r: "rRaftLog raft_sample = Some rl_sample" "gomap_ok (tProgress (rTrk raft_sample))" "rMsgs raft_sample = []"
    "rId raft_sample = 1"
    by (simp_all add: raft_sample_def raft_zero_def gomap_ok_def gomap_keys_def)
  have prog: "progress raft_sample = [1 \<mapsto> pr_sample, 2 \<mapsto> pr_sample, 3 \<mapsto> pr_sample]"
    by (auto simp: progress_def raft_sample_def)
  have "dom (progress raft_sample) = {1, 2, 3}" by (auto simp: prog)
  moreover have "sorted_list_of_set {1, 2, 3 :: uint64} = [1, 2, 3]"
    by (simp add: insort_key.simps word_nat)
  ultimately show ?thesis
    using bcastHeartbeat_reaches_all [OF r(1,2), of "[]"]
    by (simp add: r(3,4) heartbeat_to_def prog pr_sample_def rl_sample_facts)
qed

subsection \<open>The answer to an append request\<close>

lemma send_eq:
  assumes "mFrom m = 0" "mTerm m = 0" "mType m \<noteq> MsgVote" "mType m \<noteq> MsgVoteResp"
  shows "send m r = Some (r\<lparr>rMsgs := rMsgs r @ [m\<lparr>mFrom := rId r\<rparr>]\<rparr>)"
  using assms by (simp add: send_def NoneID_def Let_def)

text \<open>
  C22: how a follower answers \<^verbatim>\<open>MsgApp\<close> in \<^verbatim>\<open>handleAppendEntries\<close>. A request that starts below the commit index is answered with the
  commit index. Otherwise, when the log has no entry of the given term at the given index, the answer is a
  rejection whose hint is the largest index up to the request and to the end of the log with a term not above the
  leader's, together with the term there; the log does not change. Exactly one message is sent.
\<close>

theorem handleAppendEntries_answers:
  assumes "ms_log ms rl" "rRaftLog r = Some rl" "lLogger rl \<noteq> None" "rLogger r \<noteq> None" "lg_term ms rl 0 = 0"
    and "mIndex m < lCommitted rl \<or> lg_term ms rl (mIndex m) \<noteq> mLogTerm m"
  shows "\<exists>a. handleAppendEntries m r = Some (r\<lparr>rMsgs := rMsgs r @ [a]\<rparr>) \<and> mType a = MsgAppResp \<and> mTo a = mFrom m \<and>
    (if mIndex m < lCommitted rl then mIndex a = lCommitted rl \<and> \<not> mReject a
     else mReject a \<and> mIndex a = mIndex m \<and> mRejectHint a \<le> min (mIndex m) (rl_last rl) \<and>
       mLogTerm a = lg_term ms rl (mRejectHint a) \<and> mLogTerm a \<le> mLogTerm m \<and>
       (\<forall>j. mRejectHint a < j \<and> j \<le> min (mIndex m) (rl_last rl) \<longrightarrow> mLogTerm m < lg_term ms rl j))"
proof -
  let ?h = "min (mIndex m) (rl_last rl)"
  have "returns (findConflictByTerm rl ?h (mLogTerm m)) (\<lambda>x. x \<le> ?h \<and> lg_term ms rl x \<le> mLogTerm m \<and>
      (\<forall>j. x < j \<and> j \<le> ?h \<longrightarrow> mLogTerm m < lg_term ms rl j))"
    using memory.log_conflictLoop [OF ms_logD [OF assms(1)], of "mLogTerm m" ?h] assms(5)
    by (simp add: findConflictByTerm_def ms_log_reads [OF assms(1)] lg_term_def)
  then obtain x where x: "findConflictByTerm rl ?h (mLogTerm m) = Some x" "x \<le> ?h" "lg_term ms rl x \<le> mLogTerm m"
    "\<forall>j. x < j \<and> j \<le> ?h \<longrightarrow> mLogTerm m < lg_term ms rl j"
    by (auto simp: returns_def)
  show ?thesis
  proof (cases "mIndex m < lCommitted rl")
    case True
    let ?a = "RaftMessage_zero\<lparr>mTo := mFrom m, mType := MsgAppResp, mIndex := lCommitted rl\<rparr>"
    have "handleAppendEntries m r = send ?a r"
      using True by (simp add: handleAppendEntries_def assms(2))
    then show ?thesis
      using True by (intro exI [of _ "?a\<lparr>mFrom := rId r\<rparr>"]) (simp add: send_eq RaftMessage_zero_def)
  next
    case False
    let ?a = "RaftMessage_zero\<lparr>mTo := mFrom m, mType := MsgAppResp, mIndex := mIndex m, mReject := True,
                                         mRejectHint := x, mLogTerm := lg_term ms rl x\<rparr>"
    have "maybeAppend rl (mIndex m) (mLogTerm m) (mCommit m) (mEntries m) = Some (rl, 0, False)"
      using assms(6) False by (simp add: maybeAppend_def ms_log_reads [OF assms(1)])
    moreover obtain u where "Logf (rLogger r) = Some u" using assms(4) by auto
    moreover have same: "r\<lparr>rRaftLog := Some rl\<rparr> = r" using assms(2) by (cases r) simp
    ultimately have "handleAppendEntries m r = send ?a r"
      using False x(1) assms(2)
      by (simp add: handleAppendEntries_def ms_log_reads [OF assms(1)] zeroTermOnErrCompacted_def) (simp only: same)
    then show ?thesis
      using False x(2-4) by (intro exI [of _ "?a\<lparr>mFrom := rId r\<rparr>"]) (simp add: send_eq RaftMessage_zero_def)
  qed
qed

theorem handleAppendEntries_answers_witness:
  "\<exists>a. handleAppendEntries (RaftMessage_zero\<lparr>mFrom := 2, mIndex := 7, mLogTerm := 2\<rparr>) raft_sample =
     Some (raft_sample\<lparr>rMsgs := rMsgs raft_sample @ [a]\<rparr>) \<and> mReject a \<and> mRejectHint a \<le> 4 \<and> mLogTerm a \<le> 2"
proof -
  let ?m = "RaftMessage_zero\<lparr>mFrom := 2, mIndex := 7, mLogTerm := 2\<rparr>"
  have "rRaftLog raft_sample = Some rl_sample" "rLogger raft_sample = Some ()"
    by (simp_all add: raft_sample_def)
  moreover have "lg_term ms_sample rl_sample 7 = 0"
    by (simp add: lg_term_def rl_term0_def rl_sample_facts)
  moreover have "min 7 4 = (4 :: uint64)" "\<not> 7 < (1 :: uint64)" by (simp_all add: min_def word_nat)
  ultimately show ?thesis
    using handleAppendEntries_answers [OF rl_sample_facts(1), of raft_sample ?m]
    by (auto simp: rl_sample_facts rl_sample_terms RaftMessage_zero_def)
qed

subsection \<open>The replication loop\<close>

text \<open>A peer whose log is over a memory storage and that tracks the progress \<open>pr\<close> of \<open>to\<close>.\<close>

definition tracks :: "MemoryStorage \<Rightarrow> raftLog \<Rightarrow> uint64 \<Rightarrow> Progress \<Rightarrow> raft \<Rightarrow> bool" where
  "tracks ms rl to pr r \<longleftrightarrow> ms_log ms rl \<and> rRaftLog r = Some rl \<and> progress r to = Some pr \<and> progress_ok pr"

lemma ms_log_last: "ms_log ms rl \<Longrightarrow> unat (rl_last rl + 1) = unat (rl_last rl) + 1"
  using log_bounds(4) [OF ms_logD(3)] memory.index_bounds [OF ms_logD(1)] by blast

lemma log_entries_tail:
  assumes "ms_log ms rl"
  shows "log_entries rl i n =
    Some (if rl_last rl < i then ([], None) else if i < lg_first ms rl then ([], Some ErrCompacted)
          else (span (lg_entry ms rl) i (rl_last rl + 1), None))"
proof (cases "rl_last rl < i")
  case False
  then have "i \<le> rl_last rl + 1" using ms_log_last [OF assms] by (simp add: word_nat)
  then show ?thesis
    using False memory.log_slice_eq [OF ms_logD [OF assms], of i "rl_last rl + 1" n]
    by (auto simp: log_entries_def ms_log_reads [OF assms] lg_first_def lg_entry_def log_slice_def
        log_mustCheckOutOfBounds_def leD)
qed (simp add: log_entries_def ms_log_reads [OF assms])

text \<open>Nothing is sent to a follower that is paused, has everything, or needs entries that are compacted.\<close>

definition nothing_to_send :: "MemoryStorage \<Rightarrow> raftLog \<Rightarrow> Progress \<Rightarrow> bool" where
  "nothing_to_send ms rl pr \<longleftrightarrow> Progress_IsPaused pr = Some True \<or> rl_last rl < pNext pr \<or> pNext pr < lg_first ms rl"

text \<open>The append request with the whole tail of the log.\<close>

definition append_to :: "MemoryStorage \<Rightarrow> raftLog \<Rightarrow> uint64 \<Rightarrow> Progress \<Rightarrow> uint64 \<Rightarrow> RaftMessage" where
  "append_to ms rl to pr from = RaftMessage_zero\<lparr>mFrom := from, mTo := to, mType := MsgApp, mIndex := pNext pr - 1,
     mLogTerm := lg_term ms rl (pNext pr - 1), mEntries := span (lg_entry ms rl) (pNext pr) (rl_last rl + 1),
     mCommit := lCommitted rl\<rparr>"

lemma maybeSendAppend_stops:
  assumes "tracks ms rl to pr r" "nothing_to_send ms rl pr"
  shows "maybeSendAppend to False r = Some (r, False)"
proof -
  obtain b where "Progress_IsPaused pr = Some b"
    using IsPaused_returns assms(1) by (auto simp: tracks_def)
  then show ?thesis
    using assms by (auto simp: nothing_to_send_def tracks_def maybeSendAppend_def on_log_def ms_log_reads log_entries_tail)
qed

lemma sentEntries_spec:
  assumes "progress_ok pr" "Progress_IsPaused pr = Some False" "ents \<noteq> []"
  shows "returns (sentEntries ents pr) (\<lambda>pr'. progress_ok pr' \<and>
    (Progress_IsPaused pr' = Some True \<or> pNext pr' = eIndex (last ents) + 1))"
proof -
  have nth: "go_nth ents (int (length ents) - 1) = Some (last ents)"
    using assms(3) by (simp add: go_nth_def last_conv_nth nat_diff_distrib Suc_leI)
  obtain ins where ins: "pInflights pr = Some ins" "inflights_ok ins"
    using assms(1) by (auto simp: progress_ok_def split: option.splits)
  show ?thesis
  proof (cases "pState pr")
    case StateProbe
    then show ?thesis
      using assms(1,3) by (auto simp: sentEntries_def wp Progress_IsPaused_def progress_ok_def split: option.splits)
  next
    case StateReplicate
    then have "\<not> Inflights_Full ins"
      using assms(2) ins by (simp add: Progress_IsPaused_def)
    from Inflights_Add_spec [OF ins(2) this, of "eIndex (last ents)"] show ?thesis
      using StateReplicate assms(1,3) ins nth
      by (auto simp: sentEntries_def wp Progress_OptimisticUpdate_def progress_ok_def Let_def elim!: returns_mono)
  next
    case StateSnapshot
    then show ?thesis using assms(2) by (simp add: Progress_IsPaused_def)
  qed
qed

lemma put_progress_reads [simp]:
  "progress (put_progress r i pr) i = Some pr" "rRaftLog (put_progress r i pr) = rRaftLog r"
  "rMsgs (put_progress r i pr) = rMsgs r" "rId (put_progress r i pr) = rId r"
  by (simp_all add: put_progress_def progress_def)

lemma progress_msgs [simp]: "progress (r\<lparr>rMsgs := ms\<rparr>) = progress r"
  by (simp add: progress_def fun_eq_iff)

lemma last_span:
  assumes "ms_log ms rl" "lg_first ms rl \<le> i" "i \<le> rl_last rl"
  shows "span (lg_entry ms rl) i (rl_last rl + 1) \<noteq> []"
    "eIndex (last (span (lg_entry ms rl) i (rl_last rl + 1))) = rl_last rl"
proof -
  have n: "unat (rl_last rl + 1 - i) = Suc (unat (rl_last rl - i))"
    using assms(3) ms_log_last [OF assms(1)] by (simp add: unat_sub word_le_nat_alt Suc_diff_le)
  then show "span (lg_entry ms rl) i (rl_last rl + 1) \<noteq> []" by (simp add: span_def)
  have "last (span (lg_entry ms rl) i (rl_last rl + 1)) = lg_entry ms rl (rl_last rl)"
    by (simp add: span_def n)
  then show "eIndex (last (span (lg_entry ms rl) i (rl_last rl + 1))) = rl_last rl"
    using assms memory.log_entry_index [OF ms_logD(1,3) [OF assms(1)], of "rl_last rl"]
    by (simp add: lg_entry_def lg_first_def)
qed

lemma maybeSendAppend_sends:
  assumes "tracks ms rl to pr r" "\<not> nothing_to_send ms rl pr"
  shows "\<exists>r' pr'. maybeSendAppend to False r = Some (r', True) \<and> tracks ms rl to pr' r' \<and>
    rMsgs r' = rMsgs r @ [append_to ms rl to pr (rId r)] \<and> (Progress_IsPaused pr' = Some True \<or> rl_last rl < pNext pr')"
proof -
  let ?es = "span (lg_entry ms rl) (pNext pr) (rl_last rl + 1)"
  have t: "ms_log ms rl" "rRaftLog r = Some rl" "progress r to = Some pr" "progress_ok pr"
    using assms(1) by (auto simp: tracks_def)
  note send = assms(2) [unfolded nothing_to_send_def]
  have paused: "Progress_IsPaused pr = Some False" using IsPaused_returns [OF t(4)] send by auto
  have es: "?es \<noteq> []" "eIndex (last ?es) = rl_last rl" using last_span [OF t(1)] send by auto
  obtain pr' where pr': "sentEntries ?es pr = Some pr'" "progress_ok pr'"
    "Progress_IsPaused pr' = Some True \<or> pNext pr' = rl_last rl + 1"
    using sentEntries_spec [OF t(4) paused es(1)] by (auto simp: returns_def es(2))
  have lt: "rl_last rl < rl_last rl + 1" using ms_log_last [OF t(1)] by (simp add: word_less_nat_alt)
  define r1 where "r1 = (put_progress r to pr')\<lparr>rMsgs := rMsgs r @ [append_to ms rl to pr (rId r)]\<rparr>"
  have "send (RaftMessage_zero\<lparr>mTo := to, mType := MsgApp, mIndex := pNext pr - 1, mLogTerm := lg_term ms rl (pNext pr - 1),
      mEntries := ?es, mCommit := lCommitted rl\<rparr>) (put_progress r to pr') = Some r1"
    unfolding r1_def append_to_def by (simp add: send_eq RaftMessage_zero_def)
  then have "maybeSendAppend to False r = Some (r1, True)"
    using send es(1) paused t(2,3) pr'(1)
    by (simp add: maybeSendAppend_def on_log_def on_progress_def ms_log_reads [OF t(1)] log_entries_tail [OF t(1)])
  moreover have "rRaftLog r1 = Some rl" "progress r1 to = Some pr'" "rMsgs r1 = rMsgs r @ [append_to ms rl to pr (rId r)]"
    unfolding r1_def using t(2) by simp_all
  moreover from this have "tracks ms rl to pr' r1"
    using t(1) pr'(2) by (simp only: tracks_def simp_thms)
  moreover have "Progress_IsPaused pr' = Some True \<or> rl_last rl < pNext pr'"
    using pr'(3) lt by metis
  ultimately show ?thesis by blast
qed

text \<open>
  C23: the replication loop \<^verbatim>\<open>for r.maybeSendAppend(m.From, false)\<close> ends, for every tracked follower with a
  well-formed progress, without panicking. It changes nothing when the follower is paused, has the whole log or needs compacted entries;
  otherwise it sends exactly one message, an append request with the whole tail of the log from the next
  index on, and leaves the follower paused or with nothing more to send.
\<close>

theorem sendAppendLoop_ends:
  assumes "tracks ms rl to pr r"
  shows "\<exists>r' pr'. sendAppendLoop to r = Some r' \<and> tracks ms rl to pr' r' \<and>
    (if nothing_to_send ms rl pr then r' = r
     else rMsgs r' = rMsgs r @ [append_to ms rl to pr (rId r)] \<and> (Progress_IsPaused pr' = Some True \<or> rl_last rl < pNext pr'))"
proof (cases "nothing_to_send ms rl pr")
  case True
  then show ?thesis
    using assms maybeSendAppend_stops [OF assms] by (auto simp: sendAppendLoop.simps [of to r])
next
  case False
  then obtain r1 pr1 where r1: "maybeSendAppend to False r = Some (r1, True)" "tracks ms rl to pr1 r1"
    "rMsgs r1 = rMsgs r @ [append_to ms rl to pr (rId r)]" "Progress_IsPaused pr1 = Some True \<or> rl_last rl < pNext pr1"
    using maybeSendAppend_sends [OF assms] by blast
  from r1(4) have "nothing_to_send ms rl pr1"
    by (auto simp: nothing_to_send_def)
  then have "sendAppendLoop to r = Some r1"
    using r1(1) maybeSendAppend_stops [OF r1(2)] by (simp add: sendAppendLoop.simps [of to r] sendAppendLoop.simps [of to r1])
  then show ?thesis
    using False r1(2-4) by auto
qed

theorem sendAppendLoop_ends_witness: "\<exists>r' pr'. sendAppendLoop 2 raft_sample = Some r' \<and> tracks ms_sample rl_sample 2 pr' r'"
proof -
  have "tracks ms_sample rl_sample 2 pr_sample raft_sample"
    using NewInflights_ok [of 4]
    by (simp add: tracks_def rl_sample_facts progress_def raft_sample_def progress_ok_def pr_sample_def)
  from sendAppendLoop_ends [OF this] show ?thesis by blast
qed

subsection \<open>Where the code departs from the protocol\<close>

text \<open>
  \<^verbatim>\<open>newRaft\<close> never returns. A configuration that \<^verbatim>\<open>validate\<close> rejects panics, and so does every other one: the struct
  is built without a logger and \<^verbatim>\<open>becomeFollower\<close> logs through it.
\<close>

lemma newRaft_None: "newRaft intn c = None"
  by (cases "newRaft intn c")
    (auto simp: newRaft_def becomeFollower_def Let_def bind_Some_iff raft_zero_def reset_def
      resetRandomizedElectionTimeout_def Intn_def abortLeaderTransfer_def split: if_splits)

text \<open>
  Without pre-vote a follower cannot start an election. When another voter is configured, \<^verbatim>\<open>campaign\<close> with
  \<^verbatim>\<open>campaignElection\<close> takes the branch written for pre-elections and panics on every path: if its own vote wins, in
  \<^verbatim>\<open>becomeLeader\<close> (a follower may not become leader), otherwise in \<^verbatim>\<open>send\<close> (a pre-vote request must not carry a term).
\<close>

theorem campaignElection_panics:
  assumes "rState r = StateFollower" "rTerm r \<noteq> - 1" "i \<in> set (JointConfig_IDs (tVoters (rTrk r)))" "i \<noteq> rId r"
  shows "campaign campaignElection r = None"
proof -
  have send: "sendVoteRequest campaignElection (rTerm r + 1) MsgPreVote j r1 = (if j = rId r1 then Some r1 else None)" for j r1
  proof -
    have "rTerm r + 1 \<noteq> 0" using assms(2) by (simp add: add_eq_0_iff2)
    then have "send (RaftMessage_zero\<lparr>mTerm := rTerm r + 1, mTo := j, mType := MsgPreVote, mIndex := a, mLogTerm := b, mContext := c\<rparr>) r1 = None" for a b c
      by (simp add: send_def RaftMessage_zero_def Let_def)
    then show ?thesis
      by (simp add: sendVoteRequest_def bind_eq_None_conv)
  qed
  have loop: "foldM (sendVoteRequest campaignElection (rTerm r + 1) MsgPreVote) ids r1 = None"
    if "j \<in> set ids" "j \<noteq> rId r1" for ids r1 j
    using that by (induction ids) (auto simp: send)
  have tail: "(if res = VoteWon then becomeLeader r1
      else foldM (sendVoteRequest campaignElection (rTerm r + 1) MsgPreVote) (sort (JointConfig_IDs (tVoters (rTrk r1)))) r1) = None"
    if "poll (rId r) MsgPreVoteResp True r = Some (r1, gr, rj, res)" for r1 gr rj res
  proof -
    have "rId r1 = rId r" "rState r1 = rState r" "tVoters (rTrk r1) = tVoters (rTrk r)"
      using that by (auto simp: poll_def bind_Some_iff ProgressTracker_RecordVote_def split: if_splits option.splits)
    then show ?thesis
      using assms loop [of i] by (auto simp: becomeLeader_def)
  qed
  show ?thesis
  proof (cases "poll (rId r) MsgPreVoteResp True r")
    case None
    then show ?thesis
      by (subst campaign.simps) (simp add: becomePreCandidate_def voteRespMsgType_def)
  next
    case (Some p)
    obtain r1 gr rj res where p: "p = (r1, gr, rj, res)" by (cases p) auto
    show ?thesis
      using tail [OF Some [unfolded p]]
      by (subst campaign.simps)
        (simp add: becomePreCandidate_def voteRespMsgType_def Some [unfolded p] bind_eq_None_conv split: if_splits)
  qed
qed

theorem campaignElection_panics_witness: "campaign campaignElection raft_sample = None"
  by (rule campaignElection_panics [of raft_sample 2])
    (simp_all add: raft_sample_def raft_zero_def JointConfig_IDs_def)

lemma reset_returns: "0 < rElectionTimeout r \<Longrightarrow> \<exists>r'. reset t r = Some r'"
  by (cases "rTerm r = t") (auto simp: reset_def resetRandomizedElectionTimeout_def Intn_def)

lemma becomeFollower_returns:
  assumes "0 < rElectionTimeout r" "rLogger r \<noteq> None"
  shows "\<exists>r'. becomeFollower t lead r = Some r'"
proof -
  obtain r1 where "reset t (r\<lparr>rStep := Some stepFollowerF\<rparr>) = Some r1"
    using reset_returns [of "r\<lparr>rStep := Some stepFollowerF\<rparr>"] assms(1) by auto
  moreover from reset_effect(8) [OF this] have "rLogger r1 \<noteq> None" using assms(2) by (simp add: same_env_def)
  ultimately show ?thesis by (auto simp: becomeFollower_def Let_def)
qed

text \<open>
  A candidate forgets its term. The messages of a leader carry no term (\<^verbatim>\<open>send\<close> refuses one), and a candidate that
  is stepped a heartbeat follows its sender at the term of the message: whatever term it had reached, it is
  at term 0 afterwards and its vote is erased.
\<close>

theorem candidate_heartbeat_resets_term:
  assumes "role_ok r" "rState r = StateCandidate" "rTerm r \<noteq> 0" "rLogger r \<noteq> None" "0 < rElectionTimeout r"
    and "rRaftLog r = Some rl" "mType m = MsgHeartbeat" "mTerm m = 0" "mCommit m \<le> lCommitted rl"
  shows "\<exists>r'. Step m r = Some (r', None) \<and> rTerm r' = 0 \<and> rVote r' = 0 \<and> rState r' = StateFollower \<and> rLead r' = mFrom m"
proof -
  have step: "rStep r = Some stepCandidateF" using assms(1,2) by (simp add: role_ok_def)
  obtain r1 where r1: "becomeFollower 0 (mFrom m) r = Some r1"
    using becomeFollower_returns [OF assms(5,4)] by blast
  have e: "rState r1 = StateFollower" "rTerm r1 = 0" "rVote r1 = 0" "rLead r1 = mFrom m" "rRaftLog r1 = Some rl"
    using ensures_D [OF becomeFollower_effect r1] assms(1,3,6) by (auto simp: role_ok_def)
  have "set_log (\<lambda>rl. commitTo rl (mCommit m)) r1 = Some (r1\<lparr>rRaftLog := Some rl\<rparr>)"
    using assms(9) e(5) by (simp add: set_log_def commitTo_def leD)
  then have "handleHeartbeat m r1 = Some (r1\<lparr>rRaftLog := Some rl, rMsgs := rMsgs r1 @
      [RaftMessage_zero\<lparr>mTo := mFrom m, mType := MsgHeartbeatResp, mContext := mContext m, mFrom := rId r1\<rparr>]\<rparr>)"
    by (simp add: handleHeartbeat_def send_eq RaftMessage_zero_def)
  then show ?thesis
    using assms(7,8) step r1 e by (simp add: Step_def stepTerm_def callStep_def stepCandidate_def)
qed

definition candidate_sample :: raft where
  "candidate_sample = raft_sample\<lparr>rState := StateCandidate, rStep := Some stepCandidateF, rVote := 1\<rparr>"

theorem candidate_heartbeat_resets_term_witness:
  "\<exists>r'. Step (RaftMessage_zero\<lparr>mType := MsgHeartbeat, mFrom := 3\<rparr>) candidate_sample = Some (r', None) \<and>
     rTerm candidate_sample = 5 \<and> rTerm r' = 0"
proof -
  have c: "role_ok candidate_sample" "rState candidate_sample = StateCandidate" "rTerm candidate_sample = 5"
    "rLogger candidate_sample = Some ()" "0 < rElectionTimeout candidate_sample" "rRaftLog candidate_sample = Some rl_sample"
    by (simp_all add: candidate_sample_def raft_sample_def raft_zero_def role_ok_def)
  then show ?thesis
    using candidate_heartbeat_resets_term [OF c(1,2) _ _ c(5,6), of "RaftMessage_zero\<lparr>mType := MsgHeartbeat, mFrom := 3\<rparr>"]
    by (auto simp: RaftMessage_zero_def)
qed

text \<open>
  A follower ignores the entries it is sent. Stepping \<^verbatim>\<open>MsgApp\<close> on a follower resets the election timer and notes the
  leader, but neither changes the log nor answers, whatever the entries of the message and whatever the
  log holds: \<^verbatim>\<open>handleAppendEntries\<close> is not called.
\<close>

theorem follower_ignores_entries:
  assumes "role_ok r" "rState r = StateFollower" "mType m = MsgApp" "mTerm m = 0 \<or> mTerm m = rTerm r"
  shows "Step m r = Some (r\<lparr>rElectionElapsed := 0, rLead := mFrom m\<rparr>, None)"
  using assms by (auto simp: Step_def stepTerm_def callStep_def stepFollower_def role_ok_def)

theorem follower_ignores_entries_witness:
  "\<exists>r'. Step (RaftMessage_zero\<lparr>mType := MsgApp, mFrom := 2, mIndex := 4, mLogTerm := 3, mEntries := [entry_of 5 5]\<rparr>) raft_sample =
     Some (r', None) \<and> rRaftLog r' = rRaftLog raft_sample \<and> rMsgs r' = rMsgs raft_sample"
  using follower_ignores_entries [OF raft_sample_ok(1), of
      "RaftMessage_zero\<lparr>mType := MsgApp, mFrom := 2, mIndex := 4, mLogTerm := 3, mEntries := [entry_of 5 5]\<rparr>"]
  by (simp add: raft_sample_def raft_zero_def RaftMessage_zero_def)

end
