(* ===== verification/Raw_Node.thy ===== *)
theory Raw_Node
  imports Raft_Behaviour
begin

section \<open>RawNode and the node's event loop\<close>

text \<open>
  \<^verbatim>\<open>src/raft/rawnode.go\<close>, \<^verbatim>\<open>node.go\<close>, \<^verbatim>\<open>status.go\<close> and \<^verbatim>\<open>bootstrap.go\<close>: the driver of a peer. \<^verbatim>\<open>RawNode\<close> wraps the peer and remembers
  the soft and hard state last handed out; \<^verbatim>\<open>node.run\<close> is a goroutine that selects among channels. The loop is the
  step relation \<open>node_step\<close>: its state holds the local variables of \<^verbatim>\<open>run\<close>, a channel that may be nil is a flag, and
  each rule is one iteration that ends in the named case of the \<^verbatim>\<open>select\<close> (a case on a nil channel is never
  taken). Panics make the peer's function return \<^term>\<open>None\<close>, so that no rule applies.
\<close>

subsection \<open>States handed to the application\<close>

(* raft/node.go 59-61 SoftState.equal *)
definition SoftState_equal :: "SoftState \<Rightarrow> SoftState option \<Rightarrow> bool option" where
  "SoftState_equal s b = do { b \<leftarrow> b; Some (ssLead s = ssLead b \<and> ssRaftState s = ssRaftState b) }"

(* raft/node.go 62-64 isHardStateEqual *)
definition isHardStateEqual :: "HardState \<Rightarrow> HardState \<Rightarrow> bool" where
  "isHardStateEqual a b \<longleftrightarrow> hTerm a = hTerm b \<and> hVote a = hVote b \<and> hCommit a = hCommit b"

(* raft/node.go 65-67 IsEmptyHardState *)
definition IsEmptyHardState :: "HardState \<Rightarrow> bool" where
  "IsEmptyHardState st = isHardStateEqual st HardState_zero"

(* raft/node.go 97-119 Ready *)
record Ready =
  rySoftState :: "SoftState option"
  ryHardState :: HardState
  ryReadStates :: "ReadState list"
  ryEntries :: "Entry list"
  rySnapshot :: Snapshot
  ryCommittedEntries :: "Entry list"
  ryMessages :: "RaftMessage list"
  ryMustSync :: bool

(* raft/node.go 97-119 Ready *)
definition Ready_zero :: Ready where
  "Ready_zero = \<lparr>rySoftState = None, ryHardState = HardState_zero, ryReadStates = [], ryEntries = [],
     rySnapshot = Snapshot_zero, ryCommittedEntries = [], ryMessages = [], ryMustSync = False\<rparr>"

(* raft/node.go 121-127 newReady *)
definition newReady :: "raft \<Rightarrow> SoftState option \<Rightarrow> HardState \<Rightarrow> Ready option" where
  "newReady r prevSoftSt preHardSt = do {
     rl \<leftarrow> rRaftLog r;
     Some (Ready_zero\<lparr>ryEntries := unstableEntries rl\<rparr>)
   }"

(* raft/raft.go 207-209 raft.advance *)
definition raft_advance :: "Ready \<Rightarrow> raft \<Rightarrow> raft" where
  "raft_advance rd r = r"

subsection \<open>RawNode\<close>

(* raft/rawnode.go 10-14 RawNode *)
record RawNode =
  rnRaft :: raft
  rnPrevSoftSt :: "SoftState option"
  rnPreHardSt :: HardState

(* raft/rawnode.go 16-22 NewRawNode *)
definition NewRawNode :: "(nat \<Rightarrow> int \<Rightarrow> int) \<Rightarrow> Config \<Rightarrow> (RawNode \<times> Err option) option" where
  "NewRawNode intn config = do {
     r \<leftarrow> newRaft intn config;
     Some (\<lparr>rnRaft = r, rnPrevSoftSt = None, rnPreHardSt = HardState_zero\<rparr>, None)
   }"

text \<open>A call of \<^verbatim>\<open>Step\<close> on the wrapped peer.\<close>

definition stepRaft :: "RaftMessage \<Rightarrow> RawNode \<Rightarrow> (RawNode \<times> Err option) option" where
  "stepRaft m rn = do { (r, err) \<leftarrow> Step m (rnRaft rn); Some (rn\<lparr>rnRaft := r\<rparr>, err) }"

(* raft/rawnode.go 24-26 RawNode.Tick *)
definition RawNode_Tick :: "RawNode \<Rightarrow> RawNode option" where
  "RawNode_Tick rn = do { r \<leftarrow> callTick (rnRaft rn); Some (rn\<lparr>rnRaft := r\<rparr>) }"

(* raft/rawnode.go 27-29 RawNode.TickQuiesced *)
definition RawNode_TickQuiesced :: "RawNode \<Rightarrow> RawNode" where
  "RawNode_TickQuiesced rn =
     rn\<lparr>rnRaft := (rnRaft rn)\<lparr>rElectionElapsed := rElectionElapsed (rnRaft rn) + 1\<rparr>\<rparr>"

(* raft/rawnode.go 30-34 RawNode.Campaign *)
definition RawNode_Campaign :: "RawNode \<Rightarrow> (RawNode \<times> Err option) option" where
  "RawNode_Campaign rn = stepRaft (RaftMessage_zero\<lparr>mType := MsgHup\<rparr>) rn"

(* raft/rawnode.go 37-45 RawNode.Propose *)
definition RawNode_Propose :: "bytes \<Rightarrow> RawNode \<Rightarrow> (RawNode \<times> Err option) option" where
  "RawNode_Propose data rn =
     stepRaft (RaftMessage_zero\<lparr>mType := MsgProp, mFrom := rId (rnRaft rn), mEntries := [Entry_zero\<lparr>eData := data\<rparr>]\<rparr>) rn"

(* raft/rawnode.go 47-50 RawNode.ProposeConfChange *)
definition RawNode_ProposeConfChange :: "ConfChange \<Rightarrow> RawNode \<Rightarrow> RawNode \<times> Err option" where
  "RawNode_ProposeConfChange cc rn = (rn, None)"

(* raft/rawnode.go 51-59 RawNode.Step *)
definition RawNode_Step :: "RaftMessage \<Rightarrow> RawNode \<Rightarrow> (RawNode \<times> Err option) option" where
  "RawNode_Step m rn =
     (if IsLocalMsg (mType m) then Some (rn, Some ErrStepLocalMsg)
      else if progress (rnRaft rn) (mFrom m) \<noteq> None \<or> \<not> IsResponseMsg (mType m) then stepRaft m rn
      else Some (rn, Some ErrStepPeerNotFound))"

(* raft/rawnode.go 66-68 RawNode.readyWithoutAccept *)
definition readyWithoutAccept :: "RawNode \<Rightarrow> Ready option" where
  "readyWithoutAccept rn = newReady (rnRaft rn) (rnPrevSoftSt rn) (rnPreHardSt rn)"

(* raft/rawnode.go 82-90 RawNode.acceptReady *)
definition acceptReady :: "Ready \<Rightarrow> RawNode \<Rightarrow> RawNode" where
  "acceptReady rd rn =
     (let rn = (if rySoftState rd \<noteq> None then rn\<lparr>rnPrevSoftSt := rySoftState rd\<rparr> else rn);
          r = rnRaft rn;
          r = (if length (ryReadStates rd) \<noteq> 0 then r\<lparr>rReadStates := []\<rparr> else r)
      in rn\<lparr>rnRaft := r\<lparr>rMsgs := []\<rparr>\<rparr>)"

(* raft/rawnode.go 61-65 RawNode.Ready *)
definition RawNode_Ready :: "RawNode \<Rightarrow> (RawNode \<times> Ready) option" where
  "RawNode_Ready rn = do { rd \<leftarrow> readyWithoutAccept rn; Some (acceptReady rd rn, rd) }"

(* raft/rawnode.go 69-71 RawNode.TransferLeader *)
definition RawNode_TransferLeader :: "uint64 \<Rightarrow> RawNode \<Rightarrow> RawNode option" where
  "RawNode_TransferLeader transferee rn =
     map_option fst (stepRaft (RaftMessage_zero\<lparr>mType := MsgTransferLeader, mFrom := transferee\<rparr>) rn)"

(* raft/rawnode.go 73-75 RawNode.ReadIndex *)
definition RawNode_ReadIndex :: "bytes \<Rightarrow> RawNode \<Rightarrow> RawNode option" where
  "RawNode_ReadIndex rctx rn =
     map_option fst (stepRaft (RaftMessage_zero\<lparr>mType := MsgReadIndex, mEntries := [Entry_zero\<lparr>eData := rctx\<rparr>]\<rparr>) rn)"

(* raft/rawnode.go 76-81 RawNode.Adbvance *)
definition RawNode_Adbvance :: "Ready \<Rightarrow> RawNode \<Rightarrow> RawNode" where
  "RawNode_Adbvance rd rn =
     (let rn = (if \<not> IsEmptyHardState (ryHardState rd) then rn\<lparr>rnPreHardSt := ryHardState rd\<rparr> else rn)
      in rn\<lparr>rnRaft := raft_advance rd (rnRaft rn)\<rparr>)"

(* raft/rawnode.go 92-110 RawNode.HasReady *)
definition RawNode_HasReady :: "RawNode \<Rightarrow> bool option" where
  "RawNode_HasReady rn = do {
     let r = rnRaft rn;
     eq \<leftarrow> SoftState_equal (softState r) (rnPrevSoftSt rn);
     if \<not> eq then Some True
     else do {
       hardSt \<leftarrow> hardState r;
       if \<not> IsEmptyHardState hardSt \<and> \<not> isHardStateEqual hardSt (rnPreHardSt rn) then Some True
       else if hasPendingSnapshot (rRaftLog r) then Some True
       else do {
         rl \<leftarrow> rRaftLog r;
         if length (rMsgs r) > 0 \<or> length (unstableEntries rl) > 0 then Some True
         else do {
           more \<leftarrow> hasNextEnts rl;
           Some (more \<or> length (rReadStates r) \<noteq> 0)
         }
       }
     }
   }"

(* raft/node.go 73-76 Peer *)
record Peer =
  peID :: uint64
  peContext :: bytes

(* raft/bootstrap.go 8-22 RawNode.Bootstrap *)
definition RawNode_Bootstrap :: "Peer list \<Rightarrow> RawNode \<Rightarrow> (RawNode \<times> Err option) option" where
  "RawNode_Bootstrap peers rn =
     (if length peers = 0 then Some (rn, Some (Errorf ''must provide at least one peer to Bootstrap''))
      else do {
        rl \<leftarrow> rRaftLog (rnRaft rn);
        st \<leftarrow> lStorage rl;
        (li, err) \<leftarrow> stLastIndex st;
        if err \<noteq> None then Some (rn, err)
        else if li \<noteq> 0 then Some (rn, Some (Errorf ''can't bootstrap a nonempty Storage''))
        else Some (rn\<lparr>rnPreHardSt := HardState_zero\<rparr>, None)
      })"

subsection \<open>Status\<close>

(* raft/status.go 8-16 BaseStatus *)
record BaseStatus =
  bsID :: uint64
  bsHardState :: HardState
  bsSoftState :: SoftState
  bsApplied :: uint64
  bsLeadTransferee :: uint64

(* raft/status.go 17-21 Status *)
record Status =
  stBase :: BaseStatus
  stConfig :: JointConfig
  stProgress :: "(uint64, Progress) gomap"

text \<open>\<^verbatim>\<open>Inflights.Clone\<close> reads its receiver, so a nil window panics.\<close>

(* raft/status.go 23-32 getProgressCopy *)
definition getProgressCopy :: "raft \<Rightarrow> (uint64, Progress) gomap option" where
  "getProgressCopy r =
     ProgressTracker_Visit (rTrk r) (\<lambda>i m. do {
       pr \<leftarrow> progress r i;
       ins \<leftarrow> pInflights pr;
       Some (AList.update i (pr\<lparr>pInflights := Some (Inflights_Clone ins)\<rparr>) m)
     }) []"

(* raft/status.go 34-43 getBasicStatus *)
definition getBasicStatus :: "raft \<Rightarrow> BaseStatus option" where
  "getBasicStatus r = do {
     hs \<leftarrow> hardState r;
     rl \<leftarrow> rRaftLog r;
     Some \<lparr>bsID = rId r, bsHardState = hs, bsSoftState = softState r, bsApplied = lApplied rl,
           bsLeadTransferee = rLeadTransferee r\<rparr>
   }"

(* raft/status.go 45-53 getStatus *)
definition getStatus :: "raft \<Rightarrow> Status option" where
  "getStatus r = do {
     base \<leftarrow> getBasicStatus r;
     prs \<leftarrow> (if ssRaftState (bsSoftState base) = StateLeader then getProgressCopy r else Some []);
     Some \<lparr>stBase = base, stConfig = Config_Clone (tVoters (rTrk r)), stProgress = prs\<rparr>
   }"

subsection \<open>The event loop\<close>

text \<open>The channels of the node are flags: whether the channel was made.\<close>

(* raft/node.go 133-144 node *)
record node =
  ndPropc :: bool
  ndRecvc :: bool
  ndConfc :: bool
  ndReadyc :: bool
  ndAdvancec :: bool
  ndTickc :: bool
  ndDone :: bool
  ndStop :: bool
  ndStatus :: bool
  ndRn :: "RawNode option"

(* raft/node.go 146-150 newNode *)
definition newNode :: "RawNode \<Rightarrow> node" where
  "newNode rn = \<lparr>ndPropc = False, ndRecvc = False, ndConfc = False, ndReadyc = False, ndAdvancec = False,
     ndTickc = False, ndDone = False, ndStop = False, ndStatus = True, ndRn = None\<rparr>"

(* raft/node.go 177-185 node.run *)
record node_run =
  nrNode :: node
  nrPropc :: bool
  nrReadyc :: bool
  nrAdvancec :: bool
  nrRd :: Ready
  nrRn :: RawNode
  nrLead :: uint64

(* raft/node.go 177-186 node.run *)
definition runInit :: "node \<Rightarrow> node_run option" where
  "runInit n = do {
     rn \<leftarrow> ndRn n;
     Some \<lparr>nrNode = n, nrPropc = False, nrReadyc = False, nrAdvancec = False, nrRd = Ready_zero, nrRn = rn,
           nrLead = NoneID\<rparr>
   }"

(* raft/node.go 188-193 node.run *)
definition runReady :: "node_run \<Rightarrow> node_run option" where
  "runReady s =
     (if nrAdvancec s then Some (s\<lparr>nrReadyc := False\<rparr>)
      else do {
        more \<leftarrow> RawNode_HasReady (nrRn s);
        if more then do {
          rd \<leftarrow> readyWithoutAccept (nrRn s);
          Some (s\<lparr>nrRd := rd, nrReadyc := ndReadyc (nrNode s)\<rparr>)
        }
        else Some s
      })"

(* raft/node.go 194-207 node.run *)
definition runLead :: "node_run \<Rightarrow> node_run option" where
  "runLead s =
     (let r = rnRaft (nrRn s) in
      if nrLead s \<noteq> rLead r then do {
        Logf (rLogger r);
        Some (s\<lparr>nrPropc := (if hasLeader r then ndPropc (nrNode s) else False), nrLead := rLead r\<rparr>)
      }
      else Some s)"

(* raft/node.go 188-207 node.run *)
definition runHead :: "node_run \<Rightarrow> node_run option" where
  "runHead s = do { s \<leftarrow> runReady s; runLead s }"

(* raft/node.go 217-220 node.run *)
definition runRecv :: "RaftMessage \<Rightarrow> RawNode \<Rightarrow> RawNode option" where
  "runRecv m rn =
     (if progress (rnRaft rn) (mFrom m) \<noteq> None \<or> \<not> IsResponseMsg (mType m)
      then map_option fst (stepRaft m rn) else Some rn)"

(* raft/node.go 187-241 node.run *)
inductive node_step :: "node_run \<Rightarrow> node_run \<Rightarrow> bool" where
  on_prop: "runHead s = Some s1 \<Longrightarrow> nrPropc s1 \<Longrightarrow>
    stepRaft (m\<lparr>mFrom := rId (rnRaft (nrRn s1))\<rparr>) (nrRn s1) = Some (rn, err) \<Longrightarrow> node_step s (s1\<lparr>nrRn := rn\<rparr>)"
| on_recv: "runHead s = Some s1 \<Longrightarrow> ndRecvc (nrNode s1) \<Longrightarrow> runRecv m (nrRn s1) = Some rn \<Longrightarrow>
    node_step s (s1\<lparr>nrRn := rn\<rparr>)"
| on_conf: "runHead s = Some s1 \<Longrightarrow> ndConfc (nrNode s1) \<Longrightarrow> node_step s s1"
| on_tick: "runHead s = Some s1 \<Longrightarrow> ndTickc (nrNode s1) \<Longrightarrow> RawNode_Tick (nrRn s1) = Some rn \<Longrightarrow>
    node_step s (s1\<lparr>nrRn := rn\<rparr>)"
| on_ready: "runHead s = Some s1 \<Longrightarrow> nrReadyc s1 \<Longrightarrow>
    node_step s (s1\<lparr>nrRn := acceptReady (nrRd s1) (nrRn s1), nrAdvancec := ndAdvancec (nrNode s1)\<rparr>)"
| on_advance: "runHead s = Some s1 \<Longrightarrow> nrAdvancec s1 \<Longrightarrow>
    node_step s (s1\<lparr>nrRn := RawNode_Adbvance (nrRd s1) (nrRn s1), nrRd := Ready_zero, nrAdvancec := False\<rparr>)"
| on_status: "runHead s = Some s1 \<Longrightarrow> ndStatus (nrNode s1) \<Longrightarrow> getStatus (rnRaft (nrRn s1)) = Some st \<Longrightarrow>
    node_step s s1"

inductive_cases node_stepE: "node_step s s'"

subsection \<open>Properties of the driver\<close>

text \<open>What the driver keeps of the peer; accepting a \<^verbatim>\<open>Ready\<close> empties the message list.\<close>

definition peer_keeps :: "raft \<Rightarrow> raft \<Rightarrow> bool" where
  "peer_keeps r r' \<longleftrightarrow> rId r' = rId r \<and> role_ok r' \<and> log_grows (rRaftLog r) (rRaftLog r')"

lemma peer_keeps_refl: "role_ok r \<Longrightarrow> peer_keeps r r"
  by (simp add: peer_keeps_def)

lemma peer_keeps_trans: "peer_keeps a b \<Longrightarrow> peer_keeps b c \<Longrightarrow> peer_keeps a c"
  by (auto simp: peer_keeps_def intro: log_grows_trans)

lemma goes_peer_keeps: "goes C r r' \<Longrightarrow> peer_keeps r r'"
  by (simp add: peer_keeps_def goes_def moves_def grows_def same_env_def)

lemma stepRaft_keeps:
  assumes "stepRaft m rn = Some (rn', err)" "role_ok (rnRaft rn)"
  shows "peer_keeps (rnRaft rn) (rnRaft rn')"
proof -
  from assms(1) obtain r' where "Step m (rnRaft rn) = Some (r', err)" "rnRaft rn' = r'"
    by (auto simp: stepRaft_def bind_Some_iff)
  then show ?thesis
    using ensures_D [OF Step_goes [OF assms(2), of False m]] goes_peer_keeps by fastforce
qed

lemma runHead_same: "runHead s = Some s1 \<Longrightarrow> nrRn s1 = nrRn s \<and> nrNode s1 = nrNode s \<and> nrAdvancec s1 = nrAdvancec s"
  by (auto simp: runHead_def runReady_def runLead_def Let_def bind_Some_iff split: if_splits)

lemma acceptReady_keeps: "role_ok (rnRaft rn) \<Longrightarrow> peer_keeps (rnRaft rn) (rnRaft (acceptReady rd rn))"
  by (auto simp: peer_keeps_def acceptReady_def Let_def role_ok_def split: StateType.splits)

lemma Adbvance_keeps: "rnRaft (RawNode_Adbvance rd rn) = rnRaft rn"
  by (simp add: RawNode_Adbvance_def raft_advance_def Let_def)

lemma node_step_keeps:
  assumes "node_step s s'" "role_ok (rnRaft (nrRn s))"
  shows "peer_keeps (rnRaft (nrRn s)) (rnRaft (nrRn s'))"
  using assms(1)
proof cases
  case (on_prop s1 m rn err)
  then show ?thesis
    using stepRaft_keeps [OF on_prop(4)] runHead_same [OF on_prop(2)] assms(2) by simp
next
  case (on_recv s1 m rn)
  then show ?thesis
    using runHead_same [OF on_recv(2)] assms(2) stepRaft_keeps peer_keeps_refl
    by (fastforce simp: runRecv_def split: if_splits)
next
  case (on_tick s1 rn)
  then obtain r where "callTick (rnRaft (nrRn s1)) = Some r" "rnRaft rn = r"
    by (auto simp: RawNode_Tick_def bind_Some_iff)
  then show ?thesis
    using on_tick runHead_same [OF on_tick(2)] assms(2) ensures_D [OF callTick_goes [of _ False]] goes_peer_keeps
    by fastforce
next
  case (on_ready s1)
  then show ?thesis
    using runHead_same [OF on_ready(2)] acceptReady_keeps assms(2) by simp
next
  case (on_advance s1)
  then show ?thesis
    using runHead_same [OF on_advance(2)] assms(2) by (simp add: Adbvance_keeps peer_keeps_refl)
qed (use runHead_same assms(2) peer_keeps_refl in fastforce)+

text \<open>
  The event loop cannot break the peer. Whatever sequence of proposals, messages, ticks, readies, advances and
  status requests the loop handles, the peer's role stays consistent, its id is the same, and its commit index
  never goes back and stays inside the log.
\<close>

theorem node_loop_keeps_peer:
  assumes "node_step\<^sup>*\<^sup>* s s'" "role_ok (rnRaft (nrRn s))"
  shows "role_ok (rnRaft (nrRn s')) \<and> rId (rnRaft (nrRn s')) = rId (rnRaft (nrRn s)) \<and>
    (\<forall>rl. rRaftLog (rnRaft (nrRn s)) = Some rl \<longrightarrow> (\<exists>rl'. rRaftLog (rnRaft (nrRn s')) = Some rl' \<and>
      lCommitted rl \<le> lCommitted rl' \<and> (commit_in rl \<longrightarrow> commit_in rl')))"
proof -
  have "peer_keeps (rnRaft (nrRn s)) (rnRaft (nrRn s'))"
    using assms
  proof (induction rule: rtranclp_induct)
    case (step y z)
    then have "peer_keeps (rnRaft (nrRn s)) (rnRaft (nrRn y))" by blast
    moreover from this have "role_ok (rnRaft (nrRn y))" by (simp add: peer_keeps_def)
    ultimately show ?case
      using node_step_keeps [OF step(2)] by (blast intro: peer_keeps_trans)
  qed (rule peer_keeps_refl)
  then show ?thesis
    by (auto simp: peer_keeps_def log_grows_def split: option.splits)
qed

text \<open>A node whose channels are made, around the sample peer.\<close>

definition node_sample :: node_run where
  "node_sample = \<lparr>nrNode = \<lparr>ndPropc = True, ndRecvc = True, ndConfc = True, ndReadyc = True, ndAdvancec = True,
       ndTickc = True, ndDone = True, ndStop = True, ndStatus = True,
       ndRn = Some \<lparr>rnRaft = raft_sample, rnPrevSoftSt = Some \<lparr>ssLead = 7, ssRaftState = StateFollower\<rparr>, rnPreHardSt = HardState_zero\<rparr>\<rparr>,
     nrPropc = False, nrReadyc = False, nrAdvancec = False, nrRd = Ready_zero,
     nrRn = \<lparr>rnRaft = raft_sample, rnPrevSoftSt = Some \<lparr>ssLead = 7, ssRaftState = StateFollower\<rparr>, rnPreHardSt = HardState_zero\<rparr>,
     nrLead = NoneID\<rparr>"

lemma node_sample_head:
  "\<exists>s1. runHead node_sample = Some s1 \<and> nrReadyc s1 \<and> ndAdvancec (nrNode s1)"
  by (simp add: runHead_def runReady_def runLead_def node_sample_def RawNode_HasReady_def SoftState_equal_def softState_def
        readyWithoutAccept_def newReady_def raft_sample_def raft_zero_def NoneID_def Let_def)

lemma node_sample_ready: "\<exists>s'. node_step node_sample s' \<and> nrAdvancec s'"
  using node_sample_head on_ready by fastforce

theorem node_loop_keeps_peer_witness:
  "\<exists>s'. node_step\<^sup>*\<^sup>* node_sample s' \<and> nrAdvancec s' \<and> role_ok (rnRaft (nrRn s'))"
proof -
  have "role_ok (rnRaft (nrRn node_sample))" using raft_sample_ok(1) by (simp add: node_sample_def)
  then show ?thesis
    using node_loop_keeps_peer [of node_sample] node_sample_ready by blast
qed

lemma runReady_same:
  assumes "runReady s = Some s1"
  shows "nrPropc s1 = nrPropc s" "nrLead s1 = nrLead s" "nrAdvancec s1 \<longrightarrow> \<not> nrReadyc s1"
  using assms by (auto simp: runReady_def bind_Some_iff split: if_splits)

lemma runLead_effect:
  assumes "runLead s = Some s1"
  shows "nrLead s1 = rLead (rnRaft (nrRn s1))" "nrPropc s1 \<longrightarrow> nrPropc s \<or> hasLeader (rnRaft (nrRn s1))"
    "nrReadyc s1 = nrReadyc s" "nrAdvancec s1 = nrAdvancec s" "nrPropc s1 \<and> \<not> hasLeader (rnRaft (nrRn s1)) \<longrightarrow> nrLead s = nrLead s1"
  using assms by (auto simp: runLead_def Let_def bind_Some_iff split: if_splits)

lemma runHead_prop:
  assumes "runHead s = Some s1" "nrPropc s \<longrightarrow> nrLead s \<noteq> 0"
  shows "nrPropc s1 \<longrightarrow> hasLeader (rnRaft (nrRn s1))" "nrLead s1 = rLead (rnRaft (nrRn s1))" "nrAdvancec s1 \<longrightarrow> \<not> nrReadyc s1"
proof -
  obtain s0 where s0: "runReady s = Some s0" "runLead s0 = Some s1"
    using assms(1) by (auto simp: runHead_def bind_Some_iff)
  show "nrPropc s1 \<longrightarrow> hasLeader (rnRaft (nrRn s1))"
    using runReady_same [OF s0(1)] runLead_effect [OF s0(2)] assms(2) by (auto simp: hasLeader_def NoneID_def)
  show "nrLead s1 = rLead (rnRaft (nrRn s1))" "nrAdvancec s1 \<longrightarrow> \<not> nrReadyc s1"
    using runReady_same [OF s0(1)] runLead_effect [OF s0(2)] by auto
qed

lemma node_step_prop:
  assumes "node_step s s'" "nrPropc s \<longrightarrow> nrLead s \<noteq> 0"
  shows "nrPropc s' \<longrightarrow> nrLead s' \<noteq> 0"
proof -
  obtain s1 where "runHead s = Some s1" "nrPropc s' = nrPropc s1" "nrLead s' = nrLead s1"
    using assms(1) by cases simp_all
  with runHead_prop(1,2) [OF this(1) assms(2)] show ?thesis
    by (auto simp: hasLeader_def NoneID_def)
qed

interpretation loop_lead: step_invariant node_step "\<lambda>s. nrPropc s \<longrightarrow> nrLead s \<noteq> 0"
  by unfold_locales (rule node_step_prop)

text \<open>
  C30: the handshake of the loop. In every state the loop reaches, when it waits in the \<^verbatim>\<open>select\<close> it accepts proposals
  only while the peer knows a leader, and it never offers a new \<^verbatim>\<open>Ready\<close> while the previous one still waits for \<^verbatim>\<open>Advance\<close>.
\<close>

theorem node_loop_handshake:
  assumes "runInit n = Some s" "node_step\<^sup>*\<^sup>* s s'" "runHead s' = Some s1"
  shows "(nrPropc s1 \<longrightarrow> hasLeader (rnRaft (nrRn s1))) \<and> \<not> (nrReadyc s1 \<and> nrAdvancec s1)"
proof -
  have "nrPropc s \<longrightarrow> nrLead s \<noteq> 0"
    using assms(1) by (auto simp: runInit_def bind_Some_iff)
  then have "nrPropc s' \<longrightarrow> nrLead s' \<noteq> 0"
    by (rule loop_lead.run_keeps [OF assms(2)])
  then show ?thesis
    using runHead_prop [OF assms(3)] by blast
qed

theorem node_loop_handshake_witness:
  "\<exists>s s1. runInit (nrNode node_sample) = Some s \<and> runHead s = Some s1 \<and> nrReadyc s1 \<and>
     (nrPropc s1 \<longrightarrow> hasLeader (rnRaft (nrRn s1))) \<and> \<not> (nrReadyc s1 \<and> nrAdvancec s1)"
proof -
  have init: "runInit (nrNode node_sample) = Some node_sample"
    by (simp add: runInit_def node_sample_def)
  obtain s1 where "runHead node_sample = Some s1" "nrReadyc s1"
    using node_sample_head by blast
  then show ?thesis
    using node_loop_handshake [OF init rtranclp.rtrancl_refl] init by blast
qed

text \<open>
  Messages are lost. A \<^verbatim>\<open>Ready\<close> never carries a message, a soft or hard state or a committed entry, because \<^verbatim>\<open>newReady\<close> fills in the
  unstable entries only, and accepting it empties the list of outgoing messages: what the peer wanted to send
  is gone, whatever it was.
\<close>

theorem RawNode_Ready_loses_messages:
  assumes "rRaftLog (rnRaft rn) = Some rl"
  shows "\<exists>rn' rd. RawNode_Ready rn = Some (rn', rd) \<and> ryMessages rd = [] \<and> rMsgs (rnRaft rn') = [] \<and>
    rySoftState rd = None \<and> IsEmptyHardState (ryHardState rd) \<and> ryCommittedEntries rd = []"
  using assms
  by (simp add: RawNode_Ready_def readyWithoutAccept_def newReady_def acceptReady_def Ready_zero_def Let_def
      IsEmptyHardState_def isHardStateEqual_def)

theorem RawNode_Ready_loses_messages_witness:
  "\<exists>rn' rd. RawNode_Ready \<lparr>rnRaft = raft_sample\<lparr>rMsgs := [vote_sample]\<rparr>, rnPrevSoftSt = None, rnPreHardSt = HardState_zero\<rparr> =
     Some (rn', rd) \<and> ryMessages rd = [] \<and> rMsgs (rnRaft rn') = []"
  using RawNode_Ready_loses_messages
    [of "\<lparr>rnRaft = raft_sample\<lparr>rMsgs := [vote_sample]\<rparr>, rnPrevSoftSt = None, rnPreHardSt = HardState_zero\<rparr>" rl_sample]
  by (auto simp: raft_sample_def)

text \<open>
  A node never runs. \<^verbatim>\<open>NewRawNode\<close> panics on every configuration; the node that \<^verbatim>\<open>newNode\<close> builds does not keep the
  \<^verbatim>\<open>RawNode\<close> it is given, so \<^verbatim>\<open>run\<close> panics before its loop; and a \<^verbatim>\<open>RawNode\<close> that never handed out a soft state panics in
  \<^verbatim>\<open>HasReady\<close>.
\<close>

theorem node_never_runs:
  "NewRawNode intn c = None \<and> runInit (newNode rn) = None \<and>
   RawNode_HasReady (rn\<lparr>rnPrevSoftSt := None\<rparr>) = None"
  by (simp add: NewRawNode_def newRaft_None runInit_def newNode_def RawNode_HasReady_def SoftState_equal_def)

end
