(* ===== verification/Node_Client.thy ===== *)
theory Node_Client
  imports Raw_Node
begin

section \<open>The methods of a running node\<close>

text \<open>
  The second half of \<^verbatim>\<open>src/raft/node.go\<close>: the methods by which other goroutines talk to the event loop. All channels of the
  node are unbuffered, so a send succeeds together with the receive of the loop: the methods are relations between the
  loop before and after the call, and the error that is returned. A method that blocks for ever has no such pair.

  The loop is running (\<open>Loop\<close>, with the state of \<^verbatim>\<open>run\<close>) or has returned after closing the channel \<^verbatim>\<open>done\<close> (\<open>Closed\<close>). \<open>ctx\<close> is the error of
  the context when it may end, \<^term>\<open>None\<close> for one that does not. Where several cases of a \<^verbatim>\<open>select\<close> are ready any of them
  is taken, as in Go.

  A call moves the loop by at most one step of \<open>node_step\<close>, so what was shown of the loop holds for all clients.
\<close>

datatype loop = Loop node_run | Closed node

subsection \<open>The cases of the selects\<close>

text \<open>A message is handed to the loop: \<^verbatim>\<open>case m := <-n.recvc\<close>.\<close>

inductive handed_recv :: "RaftMessage \<Rightarrow> loop \<Rightarrow> loop \<Rightarrow> bool" where
  "runHead s = Some s1 \<Longrightarrow> ndRecvc (nrNode s1) \<Longrightarrow> runRecv m (nrRn s1) = Some rn \<Longrightarrow> handed_recv m (Loop s) (Loop (s1\<lparr>nrRn := rn\<rparr>))"

text \<open>A proposal is handed to the loop, which answers with the error of \<^verbatim>\<open>Step\<close>.\<close>

(* raft/node.go 209-216 node.run *)
inductive handed_prop :: "RaftMessage \<Rightarrow> Err option \<Rightarrow> loop \<Rightarrow> loop \<Rightarrow> bool" where
  "runHead s = Some s1 \<Longrightarrow> nrPropc s1 \<Longrightarrow> stepRaft (m\<lparr>mFrom := rId (rnRaft (nrRn s1))\<rparr>) (nrRn s1) = Some (rn, err) \<Longrightarrow>
    handed_prop m err (Loop s) (Loop (s1\<lparr>nrRn := rn\<rparr>))"

text \<open>The last case of the loop; closing a nil channel panics.\<close>

(* raft/node.go 237-239 node.run *)
inductive loop_stops :: "loop \<Rightarrow> loop \<Rightarrow> bool" where
  "runHead s = Some s1 \<Longrightarrow> ndStop (nrNode s1) \<Longrightarrow> ndDone (nrNode s1) \<Longrightarrow> loop_stops (Loop s) (Closed (nrNode s1))"

inductive_cases handed_recvE: "handed_recv m l l'"
inductive_cases handed_propE: "handed_prop m err l l'"
inductive_cases loop_stopsE: "loop_stops l l'"

subsection \<open>Sending messages\<close>

(* raft/node.go 262-299 node.stepWithWaitOption *)
inductive stepWithWaitOption :: "Err option \<Rightarrow> RaftMessage \<Rightarrow> bool \<Rightarrow> loop \<Rightarrow> loop \<Rightarrow> Err option \<Rightarrow> bool" for ctx m where
  recv_sent: "mType m \<noteq> MsgProp \<Longrightarrow> handed_recv m l l' \<Longrightarrow> stepWithWaitOption ctx m wait l l' None"
| recv_ctx: "mType m \<noteq> MsgProp \<Longrightarrow> ctx = Some e \<Longrightarrow> stepWithWaitOption ctx m wait l l (Some e)"
| recv_done: "mType m \<noteq> MsgProp \<Longrightarrow> stepWithWaitOption ctx m wait (Closed n) (Closed n) (Some ErrStopped)"
| prop_sent: "mType m = MsgProp \<Longrightarrow> handed_prop m err l l' \<Longrightarrow> stepWithWaitOption ctx m False l l' None"
| prop_ctx: "mType m = MsgProp \<Longrightarrow> ctx = Some e \<Longrightarrow> stepWithWaitOption ctx m wait l l (Some e)"
| prop_done: "mType m = MsgProp \<Longrightarrow> stepWithWaitOption ctx m wait (Closed n) (Closed n) (Some ErrStopped)"
| result_err: "mType m = MsgProp \<Longrightarrow> handed_prop m err l l' \<Longrightarrow> stepWithWaitOption ctx m True l l' err"
| result_ctx: "mType m = MsgProp \<Longrightarrow> handed_prop m err l l' \<Longrightarrow> ctx = Some e \<Longrightarrow> stepWithWaitOption ctx m True l l' (Some e)"
| result_done: "mType m = MsgProp \<Longrightarrow> handed_prop m err l l' \<Longrightarrow> loop_stops l' l'' \<Longrightarrow> stepWithWaitOption ctx m True l l'' (Some ErrStopped)"

inductive_cases stepWithWaitOptionE: "stepWithWaitOption ctx m wait l l' res"

(* raft/node.go 256-258 node.step *)
definition node_stepNoWait :: "Err option \<Rightarrow> RaftMessage \<Rightarrow> loop \<Rightarrow> loop \<Rightarrow> Err option \<Rightarrow> bool" where
  "node_stepNoWait ctx m l l' res = stepWithWaitOption ctx m False l l' res"

(* raft/node.go 259-261 node.stepWait *)
definition node_stepWait :: "Err option \<Rightarrow> RaftMessage \<Rightarrow> loop \<Rightarrow> loop \<Rightarrow> Err option \<Rightarrow> bool" where
  "node_stepWait ctx m l l' res = stepWithWaitOption ctx m True l l' res"

(* raft/node.go 250-255 node.Step *)
definition node_Step :: "Err option \<Rightarrow> RaftMessage \<Rightarrow> loop \<Rightarrow> loop \<Rightarrow> Err option \<Rightarrow> bool" where
  "node_Step ctx m l l' res = (if IsLocalMsg (mType m) then l' = l \<and> res = None else node_stepNoWait ctx m l l' res)"

(* raft/node.go 247-249 node.Propose *)
definition node_Propose :: "Err option \<Rightarrow> bytes \<Rightarrow> loop \<Rightarrow> loop \<Rightarrow> Err option \<Rightarrow> bool" where
  "node_Propose ctx data l l' res =
     node_stepWait ctx (RaftMessage_zero\<lparr>mType := MsgProp, mEntries := [Entry_zero\<lparr>eData := data\<rparr>]\<rparr>) l l' res"

(* raft/node.go 329-331 node.ReadIndex *)
definition node_ReadIndex :: "Err option \<Rightarrow> bytes \<Rightarrow> loop \<Rightarrow> loop \<Rightarrow> Err option \<Rightarrow> bool" where
  "node_ReadIndex ctx rctx l l' res =
     node_stepNoWait ctx (RaftMessage_zero\<lparr>mType := MsgReadIndex, mEntries := [Entry_zero\<lparr>eData := rctx\<rparr>]\<rparr>) l l' res"

(* raft/node.go 243-246 node.ProposeConfChange *)
definition node_ProposeConfChange :: "Err option \<Rightarrow> ConfChange \<Rightarrow> loop \<Rightarrow> loop \<Rightarrow> Err option \<Rightarrow> bool" where
  "node_ProposeConfChange ctx cc l l' res \<longleftrightarrow> l' = l \<and> res = None"

subsection \<open>Reports and control\<close>

(* raft/node.go 10-15 SnapshotStatus *)
datatype SnapshotStatus = SnapshotFinish | SnapshotFailure

(* raft/node.go 309-314 node.ReportUnreachable *)
inductive node_ReportUnreachable :: "uint64 \<Rightarrow> loop \<Rightarrow> loop \<Rightarrow> bool" where
  unreachable_sent: "handed_recv (RaftMessage_zero\<lparr>mType := MsgUnreachable, mFrom := i\<rparr>) l l' \<Longrightarrow> node_ReportUnreachable i l l'"
| unreachable_done: "node_ReportUnreachable i (Closed n) (Closed n)"

(* raft/node.go 315-321 node.ReportSnapshot *)
inductive node_ReportSnapshot :: "uint64 \<Rightarrow> SnapshotStatus \<Rightarrow> loop \<Rightarrow> loop \<Rightarrow> bool" where
  snapshot_sent: "handed_recv (RaftMessage_zero\<lparr>mType := MsgSnapStatus, mFrom := i, mReject := (status = SnapshotFailure)\<rparr>) l l' \<Longrightarrow>
    node_ReportSnapshot i status l l'"
| snapshot_done: "node_ReportSnapshot i status (Closed n) (Closed n)"

(* raft/node.go 322-328 node.TransferLeadership *)
inductive node_TransferLeadership :: "Err option \<Rightarrow> uint64 \<Rightarrow> uint64 \<Rightarrow> loop \<Rightarrow> loop \<Rightarrow> bool" where
  transfer_sent: "handed_recv (RaftMessage_zero\<lparr>mType := MsgTransferLeader, mFrom := transferee, mTo := lead\<rparr>) l l' \<Longrightarrow>
    node_TransferLeadership ctx lead transferee l l'"
| transfer_done: "node_TransferLeadership ctx lead transferee (Closed n) (Closed n)"
| transfer_ctx: "node_TransferLeadership (Some e) lead transferee l l"

(* raft/node.go 154-159 node.Advance *)
inductive node_Advance :: "loop \<Rightarrow> loop \<Rightarrow> bool" where
  advance_sent: "runHead s = Some s1 \<Longrightarrow> nrAdvancec s1 \<Longrightarrow>
    node_Advance (Loop s) (Loop (s1\<lparr>nrRn := RawNode_Adbvance (nrRd s1) (nrRn s1), nrRd := Ready_zero, nrAdvancec := False\<rparr>))"
| advance_done: "node_Advance (Closed n) (Closed n)"

text \<open>When the loop does not take the tick it is dropped with a warning, which panics on a node without a \<^verbatim>\<open>RawNode\<close>.\<close>

(* raft/node.go 160-167 node.Tick *)
inductive node_Tick :: "loop \<Rightarrow> loop \<Rightarrow> bool" where
  tick_sent: "runHead s = Some s1 \<Longrightarrow> ndTickc (nrNode s1) \<Longrightarrow> RawNode_Tick (nrRn s1) = Some rn \<Longrightarrow>
    node_Tick (Loop s) (Loop (s1\<lparr>nrRn := rn\<rparr>))"
| tick_done: "node_Tick (Closed n) (Closed n)"
| tick_dropped: "ndRn (nrNode s) \<noteq> None \<Longrightarrow> node_Tick (Loop s) (Loop s)"

(* raft/node.go 168-176 node.Stop *)
inductive node_Stop :: "loop \<Rightarrow> loop \<Rightarrow> bool" where
  stop_sent: "loop_stops l (Closed n) \<Longrightarrow> node_Stop l (Closed n)"
| stop_done: "node_Stop (Closed n) (Closed n)"

(* raft/node.go 151-153 node.Ready *)
inductive node_Ready :: "loop \<Rightarrow> loop \<Rightarrow> Ready \<Rightarrow> bool" where
  ready_received: "runHead s = Some s1 \<Longrightarrow> nrReadyc s1 \<Longrightarrow>
    node_Ready (Loop s) (Loop (s1\<lparr>nrRn := acceptReady (nrRd s1) (nrRn s1), nrAdvancec := ndAdvancec (nrNode s1)\<rparr>)) (nrRd s1)"

text \<open>\<^verbatim>\<open>Status{}\<close> of a stopped node is \<^term>\<open>None\<close>.\<close>

(* raft/node.go 300-308 node.Status *)
inductive node_Status :: "loop \<Rightarrow> loop \<Rightarrow> Status option \<Rightarrow> bool" where
  status_sent: "runHead s = Some s1 \<Longrightarrow> ndStatus (nrNode s1) \<Longrightarrow> getStatus (rnRaft (nrRn s1)) = Some st \<Longrightarrow> node_Status (Loop s) (Loop s1) (Some st)"
| status_done: "node_Status (Closed n) (Closed n) None"

(* raft/node.go 78-93 StartNode *)
definition StartNode :: "(nat \<Rightarrow> int \<Rightarrow> int) \<Rightarrow> Config \<Rightarrow> Peer list \<Rightarrow> node option" where
  "StartNode intn c peers =
     (if length peers = 0 then None
      else do {
        (rn, err) \<leftarrow> NewRawNode intn c;
        if err \<noteq> None then None
        else do {
          (rn, err) \<leftarrow> RawNode_Bootstrap peers rn;
          Some (newNode rn)
        }
      })"

text \<open>A call of any of the methods.\<close>

inductive node_client :: "loop \<Rightarrow> loop \<Rightarrow> bool" where
  client_Step: "node_Step ctx m l l' res \<Longrightarrow> node_client l l'"
| client_Propose: "node_Propose ctx data l l' res \<Longrightarrow> node_client l l'"
| client_ReadIndex: "node_ReadIndex ctx rctx l l' res \<Longrightarrow> node_client l l'"
| client_ConfChange: "node_ProposeConfChange ctx cc l l' res \<Longrightarrow> node_client l l'"
| client_Unreachable: "node_ReportUnreachable i l l' \<Longrightarrow> node_client l l'"
| client_Snapshot: "node_ReportSnapshot i status l l' \<Longrightarrow> node_client l l'"
| client_Transfer: "node_TransferLeadership ctx lead transferee l l' \<Longrightarrow> node_client l l'"
| client_Advance: "node_Advance l l' \<Longrightarrow> node_client l l'"
| client_Tick: "node_Tick l l' \<Longrightarrow> node_client l l'"
| client_Stop: "node_Stop l l' \<Longrightarrow> node_client l l'"
| client_Ready: "node_Ready l l' rd \<Longrightarrow> node_client l l'"
| client_Status: "node_Status l l' st \<Longrightarrow> node_client l l'"

subsection \<open>Properties\<close>

text \<open>The methods refine the loop: a call leaves the loop alone, makes it take one step, or stops it.\<close>

definition moves_loop :: "loop \<Rightarrow> loop \<Rightarrow> bool" where
  "moves_loop l l' \<longleftrightarrow> (case (l, l') of
     (Loop s, Loop s') \<Rightarrow> node_step\<^sup>=\<^sup>= s s'
   | (Loop s, Closed n) \<Rightarrow> \<exists>s' s1. node_step\<^sup>=\<^sup>= s s' \<and> runHead s' = Some s1 \<and> n = nrNode s1
   | (Closed n, _) \<Rightarrow> l' = l)"

lemma moves_loop_refl [simp]: "moves_loop l l"
  by (simp add: moves_loop_def split: loop.splits)

lemma handed_recv_moves: "handed_recv m l l' \<Longrightarrow> moves_loop l l'"
  by (auto elim!: handed_recvE simp: moves_loop_def intro: on_recv)

lemma handed_prop_moves: "handed_prop m err l l' \<Longrightarrow> moves_loop l l'"
  by (auto elim!: handed_propE simp: moves_loop_def intro: on_prop)

lemma loop_stops_moves: "loop_stops l l' \<Longrightarrow> moves_loop l l'"
  by (auto elim!: loop_stopsE simp: moves_loop_def) blast

lemma result_done_moves: "handed_prop m err l l' \<Longrightarrow> loop_stops l' l'' \<Longrightarrow> moves_loop l l''"
  by (auto elim!: handed_propE loop_stopsE simp: moves_loop_def) (metis on_prop)

lemma stepWithWaitOption_moves: "stepWithWaitOption ctx m wait l l' res \<Longrightarrow> moves_loop l l'"
  by (induction rule: stepWithWaitOption.induct) (auto intro: handed_recv_moves handed_prop_moves result_done_moves)

lemma node_client_moves: "node_client l l' \<Longrightarrow> moves_loop l l'"
proof (induction rule: node_client.induct)
  case (client_Step ctx m l l' res)
  then show ?case
    using stepWithWaitOption_moves by (auto simp: node_Step_def node_stepNoWait_def split: if_splits)
next
  case (client_Unreachable i l l')
  then show ?case by cases (auto intro: handed_recv_moves)
next
  case (client_Snapshot i status l l')
  then show ?case by cases (auto intro: handed_recv_moves)
next
  case (client_Transfer ctx lead transferee l l')
  then show ?case by cases (auto intro: handed_recv_moves)
next
  case (client_Advance l l')
  then show ?case by cases (auto simp: moves_loop_def intro: on_advance)
next
  case (client_Tick l l')
  then show ?case by cases (auto simp: moves_loop_def intro: on_tick)
next
  case (client_Stop l l')
  then show ?case by cases (auto intro: loop_stops_moves)
next
  case (client_Ready l l' rd)
  then show ?case by cases (auto simp: moves_loop_def intro: on_ready)
next
  case (client_Status l l' st)
  then show ?case by cases (auto simp: moves_loop_def intro: on_status)
qed (use stepWithWaitOption_moves in \<open>auto simp: node_Propose_def node_stepWait_def node_ReadIndex_def node_stepNoWait_def node_ProposeConfChange_def\<close>)

lemma peer_keeps_commit:
  assumes "peer_keeps r r'" "rRaftLog r = Some rl"
  shows "\<exists>rl'. rRaftLog r' = Some rl' \<and> lCommitted rl \<le> lCommitted rl'"
  using assms by (auto simp: peer_keeps_def log_grows_def split: option.splits)

text \<open>
  C7: clients cannot break the peer. However other goroutines mix calls of the methods of a running node, the role of the peer stays
  consistent, its id is the same, and its commit index never goes back; every further call makes the loop take at most one step, after which the loop
  may have been stopped; and once it has been stopped, no call brings it back.
\<close>

theorem node_clients_keep_peer:
  assumes "node_client\<^sup>*\<^sup>* (Loop s) l" "role_ok (rnRaft (nrRn s))"
  shows "(\<forall>s'. l = Loop s' \<longrightarrow> role_ok (rnRaft (nrRn s')) \<and> rId (rnRaft (nrRn s')) = rId (rnRaft (nrRn s)) \<and>
      (\<forall>rl. rRaftLog (rnRaft (nrRn s)) = Some rl \<longrightarrow> (\<exists>rl'. rRaftLog (rnRaft (nrRn s')) = Some rl' \<and> lCommitted rl \<le> lCommitted rl'))) \<and>
    (\<forall>l'. node_client l l' \<longrightarrow> moves_loop l l') \<and> (\<forall>n l'. l = Closed n \<longrightarrow> node_client l l' \<longrightarrow> l' = l)"
proof -
  have "\<forall>s'. l = Loop s' \<longrightarrow> peer_keeps (rnRaft (nrRn s)) (rnRaft (nrRn s'))"
    using assms(1)
  proof (induction rule: rtranclp_induct)
    case base
    then show ?case using peer_keeps_refl [OF assms(2)] by simp
  next
    case (step y z)
    show ?case
    proof (intro allI impI)
      fix s' assume z: "z = Loop s'"
      obtain s1 where y: "y = Loop s1" "node_step\<^sup>=\<^sup>= s1 s'"
        using node_client_moves [OF step(2)] z by (auto simp: moves_loop_def split: loop.splits)
      then have k: "peer_keeps (rnRaft (nrRn s)) (rnRaft (nrRn s1))" using step.IH by blast
      then have "role_ok (rnRaft (nrRn s1))" by (simp add: peer_keeps_def)
      then show "peer_keeps (rnRaft (nrRn s)) (rnRaft (nrRn s'))"
        using y(2) k node_step_keeps [of s1 s'] peer_keeps_trans by auto
    qed
  qed
  moreover have "l' = l" if "l = Closed n" "node_client l l'" for n l'
    using node_client_moves [OF that(2)] that(1) by (simp add: moves_loop_def split: loop.splits)
  ultimately show ?thesis
    using peer_keeps_commit node_client_moves by (auto simp: peer_keeps_def)
qed

theorem node_clients_keep_peer_witness:
  "\<exists>s'. node_client\<^sup>*\<^sup>* (Loop node_sample) (Loop s') \<and> nrAdvancec s' \<and> role_ok (rnRaft (nrRn s'))"
proof -
  obtain s1 where s1: "runHead node_sample = Some s1" "nrReadyc s1" "ndAdvancec (nrNode s1)"
    using node_sample_head by blast
  define s' where "s' = s1\<lparr>nrRn := acceptReady (nrRd s1) (nrRn s1), nrAdvancec := ndAdvancec (nrNode s1)\<rparr>"
  have "node_Ready (Loop node_sample) (Loop s') (nrRd s1)"
    unfolding s'_def by (rule ready_received [OF s1(1,2)])
  then have steps: "node_client\<^sup>*\<^sup>* (Loop node_sample) (Loop s')"
    using client_Ready by blast
  have "role_ok (rnRaft (nrRn node_sample))" using raft_sample_ok(1) by (simp add: node_sample_def)
  from node_clients_keep_peer [OF steps this] show ?thesis
    using steps s1(3) by (auto simp: s'_def)
qed

text \<open>
  C32: what the answer to a proposal means. When \<^verbatim>\<open>Propose\<close> returns no error, the loop had a leader, took the proposal under the
  peer's own id, and the peer's \<^verbatim>\<open>Step\<close> answered without an error; an error that is neither the context's nor \<^verbatim>\<open>ErrStopped\<close> is the answer of \<^verbatim>\<open>Step\<close>; and
  with the error of the context or \<^verbatim>\<open>ErrStopped\<close> the proposal may have been handled or not.
\<close>

theorem node_Propose_answer:
  assumes "node_Propose ctx data (Loop s) l res" "nrPropc s \<longrightarrow> nrLead s \<noteq> 0" "res \<noteq> Some ErrStopped" "ctx = None \<or> res \<noteq> ctx"
  shows "\<exists>s1 rn. runHead s = Some s1 \<and> hasLeader (rnRaft (nrRn s1)) \<and> l = Loop (s1\<lparr>nrRn := rn\<rparr>) \<and>
    RawNode_Propose data (nrRn s1) = Some (rn, res)"
proof -
  define m where "m = RaftMessage_zero\<lparr>mType := MsgProp, mEntries := [Entry_zero\<lparr>eData := data\<rparr>]\<rparr>"
  have "stepWithWaitOption ctx m True (Loop s) l res" "mType m = MsgProp"
    using assms(1) by (simp_all add: node_Propose_def node_stepWait_def m_def)
  then have "handed_prop m res (Loop s) l"
    using assms(3,4) by (auto elim: stepWithWaitOptionE)
  then obtain s1 rn where s1: "runHead s = Some s1" "nrPropc s1" "stepRaft (m\<lparr>mFrom := rId (rnRaft (nrRn s1))\<rparr>) (nrRn s1) = Some (rn, res)"
    "l = Loop (s1\<lparr>nrRn := rn\<rparr>)"
    by (auto elim: handed_propE)
  moreover have "RawNode_Propose data (nrRn s1) = stepRaft (m\<lparr>mFrom := rId (rnRaft (nrRn s1))\<rparr>) (nrRn s1)"
    by (simp add: RawNode_Propose_def m_def RaftMessage_zero_def)
  ultimately show ?thesis
    using runHead_prop(1) [OF s1(1) assms(2)] by auto
qed

text \<open>\<^verbatim>\<open>StartNode\<close> panics for every configuration and every list of peers.\<close>

lemma StartNode_panics: "StartNode intn c peers = None"
  by (simp add: StartNode_def NewRawNode_def newRaft_None)

text \<open>The sample node with a leader: the follower forwards the proposal.\<close>

definition node_led :: node_run where
  "node_led = node_sample\<lparr>nrRn := (nrRn node_sample)\<lparr>rnRaft := raft_sample\<lparr>rLead := 2\<rparr>\<rparr>\<rparr>"

lemma node_led_head: "\<exists>s1. runHead node_led = Some s1 \<and> nrPropc s1 \<and> nrRn s1 = (nrRn node_sample)\<lparr>rnRaft := raft_sample\<lparr>rLead := 2\<rparr>\<rparr>"
  by (simp add: node_led_def runHead_def runReady_def runLead_def node_sample_def RawNode_HasReady_def SoftState_equal_def softState_def
        readyWithoutAccept_def newReady_def raft_sample_def raft_zero_def NoneID_def hasLeader_def Let_def)

lemma node_led_prop:
  "\<exists>rn. stepRaft (RaftMessage_zero\<lparr>mType := MsgProp, mEntries := [Entry_zero\<lparr>eData := d\<rparr>], mFrom := i\<rparr>) ((nrRn node_sample)\<lparr>rnRaft := raft_sample\<lparr>rLead := 2\<rparr>\<rparr>) =
    Some (rn, None)"
  by (simp add: stepRaft_def Step_def stepTerm_def callStep_def stepFollower_def send_def raft_sample_def raft_zero_def RaftMessage_zero_def NoneID_def)

theorem node_Propose_answer_witness:
  "\<exists>l s1 rn. node_Propose None [1] (Loop node_led) l None \<and> runHead node_led = Some s1 \<and> hasLeader (rnRaft (nrRn s1)) \<and>
    RawNode_Propose [1] (nrRn s1) = Some (rn, None)"
proof -
  obtain s1 where s1: "runHead node_led = Some s1" "nrPropc s1" "nrRn s1 = (nrRn node_sample)\<lparr>rnRaft := raft_sample\<lparr>rLead := 2\<rparr>\<rparr>"
    using node_led_head by blast
  define m where "m = RaftMessage_zero\<lparr>mType := MsgProp, mEntries := [Entry_zero\<lparr>eData := [1]\<rparr>]\<rparr>"
  obtain rn where "stepRaft (m\<lparr>mFrom := rId (rnRaft (nrRn s1))\<rparr>) (nrRn s1) = Some (rn, None)"
    using node_led_prop [where d = "[1]" and i = "rId (rnRaft (nrRn s1))"] s1(3) by (auto simp: m_def)
  then have "handed_prop m None (Loop node_led) (Loop (s1\<lparr>nrRn := rn\<rparr>))"
    by (intro handed_prop.intros s1(1,2))
  then have p: "node_Propose None [1] (Loop node_led) (Loop (s1\<lparr>nrRn := rn\<rparr>)) None"
    unfolding node_Propose_def node_stepWait_def m_def [symmetric] by (intro result_err) (simp_all add: m_def)
  have "nrPropc node_led \<longrightarrow> nrLead node_led \<noteq> 0" by (simp add: node_led_def node_sample_def)
  from node_Propose_answer [OF p this] p show ?thesis by fastforce
qed

end
