(* ===== verification/Raft_Cluster.thy ===== *)
theory Raft_Cluster
  imports Raft_Behaviour
begin

section \<open>A group of raft peers\<close>

text \<open>
  The peers of \<^verbatim>\<open>raft.go\<close> composed over a network. A state is the peers and the set of all messages that were handed to the network:
  a message can be delivered late, repeatedly, out of order or never. The drivers tick the peers, step local messages and take the
  outgoing messages away.

  \<open>unelected\<close> is the invariant of a peer that has no votes but its own. Since every response to a vote request is a rejection
  (\<^verbatim>\<open>Step\<close>), a group with at least two voters keeps it in all its peers, and never has a leader.
\<close>

subsection \<open>One vote is not enough\<close>

definition several_voters :: "JointConfig \<Rightarrow> bool" where
  "several_voters c \<longleftrightarrow> distinct (fst c) \<and> 2 \<le> length (fst c) \<or> distinct (snd c) \<and> 2 \<le> length (snd c)"

lemma granted_own:
  assumes "distinct m" "\<forall>i. v i = Some True \<longrightarrow> i = me"
  shows "granted m v \<le> 1"
proof -
  have "set (filter (\<lambda>i. v i = Some True) m) \<subseteq> {me}"
    using assms(2) by auto
  then have "card (set (filter (\<lambda>i. v i = Some True) m)) \<le> card {me}"
    by (intro card_mono) auto
  then show ?thesis
    using distinct_card [of "filter (\<lambda>i. v i = Some True) m"] assms(1) by (simp add: granted_def)
qed

lemma own_vote_loses:
  assumes "several_voters c" "\<forall>i. v i = Some True \<longrightarrow> i = me"
  shows "JointConfig_VoteResult c v \<noteq> VoteWon"
proof -
  have "MajorityConfig_VoteResult m v \<noteq> VoteWon" if "distinct m" "2 \<le> length m" for m
    using granted_own [OF that(1) assms(2)] that(2) by (auto simp: VoteResult_eq)
  then show ?thesis
    using assms(1) by (auto simp: several_voters_def JointConfig_VoteResult_def Let_def split: if_splits)
qed

subsection \<open>Peers without foreign votes\<close>

definition own_votes :: "raft \<Rightarrow> bool" where
  "own_votes r \<longleftrightarrow> (\<forall>i. votes_map (rTrk r) i = Some True \<longrightarrow> i = rId r)"

definition unelected :: "raft \<Rightarrow> bool" where
  "unelected r \<longleftrightarrow> role_ok r \<and> rState r \<noteq> StateLeader \<and> own_votes r \<and>
     (rState r = StateCandidate \<or> progress r (rId r) \<noteq> None \<longrightarrow> several_voters (tVoters (rTrk r)))"

text \<open>A step that touches neither role nor tracker.\<close>

definition calm :: "raft \<Rightarrow> raft \<Rightarrow> bool" where
  "calm r r' \<longleftrightarrow> quiet r r' \<and> rTrk r' = rTrk r"

lemma calm_unelected: "calm r r' \<Longrightarrow> unelected r \<Longrightarrow> unelected r'"
  by (auto simp: calm_def unelected_def own_votes_def progress_def quiet_role quiet_fields)

lemma calm_trans: "calm a b \<Longrightarrow> calm b c \<Longrightarrow> calm a c"
  by (auto simp: calm_def intro: quiet_trans)

named_theorems calm_intros \<open>operations that touch neither role nor tracker\<close>

lemma calmI:
  assumes "ensures m (quiet r)" "ensures m (\<lambda>r'. rTrk r' = rTrk r)"
  shows "ensures m (calm r)"
  using assms by (auto simp: ensures_def calm_def)

lemma ensures_calm: "unelected r \<Longrightarrow> ensures m (calm r) \<Longrightarrow> ensures m unelected"
  by (erule ensures_mono) (rule calm_unelected)

lemma send_trk: "rTrk r = trk \<Longrightarrow> ensures (send m r) (\<lambda>r'. rTrk r' = trk)"
  by (simp add: send_def ensures_def Let_def)

lemma send_calm [calm_intros]:
  "mType m = MsgVoteResp \<or> mType m = MsgPreVoteResp \<longrightarrow> mReject m \<Longrightarrow> ensures (send m r) (calm r)"
  by (rule calmI [OF send_quiet send_trk]) simp_all

lemma handleHeartbeat_calm [calm_intros]: "ensures (handleHeartbeat m r) (calm r)"
proof (rule calmI [OF handleHeartbeat_quiet])
  show "ensures (handleHeartbeat m r) (\<lambda>r'. rTrk r' = rTrk r)"
    unfolding handleHeartbeat_def set_log_def bind_assoc by (intro pure_bind send_trk) auto
qed simp

lemma handleAppendEntries_calm [calm_intros]: "ensures (handleAppendEntries m r) (calm r)"
proof (rule calmI [OF handleAppendEntries_quiet])
  show "ensures (handleAppendEntries m r) (\<lambda>r'. rTrk r' = rTrk r)"
    unfolding handleAppendEntries_def
    by (intro pure_bind ensures_ifI ensures_prodI ensures_LetI send_trk ensures_NoneI) simp_all
qed simp

lemma sendVoteRequest_calm [calm_intros]:
  assumes "vt = MsgVote \<or> vt = MsgPreVote"
  shows "ensures (sendVoteRequest t trm vt i r) (calm r)"
proof (rule calmI [OF sendVoteRequest_quiet [OF _ assms]])
  show "ensures (sendVoteRequest t trm vt i r) (\<lambda>r'. rTrk r' = rTrk r)"
    unfolding sendVoteRequest_def
    by (intro pure_bind ensures_ifI ensures_LetI send_trk ensures_returnI) simp_all
qed simp

lemma voteRequests_calm [calm_intros]:
  assumes "vt = MsgVote \<or> vt = MsgPreVote"
  shows "ensures (foldM (sendVoteRequest t trm vt) ids r) (calm r)"
proof (induction ids arbitrary: r)
  case (Cons i ids)
  show ?case
    unfolding foldM.simps
  proof (rule ensures_bindI [OF sendVoteRequest_calm [OF assms]])
    fix r1 assume r1: "calm r r1"
    show "ensures (foldM (sendVoteRequest t trm vt) ids r1) (calm r)"
      by (rule ensures_mono [OF Cons.IH]) (rule calm_trans [OF r1])
  qed
qed (simp add: wp calm_def)

subsection \<open>Role changes and elections\<close>

lemma reset_trk: "reset t r = Some r' \<Longrightarrow> rTrk r' = rTrk r \<and> rId r' = rId r"
  using reset_effect(8,11) by (simp add: same_env_def)

text \<open>What counts for a peer without foreign votes, when only the role changes.\<close>

lemma unelectedI:
  assumes "unelected r" "rTrk r' = rTrk r" "rId r' = rId r" "role_ok r'" "rState r' \<noteq> StateLeader"
    and "rState r' = StateFollower \<or> progress r (rId r) \<noteq> None"
  shows "unelected r'"
  using assms by (auto simp: unelected_def own_votes_def progress_def)

lemma becomeFollower_unelected:
  assumes "unelected r"
  shows "ensures (becomeFollower t lead r) (\<lambda>r'. unelected r' \<and> rState r' = StateFollower)"
proof (rule ensures_I)
  fix r' assume call: "becomeFollower t lead r = Some r'"
  then obtain r1 where "reset t (r\<lparr>rStep := Some stepFollowerF\<rparr>) = Some r1" "rTrk r' = rTrk r1" "rId r' = rId r1"
    by (auto simp: becomeFollower_def bind_Some_iff Let_def)
  then have same: "rTrk r' = rTrk r" "rId r' = rId r"
    using reset_trk by fastforce+
  have "rId r \<noteq> 0" using assms by (simp add: unelected_def role_ok_def)
  from ensures_D [OF becomeFollower_effect [OF this] call] show "unelected r' \<and> rState r' = StateFollower"
    using unelectedI [OF assms same] by (simp add: moves_def)
qed

lemma becomeCandidate_unelected:
  assumes "unelected r" "progress r (rId r) \<noteq> None"
  shows "ensures (becomeCandidate r) (\<lambda>r'. unelected r' \<and> rState r' = StateCandidate)"
proof (rule ensures_I)
  fix r' assume call: "becomeCandidate r = Some r'"
  then obtain r1 where "reset (rTerm r + 1) (r\<lparr>rStep := Some stepCandidateF\<rparr>) = Some r1" "rTrk r' = rTrk r1" "rId r' = rId r1"
    by (auto simp: becomeCandidate_def bind_Some_iff Let_def split: if_splits)
  then have same: "rTrk r' = rTrk r" "rId r' = rId r"
    using reset_trk by fastforce+
  have "rId r \<noteq> 0" using assms by (simp add: unelected_def role_ok_def)
  from ensures_D [OF becomeCandidate_effect [OF this] call] show "unelected r' \<and> rState r' = StateCandidate"
    using unelectedI [OF assms(1) same] assms(2) by (simp add: moves_def)
qed

lemma poll_unelected:
  assumes "unelected r" "v \<longrightarrow> i = rId r" "several_voters (tVoters (rTrk r))"
  shows "ensures (poll i t v r) (\<lambda>(r', gr, rj, res). unelected r' \<and> res \<noteq> VoteWon)"
proof (rule ensures_I)
  fix x assume call: "poll i t v r = Some x"
  then obtain trk where trk: "ProgressTracker_RecordVote (rTrk r) i v = Some trk" "x = (r\<lparr>rTrk := trk\<rparr>, ProgressTracker_TallyVotes trk)"
    by (auto simp: poll_def bind_Some_iff split: if_splits)
  have same: "tVoters trk = tVoters (rTrk r)" "tProgress trk = tProgress (rTrk r)"
    and votes: "votes_map trk = (if votes_map (rTrk r) i = None then (votes_map (rTrk r))(i \<mapsto> v) else votes_map (rTrk r))"
    using trk(1) by (auto simp: ProgressTracker_RecordVote_def votes_map_def split: option.splits if_splits)
  have own: "\<forall>j. votes_map trk j = Some True \<longrightarrow> j = rId r"
    using assms(1,2) by (auto simp: votes unelected_def own_votes_def split: if_splits)
  have "quiet r (r\<lparr>rTrk := trk\<rparr>)" by simp
  then have "unelected (r\<lparr>rTrk := trk\<rparr>)"
    using assms(1,3) own same quiet_role [of r "r\<lparr>rTrk := trk\<rparr>"]
    by (auto simp: unelected_def own_votes_def progress_def)
  moreover have "snd (snd (ProgressTracker_TallyVotes trk)) \<noteq> VoteWon"
    using own_vote_loses [of "tVoters trk"] own same assms(3) by (simp add: ProgressTracker_TallyVotes_def split: prod.split)
  ultimately show "case x of (r', gr, rj, res) \<Rightarrow> unelected r' \<and> res \<noteq> VoteWon"
    by (simp add: trk(2) case_prod_unfold)
qed


text \<open>A peer that may campaign wins nothing with its own vote.\<close>

definition may_campaign :: "raft \<Rightarrow> bool" where
  "may_campaign r \<longleftrightarrow> rState r = StateCandidate \<or> progress r (rId r) \<noteq> None"

lemma unelected_voters: "unelected r \<Longrightarrow> may_campaign r \<Longrightarrow> several_voters (tVoters (rTrk r))"
  by (auto simp: unelected_def may_campaign_def)

text \<open>The second half of \<^verbatim>\<open>campaign\<close>: the peer votes for itself and asks the others.\<close>

lemma ask_others_unelected:
  assumes "unelected r" "may_campaign r" "vt = MsgVote \<or> vt = MsgPreVote"
  shows "ensures (do {
     (r, _, _, res) \<leftarrow> poll (rId r) respType True r;
     if res = VoteWon then won r else foldM (sendVoteRequest t trm vt) (ids r) r }) unelected"
proof (rule ensures_bindI [OF poll_unelected [OF assms(1) _ unelected_voters [OF assms(1,2)]]])
  fix x :: "raft \<times> nat \<times> nat \<times> VoteResult"
  assume "case x of (r', gr, rj, res) \<Rightarrow> unelected r' \<and> res \<noteq> VoteWon"
  then show "ensures (case x of (r, _, _, res) \<Rightarrow>
      if res = VoteWon then won r else foldM (sendVoteRequest t trm vt) (ids r) r) unelected"
    using ensures_calm [OF _ voteRequests_calm [OF assms(3)]] by (auto split: prod.split)
qed simp

lemma campaign_unelected:
  assumes "unelected r" "progress r (rId r) \<noteq> None"
  shows "ensures (campaign t r) unelected"
proof (cases "t = campaignElection")
  case True
  have may: "may_campaign r" using assms(2) by (simp add: may_campaign_def)
  show ?thesis
    unfolding True
    by (subst campaign.simps, rule pure_bind) (simp add: voteRespMsgType_def becomePreCandidate_def,
        rule ask_others_unelected [OF assms(1) may], simp)
next
  case False
  have ask: "ensures (do {
       (r, _, _, res) \<leftarrow> poll (rId r) MsgVoteResp True r;
       if res = VoteWon then if t = campaignPreElection then campaign campaignElection r else becomeLeader r
       else foldM (sendVoteRequest t (rTerm r1) MsgVote) (sort (JointConfig_IDs (tVoters (rTrk r)))) r }) unelected"
    if "unelected r" "rState r = StateCandidate" for r r1
    by (rule ask_others_unelected) (use that in \<open>simp_all add: may_campaign_def\<close>)
  show ?thesis
    by (subst campaign.simps, rule pure_bind) (simp add: False voteRespMsgType_def,
        rule ensures_bindI [OF becomeCandidate_unelected [OF assms]], rule ask, simp_all)
qed

lemma promotable_progress: "promotable r \<Longrightarrow> progress r (rId r) \<noteq> None"
  by (auto simp: promotable_def split: option.splits)

lemma hup_unelected: "unelected r \<Longrightarrow> ensures (hup t r) unelected"
  unfolding hup_def
  by (rule ensures_ifI pure_bind ensures_returnI ensures_prodI ensures_NoneI campaign_unelected promotable_progress | simp)+

subsection \<open>Stepping a message\<close>

text \<open>A response that grants a vote.\<close>

definition granting :: "RaftMessage \<Rightarrow> bool" where
  "granting m \<longleftrightarrow> (mType m = MsgVoteResp \<or> mType m = MsgPreVoteResp) \<and> \<not> mReject m"

lemma sent_ok_not_granting: "sent_ok m \<Longrightarrow> \<not> granting m"
  by (auto simp: sent_ok_def granting_def)

lemma stepVote_unelected:
  assumes "unelected r"
  shows "ensures (stepVote m r) unelected"
proof (rule ensures_I)
  fix r' assume call: "stepVote m r = Some r'"
  then obtain t r1 where send: "send (RaftMessage_zero\<lparr>mTo := mFrom m, mTerm := rTerm r, mType := t, mReject := True\<rparr>) r = Some r1"
    and r': "rTrk r' = rTrk r1" "rState r' = rState r1"
    by (fastforce simp: stepVote_def Let_def bind_Some_iff split: if_splits)
  have r1: "rTrk r1 = rTrk r" "rState r1 = rState r"
    using ensures_D [OF send_calm send] by (auto simp: calm_def quiet_fields)
  have "goes False r r'"
    using ensures_D [OF stepVote_goes call] assms by (simp add: unelected_def)
  then have "role_ok r'" "rId r' = rId r"
    by (simp_all add: goes_def moves_def same_env_def)
  then show "unelected r'"
    using assms r1 r' by (simp add: unelected_def own_votes_def progress_def)
qed

text \<open>A snapshot leaves the tracker as it is or empties it.\<close>

lemma handleSnapshot_unelected:
  assumes "unelected r" "rState r = StateFollower"
  shows "ensures (handleSnapshot m r) unelected"
proof -
  let ?ts = "{rTrk r, MakeProgressTracker (tMaxInflight (rTrk r))}"
  have restore: "ensures (restore s r) (\<lambda>(r1, ok). rTrk r1 \<in> ?ts)" for s
    unfolding restore_def using assms(2)
    by (intro pure_bind ensures_ifI ensures_LetI ensures_returnI) simp_all
  have send: "ensures (send m r1) (\<lambda>r'. rTrk r' \<in> ?ts)" if "rTrk r1 \<in> ?ts" for m r1
    using send_trk [OF refl, of m r1] that by (elim ensures_mono) simp
  have "ensures (handleSnapshot m r) (\<lambda>r'. rTrk r' \<in> ?ts)"
    unfolding handleSnapshot_def
    by (rule pure_bind, rule pure_bind, rule ensures_bindI [OF restore], rule ensures_prodI)
      (intro pure_bind ensures_ifI send; simp)
  moreover have "ensures (handleSnapshot m r) (quiet r)"
    by (rule handleSnapshot_quiet [OF quiet_refl assms(2)])
  moreover have "unelected r'" if "rTrk r' \<in> ?ts" "quiet r r'" for r'
    using assms that quiet_role [OF that(2)] quiet_fields [OF that(2)]
    by (auto simp: unelected_def own_votes_def progress_def MakeProgressTracker_def votes_map_def)
  ultimately show ?thesis
    unfolding ensures_def by blast
qed


definition unelected2 :: "raft \<times> 'a \<Rightarrow> bool" where
  "unelected2 p = unelected (fst p)"

lemma unelected2_pair [simp]: "unelected2 (r, x) = unelected r"
  by (simp add: unelected2_def)

lemma ensures_pair: "ensures m unelected \<Longrightarrow> ensures (Option.bind m (\<lambda>r. Some (r, x))) unelected2"
  by (auto simp: wp elim: ensures_mono)

lemma stepTerm_unelected:
  assumes "unelected r"
  shows "ensures (stepTerm m r) unelected2"
proof -
  have follow: "ensures (becomeFollower t lead r) unelected" for t lead
    by (rule ensures_mono [OF becomeFollower_unelected [OF assms]]) simp
  have send: "ensures (send m' r) unelected" if "mReject m' \<or> mType m' = MsgAppResp" for m'
    using that by (intro ensures_calm [OF assms] send_calm) auto
  show ?thesis
    unfolding stepTerm_def
    by (intro ensures_ifI ensures_LetI ensures_returnI pure_bind [of "log_info r"] pure_bind [of "Logf (rLogger r)"] ensures_pair)
      (simp_all add: assms follow send ensures_pair)
qed

lemma stepCandidate_unelected:
  assumes "unelected r" "rState r = StateCandidate" "\<not> granting m"
  shows "ensures (stepCandidate m r) unelected2"
proof -
  have handle: "ensures (do { r \<leftarrow> becomeFollower (mTerm m) (mFrom m) r; r \<leftarrow> h r; Some (r, None) }) unelected2"
    if "\<And>r1. unelected r1 \<Longrightarrow> rState r1 = StateFollower \<Longrightarrow> ensures (h r1) unelected" for h
    by (rule ensures_bindI [OF becomeFollower_unelected [OF assms(1)]], rule ensures_pair) (use that in blast)
  have voters: "several_voters (tVoters (rTrk r))"
    using assms(1,2) by (simp add: unelected_def)
  have poll: "ensures (do { (r, gr, rj, res) \<leftarrow> poll (mFrom m) (mType m) (\<not> mReject m) r; Logf (rLogger r);
       r \<leftarrow> (case res of VotePending \<Rightarrow> Some r | VoteLost \<Rightarrow> becomeFollower (rTerm r) NoneID r
         | VoteWon \<Rightarrow> if rState r = StatePreCandidate then campaign campaignElection r
            else becomeLeader r \<bind> bcastAppend); Some (r, None) }) unelected2"
    if "mType m = MsgVoteResp"
  proof (rule ensures_bindI [OF poll_unelected [OF assms(1) _ voters]])
    show "\<not> mReject m \<longrightarrow> mFrom m = rId r" using that assms(3) by (simp add: granting_def)
    fix x :: "raft \<times> nat \<times> nat \<times> VoteResult"
    assume x: "case x of (r', gr, rj, res) \<Rightarrow> unelected r' \<and> res \<noteq> VoteWon"
    show "ensures (case x of (r, gr, rj, res) \<Rightarrow> do { Logf (rLogger r);
       r \<leftarrow> (case res of VotePending \<Rightarrow> Some r | VoteLost \<Rightarrow> becomeFollower (rTerm r) NoneID r
         | VoteWon \<Rightarrow> if rState r = StatePreCandidate then campaign campaignElection r
            else becomeLeader r \<bind> bcastAppend); Some (r, None) }) unelected2"
      using x ensures_mono [OF becomeFollower_unelected]
      by (auto split!: prod.split VoteResult.split intro!: pure_bind ensures_pair simp: wp)
  qed
  show ?thesis
    unfolding stepCandidate_def Let_def
    by (intro ensures_ifI pure_bind [of "Logf (rLogger r)"] handle ensures_returnI ensures_calm [OF _ handleAppendEntries_calm]
        ensures_calm [OF _ handleHeartbeat_calm] handleSnapshot_unelected poll) (simp_all add: assms)
qed

lemma stepFollower_unelected:
  assumes "unelected r" "rState r = StateFollower"
  shows "ensures (stepFollower m r) unelected2"
proof -
  let ?r = "r\<lparr>rElectionElapsed := 0, rLead := mFrom m\<rparr>"
  have lead: "unelected ?r" "rState ?r = StateFollower"
    using assms by (simp_all add: unelected_def own_votes_def progress_def role_ok_def)
  have send: "ensures (send (m\<lparr>mTo := x\<rparr>) r) unelected" if "mType m \<in> {MsgProp, MsgTransferLeader, MsgReadIndex}" for x
    using that by (intro ensures_calm [OF assms(1)] send_calm) auto
  have read: "unelected (r\<lparr>rReadStates := x\<rparr>)" for x
    by (rule calm_unelected [OF _ assms(1)]) (simp add: calm_def)
  note handlers = ensures_pair [OF ensures_calm [OF lead(1) handleHeartbeat_calm]] ensures_pair [OF handleSnapshot_unelected [OF lead]]
    ensures_pair [OF hup_unelected [OF assms(1)]] ensures_pair [OF send]
  show ?thesis
    unfolding stepFollower_def using assms(1) lead(1) read
    by (simp split: MessageType.split)
      (intro conjI impI handlers pure_bind [of "Logf (rLogger r)"] pure_bind [of "reqKey m"]; simp add: wp assms(1))
qed


lemma Step_unelected:
  assumes "unelected r" "\<not> granting m"
  shows "ensures (Step m r) unelected2"
  unfolding Step_def
proof (rule ensures_bindI [OF stepTerm_unelected [OF assms(1), of m]])
  fix x :: "raft \<times> bool" assume "unelected2 x"
  then obtain r1 goOn where x: "x = (r1, goOn)" and r1: "unelected r1" by (cases x) simp
  have "ensures (callStep m r1) unelected2"
  proof (cases "rState r1")
    case StateFollower
    then show ?thesis
      using r1 stepFollower_unelected [OF r1] by (simp add: callStep_def unelected_def role_ok_def)
  next
    case StateCandidate
    then show ?thesis
      using r1 stepCandidate_unelected [OF r1 _ assms(2)] by (simp add: callStep_def unelected_def role_ok_def)
  qed (use r1 in \<open>simp_all add: unelected_def role_ok_def\<close>)
  then show "ensures (case x of (r, goOn) \<Rightarrow>
      if \<not> goOn then Some (r, None)
      else if mType m = MsgHup then do {
        r \<leftarrow> (if rPreVote r then hup campaignPreElection r else hup campaignElection r);
        Some (r, None)
      }
      else if mType m = MsgVote \<or> mType m = MsgPreVote then do { r \<leftarrow> stepVote m r; Some (r, None) }
      else callStep m r) unelected2"
    unfolding x prod.case
    by (intro ensures_ifI ensures_returnI ensures_pair hup_unelected [OF r1] stepVote_unelected [OF r1]) (simp_all add: r1)
qed

lemma callTick_unelected:
  assumes "unelected r"
  shows "ensures (callTick r) unelected"
proof -
  let ?r = "r\<lparr>rElectionElapsed := rElectionElapsed r + 1\<rparr>"
  have calm: "unelected ?r" "unelected (?r\<lparr>rElectionElapsed := 0\<rparr>)"
    by (rule calm_unelected [OF _ assms], simp add: calm_def)+
  have "\<not> granting (RaftMessage_zero\<lparr>mFrom := rId ?r, mType := MsgHup\<rparr>)"
    by (simp add: granting_def)
  from Step_unelected [OF calm(2) this]
  have "ensures (stepLogged (RaftMessage_zero\<lparr>mFrom := rId ?r, mType := MsgHup\<rparr>) (?r\<lparr>rElectionElapsed := 0\<rparr>)) unelected"
    unfolding stepLogged_def by (rule ensures_bindI) (auto simp: wp)
  then have "ensures (tickElection r) unelected"
    using calm(1) by (simp add: tickElection_def wp)
  moreover have "rTick r = Some tickElectionF"
    using assms by (auto simp: unelected_def role_ok_def split: StateType.splits)
  ultimately show ?thesis
    by (simp add: callTick_def)
qed

subsection \<open>The network\<close>

type_synonym raft_net = "(uint64 \<Rightarrow> raft) \<times> RaftMessage set"

text \<open>
  A driver delivers a message of the network to its addressee, steps a message of its own, which is not a response to a vote
  request, ticks the peer, or takes the outgoing messages away. All messages a peer has put into \<^verbatim>\<open>msgs\<close> may travel.
\<close>

inductive net_step :: "raft_net \<Rightarrow> raft_net \<Rightarrow> bool" where
  deliver: "m \<in> net \<Longrightarrow> Step m (ps (mTo m)) = Some (r, err) \<Longrightarrow>
    net_step (ps, net) (ps(mTo m := r), net \<union> set (rMsgs r))"
| local: "mType m \<noteq> MsgVoteResp \<Longrightarrow> mType m \<noteq> MsgPreVoteResp \<Longrightarrow> Step m (ps i) = Some (r, err) \<Longrightarrow>
    net_step (ps, net) (ps(i := r), net \<union> set (rMsgs r))"
| tick: "callTick (ps i) = Some r \<Longrightarrow> net_step (ps, net) (ps(i := r), net \<union> set (rMsgs r))"
| take_msgs: "net_step (ps, net) (ps(i := (ps i)\<lparr>rMsgs := []\<rparr>), net)"

definition peer_inv :: "raft \<Rightarrow> bool" where
  "peer_inv r \<longleftrightarrow> unelected r \<and> (\<forall>m \<in> set (rMsgs r). \<not> granting m)"

definition net_inv :: "raft_net \<Rightarrow> bool" where
  "net_inv s \<longleftrightarrow> (\<forall>i. peer_inv (fst s i)) \<and> (\<forall>m \<in> snd s. \<not> granting m)"

lemma goes_messages: "goes C r r' \<Longrightarrow> \<forall>m \<in> set (rMsgs r). \<not> granting m \<Longrightarrow> \<forall>m \<in> set (rMsgs r'). \<not> granting m"
  by (auto simp: goes_def moves_def grows_def list_all_iff dest: sent_ok_not_granting)

lemma Step_peer_inv:
  assumes "peer_inv r" "\<not> granting m" "Step m r = Some (r', err)"
  shows "peer_inv r'"
proof -
  have r: "unelected r" "role_ok r" using assms(1) by (simp_all add: peer_inv_def unelected_def)
  have "goes False r r'"
    using ensures_D [OF Step_goes [OF r(2), of False] assms(3)] by simp
  then show ?thesis
    using assms(1) goes_messages ensures_D [OF Step_unelected [OF r(1) assms(2)] assms(3)] by (simp add: peer_inv_def)
qed

lemma callTick_peer_inv:
  assumes "peer_inv r" "callTick r = Some r'"
  shows "peer_inv r'"
proof -
  have r: "unelected r" "role_ok r" using assms(1) by (simp_all add: peer_inv_def unelected_def)
  have "goes False r r'"
    using ensures_D [OF callTick_goes [OF r(2), of False] assms(2)] by simp
  then show ?thesis
    using assms(1) goes_messages ensures_D [OF callTick_unelected [OF r(1)] assms(2)] by (simp add: peer_inv_def)
qed

interpretation raft_group: step_invariant net_step net_inv
proof
  fix s s' assume inv: "net_inv s" and "net_step s s'"
  from this(2) show "net_inv s'"
  proof cases
    case (deliver m net ps r err)
    then show ?thesis
      using inv Step_peer_inv [of "ps (mTo m)" m r err] by (auto simp: net_inv_def peer_inv_def)
  next
    case (local m ps i r err net)
    then show ?thesis
      using inv Step_peer_inv [of "ps i" m r err] by (auto simp: net_inv_def peer_inv_def granting_def)
  next
    case (tick ps i r net)
    then show ?thesis
      using inv callTick_peer_inv [of "ps i" r] by (auto simp: net_inv_def peer_inv_def)
  next
    case (take_msgs ps net i)
    then show ?thesis
      using inv by (auto simp: net_inv_def peer_inv_def unelected_def own_votes_def progress_def role_ok_def split: StateType.splits)
  qed
qed

text \<open>
  C34: no leader is ever elected. Followers whose configuration has at least two voters and that have recorded no vote yet, connected by
  a network that may lose, delay, repeat and reorder their messages, driven by ticks and any local messages, never
  have a leader among them, and no message grants a vote: the response to a vote request is always a rejection, so
  a candidate has no vote but its own.
\<close>

theorem raft_group_never_elects:
  assumes "net_step\<^sup>*\<^sup>* (ps, {}) (ps', net)"
    and "\<And>i. role_ok (ps i) \<and> rState (ps i) = StateFollower \<and> tVotes (rTrk (ps i)) = Some [] \<and> rMsgs (ps i) = [] \<and>
      several_voters (tVoters (rTrk (ps i)))"
  shows "rState (ps' i) \<noteq> StateLeader \<and> (\<forall>m \<in> net. \<not> granting m)"
proof -
  have "peer_inv (ps i)" for i
    using assms(2) [of i] by (simp add: peer_inv_def unelected_def own_votes_def votes_map_def)
  then have "net_inv (ps, {})"
    by (simp add: net_inv_def)
  from raft_group.run_keeps [OF assms(1) this] show ?thesis
    by (simp add: net_inv_def peer_inv_def unelected_def)
qed

text \<open>A group of copies of the sample peer; peer 1 is asked for its vote and answers with a rejection.\<close>

theorem raft_group_never_elects_witness:
  "\<exists>ps' net. net_step\<^sup>*\<^sup>* (\<lambda>i. raft_sample\<lparr>rId := if i = 0 then 1 else i\<rparr>, {}) (ps', net) \<and> rVote (ps' 1) = 2 \<and>
     rState (ps' 1) \<noteq> StateLeader"
proof -
  let ?ps = "\<lambda>i. raft_sample\<lparr>rId := if i = 0 then 1 else i\<rparr>"
  have one: "?ps 1 = raft_sample" by (simp add: raft_sample_def)
  obtain r' where r': "Step vote_sample raft_sample = Some (r', None)" "rVote r' = 2"
    using raft_sample_votes by blast
  have "Step vote_sample (?ps 1) = Some (r', None)"
    using r'(1) by (simp only: one)
  then have "net_step (?ps, {}) (?ps(1 := r'), {} \<union> set (rMsgs r'))"
    by (rule local [rotated 2]) (simp_all add: vote_sample_def)
  then have run: "net_step\<^sup>*\<^sup>* (?ps, {}) (?ps(1 := r'), {} \<union> set (rMsgs r'))" by blast
  have "rState ((?ps(1 := r')) 1) \<noteq> StateLeader \<and> (\<forall>m \<in> {} \<union> set (rMsgs r'). \<not> granting m)"
    by (rule raft_group_never_elects [OF run])
      (simp add: raft_sample_def raft_zero_def role_ok_def several_voters_def)
  then show ?thesis
    using run r'(2) by (intro exI [of _ "?ps(1 := r')"] exI [of _ "{} \<union> set (rMsgs r')"]) simp
qed

end
