(* ===== verification/Go_IO.thy ===== *)
theory Go_IO
  imports Go_Prelude "HOL-Library.Signed_Division"
begin

section \<open>Go's io interfaces\<close>

text \<open>
  What the byte utilities and the write-ahead log use of Go's standard library: error values, truncating
  division, \<^verbatim>\<open>copy\<close>, \<^verbatim>\<open>io.Writer\<close>, \<^verbatim>\<open>io.Reader\<close> and \<^verbatim>\<open>io.ReadFull\<close>, little-endian integers and strings of decimal
  numbers.

  A writer of state \<open>'w\<close> is its \<^verbatim>\<open>Write\<close> method: a function from the state and the bytes to the new
  state, the number of bytes written and the error, or \<^term>\<open>None\<close> for a panic. A reader is its \<^verbatim>\<open>Read\<close> method:
  from the state and the length of the caller's buffer to the new state, the bytes that were put into the buffer
  and the error. The locale \<open>lossless_writer\<close> is the contract of a writer that does not fail, with the bytes
  it has taken so far (\<open>written\<close>) and an invariant of its state; the page writer relies on such a writer and is one.
\<close>

datatype goerr =
    IoEOF | IoErrUnexpectedEOF | ErrShortRead | ErrExpectEOF | ErrCRCMismatch | ErrMaxWalEntrySizeLimitExceeded
  | OtherError string

subsection \<open>Integers\<close>

text \<open>\<^verbatim>\<open>/\<close> and \<^verbatim>\<open>%\<close> truncate towards zero and panic on a zero divisor.\<close>

definition go_div :: "int \<Rightarrow> int \<Rightarrow> int option" where
  "go_div a b = (if b = 0 then None else Some (a sdiv b))"

definition go_mod :: "int \<Rightarrow> int \<Rightarrow> int option" where
  "go_mod a b = (if b = 0 then None else Some (a smod b))"

lemma go_div_pos [simp]: "0 \<le> a \<Longrightarrow> 0 < b \<Longrightarrow> go_div a b = Some (a div b)"
  by (cases "a = 0") (simp_all add: go_div_def signed_divide_int_def)

lemma go_mod_pos [simp]: "0 \<le> a \<Longrightarrow> 0 < b \<Longrightarrow> go_mod a b = Some (a mod b)"
  by (cases "a = 0") (simp_all add: go_mod_def signed_modulo_int_def signed_divide_int_def minus_div_mult_eq_mod)

subsection \<open>Byte slices\<close>

text \<open>\<^verbatim>\<open>copy(buf[lo:], p)\<close>: the elements that fit replace those from \<open>lo\<close> on.\<close>

definition go_copy :: "'a list \<Rightarrow> int \<Rightarrow> 'a list \<Rightarrow> 'a list option" where
  "go_copy buf lo p =
     (if 0 \<le> lo \<and> lo \<le> int (length buf)
      then Some (take (nat lo) buf @ take (length buf - nat lo) p @ drop (nat lo + length p) buf)
      else None)"

definition go_len :: "'a list \<Rightarrow> int" where
  "go_len xs = int (length xs)"

lemma go_len_simps [simp]: "go_len [] = 0" "go_len (x # xs) = 1 + go_len xs" "go_len (xs @ ys) = go_len xs + go_len ys"
  by (simp_all add: go_len_def)

lemma go_len_nonneg [simp]: "0 \<le> go_len xs"
  by (simp add: go_len_def)

lemma go_slice_prefix [simp]: "0 \<le> hi \<Longrightarrow> hi \<le> go_len xs \<Longrightarrow> go_slice xs 0 hi = Some (take (nat hi) xs)"
  by (simp add: go_slice_def go_len_def)

lemma go_slice_suffix [simp]:
  "0 \<le> lo \<Longrightarrow> lo \<le> go_len xs \<Longrightarrow> go_slice xs lo (go_len xs) = Some (drop (nat lo) xs)"
  by (simp add: go_slice_def go_len_def)

lemma go_copy_fits:
  assumes "0 \<le> lo" "lo + go_len p \<le> go_len buf"
  shows "\<exists>buf'. go_copy buf lo p = Some buf' \<and> length buf' = length buf \<and>
    take (nat (lo + go_len p)) buf' = take (nat lo) buf @ p"
proof -
  have *: "nat (lo + go_len p) = nat lo + length p" "nat lo + length p \<le> length buf"
    using assms by (auto simp: go_len_def nat_add_distrib)
  then show ?thesis
    using assms by (cases "p = []") (simp_all add: go_copy_def go_len_def)
qed

subsection \<open>Writers\<close>

type_synonym 'w io_write = "'w \<Rightarrow> bytes \<Rightarrow> ('w \<times> int \<times> goerr option) option"

locale lossless_writer =
  fixes wr :: "'w io_write"
    and written :: "'w \<Rightarrow> bytes"
    and wr_ok :: "'w \<Rightarrow> bool"
  assumes wr_takes_all: "wr_ok w \<Longrightarrow>
    \<exists>w'. wr w p = Some (w', go_len p, None) \<and> wr_ok w' \<and> written w' = written w @ p"

begin

lemma wr_takes_allE:
  assumes "wr_ok w"
  obtains w' where "wr w p = Some (w', go_len p, None)" "wr_ok w'" "written w' = written w @ p"
  using wr_takes_all [OF assms] by blast

end

text \<open>A \<^verbatim>\<open>bytes.Buffer\<close> and a file opened for appending take every byte they are given.\<close>

definition buffer_Write :: "bytes io_write" where
  "buffer_Write b p = Some (b @ p, go_len p, None)"

interpretation buffer: lossless_writer buffer_Write id "\<lambda>_. True"
  by unfold_locales (simp add: buffer_Write_def)

subsection \<open>Readers\<close>

type_synonym 'r io_read = "'r \<Rightarrow> nat \<Rightarrow> 'r \<times> bytes \<times> goerr option"

text \<open>
  A buffered reader over a source that delivers \<open>srData\<close> and then fails with \<open>srErr\<close>, which is \<^verbatim>\<open>io.EOF\<close> at the end
  of a file. \<^verbatim>\<open>io.ReadFull\<close> asks for exactly \<open>n\<close> bytes; an end of file in their middle is an unexpected one.
\<close>

record source =
  srData :: bytes
  srErr :: goerr

definition io_ReadFull :: "source \<Rightarrow> nat \<Rightarrow> source \<times> bytes \<times> goerr option" where
  "io_ReadFull s n =
     (if n \<le> length (srData s) then (s\<lparr>srData := drop n (srData s)\<rparr>, take n (srData s), None)
      else (s\<lparr>srData := []\<rparr>, srData s,
            Some (if srErr s = IoEOF \<and> srData s \<noteq> [] then IoErrUnexpectedEOF else srErr s)))"

subsection \<open>Little-endian integers\<close>

text \<open>\<^verbatim>\<open>binary.LittleEndian.PutUint64\<close> and \<^verbatim>\<open>Uint64\<close>: byte \<open>i\<close> holds the bits from \<open>8 * i\<close> on.\<close>

definition le_bytes :: "uint64 \<Rightarrow> bytes" where
  "le_bytes n = map (\<lambda>i. ucast (drop_bit (8 * i) n)) [0..<8]"

fun le_word :: "bytes \<Rightarrow> uint64" where
  "le_word [] = 0"
| "le_word (b # bs) = or (ucast b) (push_bit 8 (le_word bs))"

lemma length_le_bytes [simp]: "length (le_bytes n) = 8"
  by (simp add: le_bytes_def)

lemma bit_le_word:
  "bit (le_word bs) k \<longleftrightarrow> k < 64 \<and> k div 8 < length bs \<and> bit (bs ! (k div 8)) (k mod 8)"
proof (induction bs arbitrary: k)
  case (Cons b bs)
  show ?case
  proof (cases "k < 8")
    case True
    then show ?thesis by (simp add: bit_or_iff bit_ucast_iff bit_push_bit_iff)
  next
    case False
    have "bit b k \<longleftrightarrow> False" using False bit_imp_le_length [of b k] by auto
    moreover have "(k - 8) div 8 = k div 8 - 1" "(k - 8) mod 8 = k mod 8" "0 < k div 8"
      using False by (auto simp: le_div_geq le_mod_geq not_less)
    ultimately show ?thesis
      using False by (simp add: bit_or_iff bit_ucast_iff bit_push_bit_iff Cons.IH nth_Cons' bit_imp_le_length) linarith
  qed
qed simp

lemma le_word_bytes [simp]: "le_word (le_bytes n) = n"
proof (rule bit_word_eqI)
  fix k assume "k < LENGTH(64)"
  then have k: "k < 64" "k div 8 < 8" by auto
  have "k mod 8 < 8" "8 * (k div 8) + k mod 8 = k" by simp_all
  then have "bit (ucast (drop_bit (8 * (k div 8)) n) :: byte) (k mod 8) = bit n k"
    by (simp only: bit_ucast_iff bit_drop_bit_eq comp_def) simp
  with k show "bit (le_word (le_bytes n)) k = bit n k"
    by (simp add: bit_le_word le_bytes_def)
qed

end
