(* ===== verification/Page_Writer.thy ===== *)
theory Page_Writer
  imports Go_IO
begin

section \<open>The page writer\<close>

text \<open>
  \<^verbatim>\<open>src/pkg/ioutil/pagewriter.go\<close>: a writer that buffers and hands the writer below it whole pages. The struct is
  the record \<open>PageWriter\<close> over the state of the writer below, whose \<^verbatim>\<open>Write\<close> method is a parameter. \<^verbatim>\<open>Write\<close> calls
  itself on the rest of its argument, which need not end, so it is a partial function. The offsets and lengths are Go's \<^verbatim>\<open>int\<close> and are not wrapped: the model
  is exact for files of less than \<open>2 ^ 63\<close> bytes.

  Over a lossless writer, \<^verbatim>\<open>Write\<close> returns and loses or reorders no byte: the bytes below followed by those in the
  buffer (\<open>pw_stream\<close>) grow by exactly the argument, and the writer below always stands on a page boundary after
  it was called. Over a failing writer, \<^verbatim>\<open>Write\<close> hides the error of its flush.
\<close>

subsection \<open>The writer\<close>

(* pkg/ioutil/pagewriter.go 7-7 defaultBufferBytes *)
definition defaultBufferBytes :: int where
  "defaultBufferBytes = 128 * 1024"

(* pkg/ioutil/pagewriter.go 10-24 PageWriter *)
record 'w PageWriter =
  pwW :: 'w
  pwPageOffset :: int
  pwPageBytes :: int
  pwBufferedBytes :: int
  pwBuf :: bytes
  pwBufWatermarkBytes :: int

(* pkg/ioutil/pagewriter.go 26-34 NewPageWriter *)
definition NewPageWriter :: "'w \<Rightarrow> int \<Rightarrow> int \<Rightarrow> 'w PageWriter option" where
  "NewPageWriter w pageBytes pageOffset =
     (if defaultBufferBytes + pageBytes < 0 then None
      else Some \<lparr>pwW = w, pwPageOffset = pageOffset, pwPageBytes = pageBytes, pwBufferedBytes = 0,
             pwBuf = replicate (nat (defaultBufferBytes + pageBytes)) 0, pwBufWatermarkBytes = defaultBufferBytes\<rparr>)"

(* pkg/ioutil/pagewriter.go 89-97 PageWriter.flush *)
definition PageWriter_flush :: "'w io_write \<Rightarrow> 'w PageWriter \<Rightarrow> ('w PageWriter \<times> int \<times> goerr option) option" where
  "PageWriter_flush wr pw =
     (if pwBufferedBytes pw = 0 then Some (pw, 0, None)
      else do {
        p \<leftarrow> go_slice (pwBuf pw) 0 (pwBufferedBytes pw);
        (w, n, err) \<leftarrow> wr (pwW pw) p;
        off \<leftarrow> go_mod (pwPageOffset pw + pwBufferedBytes pw) (pwPageBytes pw);
        Some (pw\<lparr>pwW := w, pwPageOffset := off, pwBufferedBytes := 0\<rparr>, n, err)
      })"

(* pkg/ioutil/pagewriter.go 82-85 PageWriter.Flush *)
definition PageWriter_Flush :: "'w io_write \<Rightarrow> 'w PageWriter \<Rightarrow> ('w PageWriter \<times> goerr option) option" where
  "PageWriter_Flush wr pw = do {
     (pw, n, err) \<leftarrow> PageWriter_flush wr pw;
     Some (pw, err)
   }"

(* pkg/ioutil/pagewriter.go 86-88 PageWriter.FlushN *)
definition PageWriter_FlushN :: "'w io_write \<Rightarrow> 'w PageWriter \<Rightarrow> ('w PageWriter \<times> int \<times> goerr option) option" where
  "PageWriter_FlushN wr pw = PageWriter_flush wr pw"

text \<open>The slack of the page in the buffer: the writer, the bytes taken, the bytes left and whether \<^verbatim>\<open>Write\<close> is done.\<close>

(* pkg/ioutil/pagewriter.go 43-61 PageWriter.Write *)
definition fillSlack :: "'w PageWriter \<Rightarrow> bytes \<Rightarrow> ('w PageWriter \<times> int \<times> bytes \<times> bool) option" where
  "fillSlack pw p = do {
     m \<leftarrow> go_mod (pwPageOffset pw + pwBufferedBytes pw) (pwPageBytes pw);
     let slack = pwPageBytes pw - m;
     if slack \<noteq> pwPageBytes pw then do {
       let partial = slack > go_len p;
       let slack = (if partial then go_len p else slack);
       q \<leftarrow> go_slice p 0 slack;
       buf \<leftarrow> go_copy (pwBuf pw) (pwBufferedBytes pw) q;
       rest \<leftarrow> go_slice p slack (go_len p);
       Some (pw\<lparr>pwBuf := buf, pwBufferedBytes := pwBufferedBytes pw + slack\<rparr>, slack, rest, partial)
     }
     else Some (pw, 0, p, False)
   }"

text \<open>The complete pages that go to the writer below without being copied.\<close>

(* pkg/ioutil/pagewriter.go 66-75 PageWriter.Write *)
definition writePages :: "'w io_write \<Rightarrow> 'w PageWriter \<Rightarrow> bytes \<Rightarrow> ('w PageWriter \<times> int \<times> goerr option \<times> bytes) option" where
  "writePages wr pw p =
     (if go_len p > pwPageBytes pw then do {
        pages \<leftarrow> go_div (go_len p) (pwPageBytes pw);
        q \<leftarrow> go_slice p 0 (pages * pwPageBytes pw);
        (w, c, werr) \<leftarrow> wr (pwW pw) q;
        rest \<leftarrow> go_slice p (pages * pwPageBytes pw) (go_len p);
        Some (pw\<lparr>pwW := w\<rparr>, c, werr, rest)
      }
      else Some (pw, 0, None, p))"

(* pkg/ioutil/pagewriter.go 35-81 PageWriter.Write *)
partial_function (option) PageWriter_Write ::
  "'w io_write \<Rightarrow> 'w PageWriter \<Rightarrow> bytes \<Rightarrow> ('w PageWriter \<times> int \<times> goerr option) option" where
  "PageWriter_Write wr pw p =
     (if go_len p + pwBufferedBytes pw \<le> pwBufWatermarkBytes pw then do {
        buf \<leftarrow> go_copy (pwBuf pw) (pwBufferedBytes pw) p;
        Some (pw\<lparr>pwBuf := buf, pwBufferedBytes := pwBufferedBytes pw + go_len p\<rparr>, go_len p, None)
      }
      else do {
        (pw, n, p, partial) \<leftarrow> fillSlack pw p;
        if partial then Some (pw, n, None)
        else do {
          (pw, err) \<leftarrow> PageWriter_Flush wr pw;
          if err \<noteq> None then Some (pw, n, None)
          else do {
            (pw, c, werr, p) \<leftarrow> writePages wr pw p;
            if werr \<noteq> None then Some (pw, n + c, werr)
            else do {
              (pw, c', werr) \<leftarrow> PageWriter_Write wr pw p;
              Some (pw, n + c + c', werr)
            }
          }
        }
      })"

subsection \<open>The invariant\<close>

text \<open>
  The buffer has a page more than the watermark, and the page that the buffer ends in begins at or before the
  watermark, so that there is room to complete it. Pages are no larger than the watermark.
\<close>

definition pw_base :: "'w PageWriter \<Rightarrow> bool" where
  "pw_base pw \<longleftrightarrow> 0 < pwPageBytes pw \<and> pwPageBytes pw \<le> pwBufWatermarkBytes pw \<and> 0 \<le> pwPageOffset pw \<and>
     0 \<le> pwBufferedBytes pw \<and> pwBufferedBytes pw \<le> go_len (pwBuf pw) \<and>
     go_len (pwBuf pw) = pwBufWatermarkBytes pw + pwPageBytes pw"

definition pw_ok :: "'w PageWriter \<Rightarrow> bool" where
  "pw_ok pw \<longleftrightarrow> pw_base pw \<and>
     pwBufferedBytes pw - (pwPageOffset pw + pwBufferedBytes pw) mod pwPageBytes pw \<le> pwBufWatermarkBytes pw"

lemma NewPageWriter_ok:
  assumes "0 < pageBytes" "pageBytes \<le> defaultBufferBytes" "0 \<le> pageOffset"
  shows "\<exists>pw. NewPageWriter w pageBytes pageOffset = Some pw \<and> pw_ok pw \<and> pwW pw = w \<and> pwBufferedBytes pw = 0 \<and>
    pwPageBytes pw = pageBytes \<and> pwPageOffset pw = pageOffset"
proof -
  have "- (pageOffset mod pageBytes) \<le> 131072"
    using pos_mod_sign [OF assms(1), of pageOffset] by linarith
  then show ?thesis
    using assms by (simp add: NewPageWriter_def pw_ok_def pw_base_def defaultBufferBytes_def go_len_def)
qed

definition buffered :: "'w PageWriter \<Rightarrow> bytes" where
  "buffered pw = take (nat (pwBufferedBytes pw)) (pwBuf pw)"

definition pw_stream :: "('w \<Rightarrow> bytes) \<Rightarrow> 'w PageWriter \<Rightarrow> bytes" where
  "pw_stream written pw = written (pwW pw) @ buffered pw"

text \<open>The place in the file that the writer below has reached, modulo the page size, is the page offset.\<close>

definition pw_synced :: "('w \<Rightarrow> bytes) \<Rightarrow> int \<Rightarrow> 'w PageWriter \<Rightarrow> bool" where
  "pw_synced written start pw \<longleftrightarrow> (start + go_len (written (pwW pw))) mod pwPageBytes pw = pwPageOffset pw mod pwPageBytes pw"

lemma mod_room:
  fixes k :: int
  assumes "0 < k" "b - (o' + b) mod k \<le> w"
  shows "b < w + k" "b + (k - (o' + b) mod k) \<le> w + k"
  using assms(2) pos_mod_bound [OF assms(1), of "o' + b"] by linarith+

lemma pw_base_D:
  assumes "pw_base pw"
  shows "0 < pwPageBytes pw" "pwPageBytes pw \<le> pwBufWatermarkBytes pw" "0 \<le> pwPageOffset pw" "0 \<le> pwBufferedBytes pw"
    "pwBufferedBytes pw \<le> go_len (pwBuf pw)" "go_len (pwBuf pw) = pwBufWatermarkBytes pw + pwPageBytes pw"
    "0 \<le> pwPageOffset pw + pwBufferedBytes pw"
  using assms by (auto simp: pw_base_def)

lemma pw_ok_base: "pw_ok pw \<Longrightarrow> pw_base pw"
  by (simp add: pw_ok_def)

lemma pw_okI: "pw_base pw \<Longrightarrow> pwBufferedBytes pw \<le> pwBufWatermarkBytes pw \<Longrightarrow> pw_ok pw"
  using pos_mod_sign [OF pw_base_D(1), of pw "pwPageOffset pw + pwBufferedBytes pw"] unfolding pw_ok_def by linarith

lemma buffered_append:
  assumes "0 \<le> pwBufferedBytes pw" "pwBufferedBytes pw + go_len p \<le> go_len (pwBuf pw)"
  obtains buf where "go_copy (pwBuf pw) (pwBufferedBytes pw) p = Some buf" "go_len buf = go_len (pwBuf pw)"
    "take (nat (pwBufferedBytes pw + go_len p)) buf = buffered pw @ p"
  using go_copy_fits [OF assms] unfolding buffered_def go_len_def by auto

lemma go_len_buffered: "pw_base pw \<Longrightarrow> go_len (buffered pw) = pwBufferedBytes pw"
  by (auto simp: pw_base_def buffered_def go_len_def)

text \<open>What the pieces of \<^verbatim>\<open>Write\<close> do, whatever the writer below is.\<close>

definition pw_same :: "'w PageWriter \<Rightarrow> 'w PageWriter \<Rightarrow> bool" where
  "pw_same pw pw' \<longleftrightarrow> pwPageBytes pw' = pwPageBytes pw \<and> pwBufWatermarkBytes pw' = pwBufWatermarkBytes pw"

text \<open>More bytes at the end of the buffer.\<close>

lemma copy_into_buffer:
  assumes "pw_base pw" "pwBufferedBytes pw + go_len p \<le> go_len (pwBuf pw)"
  obtains buf pw' where "go_copy (pwBuf pw) (pwBufferedBytes pw) p = Some buf"
    "pw' = pw\<lparr>pwBuf := buf, pwBufferedBytes := pwBufferedBytes pw + go_len p\<rparr>"
    "pw_base pw'" "buffered pw' = buffered pw @ p" "pw_same pw pw'"
proof -
  obtain buf where buf: "go_copy (pwBuf pw) (pwBufferedBytes pw) p = Some buf" "go_len buf = go_len (pwBuf pw)"
    "take (nat (pwBufferedBytes pw + go_len p)) buf = buffered pw @ p"
    using buffered_append [OF pw_base_D(4) [OF assms(1)] assms(2)] by blast
  then show thesis
    using assms by (intro that [OF _ refl]) (simp_all add: pw_base_def buffered_def pw_same_def)
qed

lemma Write_fits:
  assumes "pw_ok pw" "go_len p + pwBufferedBytes pw \<le> pwBufWatermarkBytes pw"
  shows "\<exists>pw'. PageWriter_Write wr pw p = Some (pw', go_len p, None) \<and> pw_ok pw' \<and> pwW pw' = pwW pw \<and>
    buffered pw' = buffered pw @ p \<and> pw_same pw pw' \<and> pwPageOffset pw' = pwPageOffset pw"
proof -
  have base: "pw_base pw" by (rule pw_ok_base [OF assms(1)])
  have "pwBufferedBytes pw + go_len p \<le> go_len (pwBuf pw)"
    using assms(2) pw_base_D [OF base] by simp
  then obtain buf pw' where *: "go_copy (pwBuf pw) (pwBufferedBytes pw) p = Some buf"
    "pw' = pw\<lparr>pwBuf := buf, pwBufferedBytes := pwBufferedBytes pw + go_len p\<rparr>"
    "pw_base pw'" "buffered pw' = buffered pw @ p" "pw_same pw pw'"
    by (rule copy_into_buffer [OF base])
  moreover from this have "PageWriter_Write wr pw p = Some (pw', go_len p, None)"
    using assms(2) by (simp add: PageWriter_Write.simps)
  moreover have "pw_ok pw'"
    using * assms(2) by (intro pw_okI) simp_all
  ultimately show ?thesis by simp
qed

lemma fillSlack_in_page:
  fixes p :: bytes
  assumes "pw_ok pw" "(pwPageOffset pw + pwBufferedBytes pw) mod pwPageBytes pw \<noteq> 0"
  defines "m \<equiv> (pwPageOffset pw + pwBufferedBytes pw) mod pwPageBytes pw"
  defines "s \<equiv> min (go_len p) (pwPageBytes pw - m)"
  obtains pw' where "fillSlack pw p = Some (pw', s, drop (nat s) p, pwPageBytes pw - m > go_len p)"
    "pwW pw' = pwW pw" "pw_base pw'" "pw_same pw pw'" "pwPageOffset pw' = pwPageOffset pw"
    "buffered pw' = buffered pw @ take (nat s) p" "pwBufferedBytes pw' = pwBufferedBytes pw + s" "0 \<le> s"
proof -
  note base = pw_ok_base [OF assms(1)]
  define k where "k = pwPageBytes pw"
  have k: "0 < k" "0 \<le> m" "m < k" "go_mod (pwPageOffset pw + pwBufferedBytes pw) k = Some m"
    using pw_base_D [OF base] by (auto simp: k_def m_def)
  have m0: "m \<noteq> 0"
    using assms(2) by (simp add: m_def)
  have s: "0 \<le> s" "s \<le> go_len p" "s = (if k - m > go_len p then go_len p else k - m)"
    using k by (auto simp: s_def k_def)
  define q where "q = take (nat s) p"
  have q: "go_slice p 0 s = Some q" "go_slice p s (go_len p) = Some (drop (nat s) p)"
    using s(1,2) by (simp_all add: q_def)
  have len: "go_len q = s"
    using s(1,2) by (simp add: q_def go_len_def)
  have "pwBufferedBytes pw + go_len q \<le> go_len (pwBuf pw)"
    using assms(1) len k pw_base_D(6) [OF base] by (auto simp: pw_ok_def m_def k_def s_def)
  then obtain buf pw' where *: "go_copy (pwBuf pw) (pwBufferedBytes pw) q = Some buf"
    "pw' = pw\<lparr>pwBuf := buf, pwBufferedBytes := pwBufferedBytes pw + go_len q\<rparr>"
    "pw_base pw'" "buffered pw' = buffered pw @ q" "pw_same pw pw'"
    by (rule copy_into_buffer [OF base])
  then have "fillSlack pw p = Some (pw', s, drop (nat s) p, k - m > go_len p)"
    using k m0 q len by (simp add: fillSlack_def Let_def flip: k_def s(3))
  then show thesis
    using that * len s(1) by (simp add: q_def k_def)
qed

lemma fillSlack_effect:
  assumes "pw_ok pw"
  shows "\<exists>pw' n rest partial. fillSlack pw p = Some (pw', n, rest, partial) \<and> pwW pw' = pwW pw \<and> pw_base pw' \<and> pw_same pw pw' \<and>
    pwPageOffset pw' = pwPageOffset pw \<and> n + go_len rest = go_len p \<and> buffered pw' @ rest = buffered pw @ p \<and>
    (if partial then rest = [] \<and> pw_ok pw' else (pwPageOffset pw' + pwBufferedBytes pw') mod pwPageBytes pw' = 0)"
proof (cases "(pwPageOffset pw + pwBufferedBytes pw) mod pwPageBytes pw = 0")
  case True
  then have "fillSlack pw p = Some (pw, 0, p, False)"
    using pw_base_D [OF pw_ok_base [OF assms]] by (simp add: fillSlack_def)
  then show ?thesis
    using True pw_ok_base [OF assms] by (auto simp: pw_same_def)
next
  case False
  define k m where "k = pwPageBytes pw" and "m = (pwPageOffset pw + pwBufferedBytes pw) mod k"
  define s where "s = min (go_len p) (k - m)"
  obtain pw' where pw': "fillSlack pw p = Some (pw', s, drop (nat s) p, k - m > go_len p)"
    "pwW pw' = pwW pw" "pw_base pw'" "pw_same pw pw'" "pwPageOffset pw' = pwPageOffset pw"
    "buffered pw' = buffered pw @ take (nat s) p" "pwBufferedBytes pw' = pwBufferedBytes pw + s" "0 \<le> s"
    using fillSlack_in_page [OF assms False, of p] unfolding s_def m_def k_def by blast
  have k: "0 \<le> m" "pwPageBytes pw' = k" "pwBufWatermarkBytes pw' = pwBufWatermarkBytes pw"
    using pw'(4) pw_base_D [OF pw_ok_base [OF assms]] by (auto simp: k_def m_def pw_same_def)
  have pos: "(pwPageOffset pw' + pwBufferedBytes pw') mod pwPageBytes pw' = (m + s) mod k"
    by (simp add: pw' k(2) m_def mod_add_left_eq flip: add.assoc)
  have "pw_ok pw'" if "k - m > go_len p"
  proof -
    have "(m + s) mod k = m + s" using that k(1) pw'(8) by (simp add: s_def)
    then show ?thesis using pw' k(3) pos assms by (simp add: pw_ok_def m_def k_def)
  qed
  moreover have "(m + s) mod k = 0" if "\<not> k - m > go_len p"
    using that by (simp add: s_def)
  ultimately show ?thesis
    using pw' pos by (auto simp: go_len_def s_def)
qed

lemma flush_effect:
  assumes "pw_base pw" "wr (pwW pw) (buffered pw) = Some (w, n, err)"
  shows "\<exists>pw' n'. PageWriter_flush wr pw = Some (pw', n', if pwBufferedBytes pw = 0 then None else err) \<and> pw_ok pw' \<and> pw_same pw pw' \<and>
    pwBufferedBytes pw' = 0 \<and> pwW pw' = (if pwBufferedBytes pw = 0 then pwW pw else w) \<and>
    pwPageOffset pw' mod pwPageBytes pw = (pwPageOffset pw + pwBufferedBytes pw) mod pwPageBytes pw"
proof (cases "pwBufferedBytes pw = 0")
  case True
  then have "pw_ok pw"
    using assms(1) pw_base_D [OF assms(1)] by (intro pw_okI) simp_all
  then show ?thesis
    using True by (simp add: PageWriter_flush_def pw_same_def)
next
  case False
  define pw' where "pw' = pw\<lparr>pwW := w, pwPageOffset := (pwPageOffset pw + pwBufferedBytes pw) mod pwPageBytes pw, pwBufferedBytes := 0\<rparr>"
  have "go_slice (pwBuf pw) 0 (pwBufferedBytes pw) = Some (buffered pw)"
    using pw_base_D [OF assms(1)] by (simp add: buffered_def)
  then have "PageWriter_flush wr pw = Some (pw', n, err)"
    using False assms pw_base_D [OF assms(1)] by (simp add: PageWriter_flush_def pw'_def)
  moreover have "pw_ok pw'"
    using pw_base_D [OF assms(1)] by (intro pw_okI) (simp_all add: pw'_def pw_base_def)
  ultimately show ?thesis
    using False by (simp add: pw'_def pw_same_def)
qed

context lossless_writer
begin

lemma flush_lossless:
  assumes "pw_base pw" "wr_ok (pwW pw)"
  shows "\<exists>pw' n. PageWriter_flush wr pw = Some (pw', n, None) \<and> pw_ok pw' \<and> pw_same pw pw' \<and> pwBufferedBytes pw' = 0 \<and>
    wr_ok (pwW pw') \<and> written (pwW pw') = pw_stream written pw \<and>
    pwPageOffset pw' mod pwPageBytes pw = (pwPageOffset pw + pwBufferedBytes pw) mod pwPageBytes pw"
proof -
  obtain w where w: "wr (pwW pw) (buffered pw) = Some (w, go_len (buffered pw), None)" "wr_ok w"
    "written w = written (pwW pw) @ buffered pw"
    by (rule wr_takes_allE [OF assms(2)])
  have "pwBufferedBytes pw = 0 \<Longrightarrow> buffered pw = []" by (simp add: buffered_def)
  then show ?thesis
    using flush_effect [where wr = wr, OF assms(1) w(1)] w assms(2) by (fastforce simp: pw_stream_def)
qed

lemma writePages_lossless:
  assumes "0 < pwPageBytes pw" "wr_ok (pwW pw)"
  shows "\<exists>w c rest. writePages wr pw p = Some (pw\<lparr>pwW := w\<rparr>, c, None, rest) \<and> wr_ok w \<and> c + go_len rest = go_len p \<and>
    go_len rest \<le> pwPageBytes pw \<and> written w @ rest = written (pwW pw) @ p \<and>
    go_len (written w) mod pwPageBytes pw = go_len (written (pwW pw)) mod pwPageBytes pw"
proof (cases "go_len p > pwPageBytes pw")
  case True
  define s where "s = go_len p div pwPageBytes pw * pwPageBytes pw"
  have "go_len p - s = go_len p mod pwPageBytes pw"
    by (simp add: s_def minus_div_mult_eq_mod)
  then have "s \<le> go_len p" "go_len p - s < pwPageBytes pw"
    using pos_mod_sign [OF assms(1), of "go_len p"] pos_mod_bound [OF assms(1), of "go_len p"] by linarith+
  moreover have "0 \<le> s" "s mod pwPageBytes pw = 0"
    using assms(1) by (simp_all add: s_def pos_imp_zdiv_nonneg_iff)
  ultimately have s: "0 \<le> s" "s \<le> go_len p" "go_len p - s < pwPageBytes pw" "s mod pwPageBytes pw = 0"
    by auto
  obtain w where w: "wr (pwW pw) (take (nat s) p) = Some (w, go_len (take (nat s) p), None)" "wr_ok w"
    "written w = written (pwW pw) @ take (nat s) p"
    by (rule wr_takes_allE [OF assms(2)])
  have l: "go_len (take (nat s) p) = s" "go_len (drop (nat s) p) = go_len p - s"
    using s by (auto simp: go_len_def)
  have "writePages wr pw p = Some (pw\<lparr>pwW := w\<rparr>, s, None, drop (nat s) p)"
    using True assms(1) s w l by (simp add: writePages_def flip: s_def)
  moreover have "(go_len (written (pwW pw)) + s) mod pwPageBytes pw = go_len (written (pwW pw)) mod pwPageBytes pw"
    using mod_add_right_eq [of "go_len (written (pwW pw))" s "pwPageBytes pw"] s by simp
  ultimately show ?thesis
    using w s l by (intro exI [of _ w] exI [of _ s] exI [of _ "drop (nat s) p"]) simp
next
  case False
  then have "writePages wr pw p = Some (pw\<lparr>pwW := pwW pw\<rparr>, 0, None, p)" by (simp add: writePages_def)
  then show ?thesis using False assms(2) by fastforce
qed

text \<open>What \<^verbatim>\<open>Write\<close> does once the buffer ends on a page boundary: flush it, write whole pages directly, buffer the rest.\<close>

lemma Write_pages:
  assumes "pw_base pw" "wr_ok (pwW pw)" "(pwPageOffset pw + pwBufferedBytes pw) mod pwPageBytes pw = 0"
  obtains pw2 n2 w3 c rest pw4 where "PageWriter_flush wr pw = Some (pw2, n2, None)"
    "writePages wr pw2 p = Some (pw2\<lparr>pwW := w3\<rparr>, c, None, rest)" "c + go_len rest = go_len p"
    "PageWriter_Write wr (pw2\<lparr>pwW := w3\<rparr>) rest = Some (pw4, go_len rest, None)"
    "pw_ok pw4" "wr_ok (pwW pw4)" "pw_same pw pw4" "pwPageOffset pw4 mod pwPageBytes pw = 0"
    "pw_stream written pw4 = pw_stream written pw @ p"
    "go_len (written (pwW pw4)) mod pwPageBytes pw = go_len (pw_stream written pw) mod pwPageBytes pw"
proof -
  obtain pw2 n2 where g: "PageWriter_flush wr pw = Some (pw2, n2, None)" "pw_ok pw2" "pw_same pw pw2" "pwBufferedBytes pw2 = 0"
    "wr_ok (pwW pw2)" "written (pwW pw2) = pw_stream written pw" "pwPageOffset pw2 mod pwPageBytes pw = 0"
    using flush_lossless [OF assms(1,2)] assms(3) by force
  have pb: "0 < pwPageBytes pw2" using pw_base_D(1) [OF pw_ok_base [OF g(2)]] .
  obtain w3 c rest where h: "writePages wr pw2 p = Some (pw2\<lparr>pwW := w3\<rparr>, c, None, rest)" "wr_ok w3" "c + go_len rest = go_len p"
    "go_len rest \<le> pwPageBytes pw2" "written w3 @ rest = written (pwW pw2) @ p"
    "go_len (written w3) mod pwPageBytes pw2 = go_len (written (pwW pw2)) mod pwPageBytes pw2"
    using writePages_lossless [OF pb g(5)] by metis
  have pw3: "pw_ok (pw2\<lparr>pwW := w3\<rparr>)" "go_len rest + pwBufferedBytes (pw2\<lparr>pwW := w3\<rparr>) \<le> pwBufWatermarkBytes (pw2\<lparr>pwW := w3\<rparr>)"
    using g h pw_base_D(2) [OF pw_ok_base [OF g(2)]] by (auto simp: pw_ok_def pw_base_def)
  obtain pw4 where i: "PageWriter_Write wr (pw2\<lparr>pwW := w3\<rparr>) rest = Some (pw4, go_len rest, None)" "pw_ok pw4" "pwW pw4 = w3"
    "buffered pw4 = rest" "pw_same (pw2\<lparr>pwW := w3\<rparr>) pw4" "pwPageOffset pw4 = pwPageOffset pw2"
    using Write_fits [OF pw3, of wr] g by (auto simp: buffered_def)
  show ?thesis
    by (rule that [OF g(1) h(1,3) i(1,2)]) (use g h i in \<open>simp_all add: pw_same_def pw_stream_def\<close>)
qed

lemma pages_synced:
  assumes "pw_synced written start pw" "pwW pw1 = pwW pw" "pw_base pw1" "pwPageOffset pw1 = pwPageOffset pw" "pwPageBytes pw1 = pwPageBytes pw"
    and "go_len bs mod pwPageBytes pw1 = go_len (pw_stream written pw1) mod pwPageBytes pw1"
  shows "(start + go_len bs) mod pwPageBytes pw = (pwPageOffset pw1 + pwBufferedBytes pw1) mod pwPageBytes pw"
proof -
  have "(start + go_len bs) mod pwPageBytes pw = (start + go_len (written (pwW pw)) + pwBufferedBytes pw1) mod pwPageBytes pw"
    using assms(2,5,6) mod_add_right_eq [of start _ "pwPageBytes pw"] go_len_buffered [OF assms(3)]
    by (metis add.assoc go_len_simps(3) pw_stream_def)
  also have "\<dots> = (pwPageOffset pw + pwBufferedBytes pw1) mod pwPageBytes pw"
    using assms(1) mod_add_left_eq [of _ "pwPageBytes pw" "pwBufferedBytes pw1"] unfolding pw_synced_def by metis
  finally show ?thesis by (simp add: assms(4))
qed

text \<open>
  The contract of \<^verbatim>\<open>Write\<close>: it returns, takes every byte, keeps the invariant, and when it has called the writer below,
  that writer stands on a page boundary.
\<close>

lemma Write_lossless:
  assumes ok: "pw_ok pw" and w: "wr_ok (pwW pw)" and sync: "pw_synced written start pw"
  shows "\<exists>pw'. PageWriter_Write wr pw p = Some (pw', go_len p, None) \<and> pw_ok pw' \<and> wr_ok (pwW pw') \<and> pw_same pw pw' \<and>
    pw_stream written pw' = pw_stream written pw @ p \<and> pw_synced written start pw' \<and>
    (pwW pw' = pwW pw \<or> (start + go_len (written (pwW pw'))) mod pwPageBytes pw' = 0)"
proof (cases "go_len p + pwBufferedBytes pw \<le> pwBufWatermarkBytes pw")
  case True
  then show ?thesis
    using Write_fits [OF ok True, of wr] w sync by (force simp: pw_stream_def pw_synced_def pw_same_def)
next
  case False
  obtain pw1 n1 p1 partial where f: "fillSlack pw p = Some (pw1, n1, p1, partial)" "pwW pw1 = pwW pw" "pw_base pw1" "pw_same pw pw1"
    "pwPageOffset pw1 = pwPageOffset pw" "n1 + go_len p1 = go_len p" "buffered pw1 @ p1 = buffered pw @ p"
    "if partial then p1 = [] \<and> pw_ok pw1 else (pwPageOffset pw1 + pwBufferedBytes pw1) mod pwPageBytes pw1 = 0"
    using fillSlack_effect [OF ok, of p] by blast
  show ?thesis
  proof (cases partial)
    case True
    then have "PageWriter_Write wr pw p = Some (pw1, go_len p, None)"
      using False f by (simp add: PageWriter_Write.simps)
    then show ?thesis
      using True f w sync by (auto simp: pw_stream_def pw_synced_def pw_same_def)
  next
    case nopart: False
    obtain pw2 n2 w3 c rest pw4 where g: "PageWriter_flush wr pw1 = Some (pw2, n2, None)"
      "writePages wr pw2 p1 = Some (pw2\<lparr>pwW := w3\<rparr>, c, None, rest)" "c + go_len rest = go_len p1"
      "PageWriter_Write wr (pw2\<lparr>pwW := w3\<rparr>) rest = Some (pw4, go_len rest, None)"
      "pw_ok pw4" "wr_ok (pwW pw4)" "pw_same pw1 pw4" "pwPageOffset pw4 mod pwPageBytes pw1 = 0"
      "pw_stream written pw4 = pw_stream written pw1 @ p1"
      "go_len (written (pwW pw4)) mod pwPageBytes pw1 = go_len (pw_stream written pw1) mod pwPageBytes pw1"
      by (rule Write_pages [of pw1 p1]) (use f w nopart in simp_all)
    have same: "pw_same pw pw4" using f(4) g(7) by (simp add: pw_same_def)
    have "PageWriter_Write wr pw p = Some (pw4, go_len p, None)"
      using False f(1,6) nopart g(1-4) by (simp add: PageWriter_Write.simps [of wr pw p] PageWriter_Flush_def)
    moreover have "pw_stream written pw4 = pw_stream written pw @ p"
      using f(2,7) g(9) by (simp add: pw_stream_def)
    moreover have "(start + go_len (written (pwW pw4))) mod pwPageBytes pw4 = 0"
      using pages_synced [OF sync f(2,3,5) _ g(10)] f(4,8) nopart same by (simp add: pw_same_def)
    ultimately show ?thesis
      using same g(5-8) f(4) by (simp add: pw_synced_def pw_same_def)
  qed
qed

text \<open>A page writer over a lossless writer is a lossless writer itself.\<close>

lemma page_writer_lossless:
  "lossless_writer (PageWriter_Write wr) (pw_stream written) (\<lambda>pw. pw_ok pw \<and> wr_ok (pwW pw))"
proof
  fix pw p assume "pw_ok pw \<and> wr_ok (pwW pw)"
  moreover have "pw_synced written (pwPageOffset pw - go_len (written (pwW pw))) pw" by (simp add: pw_synced_def)
  ultimately show "\<exists>pw'. PageWriter_Write wr pw p = Some (pw', go_len p, None) \<and> (pw_ok pw' \<and> wr_ok (pwW pw')) \<and>
      pw_stream written pw' = pw_stream written pw @ p"
    using Write_lossless by blast
qed

end

interpretation page_buffer: lossless_writer "PageWriter_Write buffer_Write" "pw_stream id" "\<lambda>pw. pw_ok pw \<and> True"
  by (rule buffer.page_writer_lossless)

subsection \<open>Properties\<close>

text \<open>A client that writes one slice after the other and stops at the first that is not taken whole.\<close>

fun write_all :: "'w io_write \<Rightarrow> 'w PageWriter \<Rightarrow> bytes list \<Rightarrow> 'w PageWriter option" where
  "write_all wr pw [] = Some pw"
| "write_all wr pw (p # ps) = do {
     (pw, n, err) \<leftarrow> PageWriter_Write wr pw p;
     if n = go_len p \<and> err = None then write_all wr pw ps else None
   }"

lemma write_all_buffer:
  assumes "pw_ok pw" "pw_synced id start pw"
  shows "\<exists>pw'. write_all buffer_Write pw ps = Some pw' \<and> pw_ok pw' \<and> pw_same pw pw' \<and>
    pw_stream id pw' = pw_stream id pw @ concat ps \<and> pw_synced id start pw' \<and>
    (pwW pw' = pwW pw \<or> (start + go_len (pwW pw')) mod pwPageBytes pw' = 0)"
  using assms
proof (induction ps arbitrary: pw)
  case (Cons p ps)
  obtain pw1 where 1: "PageWriter_Write buffer_Write pw p = Some (pw1, go_len p, None)" "pw_ok pw1" "pw_same pw pw1"
    "pw_stream id pw1 = pw_stream id pw @ p" "pw_synced id start pw1"
    "pwW pw1 = pwW pw \<or> (start + go_len (pwW pw1)) mod pwPageBytes pw1 = 0"
    using buffer.Write_lossless [OF Cons.prems(1) _ Cons.prems(2)] by force
  obtain pw2 where 2: "write_all buffer_Write pw1 ps = Some pw2" "pw_ok pw2" "pw_same pw1 pw2"
    "pw_stream id pw2 = pw_stream id pw1 @ concat ps" "pw_synced id start pw2"
    "pwW pw2 = pwW pw1 \<or> (start + go_len (pwW pw2)) mod pwPageBytes pw2 = 0"
    using Cons.IH [OF 1(2,5)] by (elim exE conjE) (rule that)
  have "write_all buffer_Write pw (p # ps) = Some pw2"
    using 1(1) 2(1) by simp
  moreover have "pw_same pw pw2" "pwPageBytes pw2 = pwPageBytes pw1"
    using 1(3) 2(3) by (simp_all add: pw_same_def)
  moreover from this have "pwW pw2 = pwW pw \<or> (start + go_len (pwW pw2)) mod pwPageBytes pw2 = 0"
    using 1(6) 2(6) by metis
  moreover have "pw_stream id pw2 = pw_stream id pw @ concat (p # ps)"
    using 1(4) 2(4) by simp
  ultimately show ?case
    using 2(2,5) by (intro exI [of _ pw2] conjI)
qed (simp add: pw_same_def)

text \<open>
  C9: the page writer delivers the stream. A new page writer over a buffer or file \<open>f\<close>, with a page size of at most the
  watermark, takes any sequence of slices whole; file and buffer together then hold what the file held followed by
  all slices in order; the file has grown only to a page boundary, so that a page is never torn; and a flush makes the
  file complete.
\<close>

theorem PageWriter_streams:
  assumes "0 < pageBytes" "pageBytes \<le> defaultBufferBytes" "0 \<le> pageOffset"
  shows "\<exists>pw0 pw pw'. NewPageWriter f pageBytes pageOffset = Some pw0 \<and> write_all buffer_Write pw0 ps = Some pw \<and>
    pwW pw @ buffered pw = f @ concat ps \<and>
    (pwW pw = f \<or> (pageOffset + (go_len (pwW pw) - go_len f)) mod pageBytes = 0) \<and>
    PageWriter_Flush buffer_Write pw = Some (pw', None) \<and> pwW pw' = f @ concat ps \<and> buffered pw' = []"
proof -
  obtain pw0 where 0: "NewPageWriter f pageBytes pageOffset = Some pw0" "pw_ok pw0" "pwW pw0 = f" "pwBufferedBytes pw0 = 0"
    "pwPageBytes pw0 = pageBytes" "pwPageOffset pw0 = pageOffset"
    using NewPageWriter_ok [OF assms, of f] by (elim exE conjE) (rule that)
  have sync: "pw_synced id (pageOffset - go_len f) pw0" using 0 by (simp add: pw_synced_def)
  obtain pw where 1: "write_all buffer_Write pw0 ps = Some pw" "pw_ok pw" "pw_same pw0 pw"
    "pw_stream id pw = pw_stream id pw0 @ concat ps" "pwW pw = pwW pw0 \<or> (pageOffset - go_len f + go_len (pwW pw)) mod pwPageBytes pw = 0"
    using write_all_buffer [OF 0(2) sync, of ps] by (elim exE conjE) (rule that)
  obtain pw' n where 2: "PageWriter_flush buffer_Write pw = Some (pw', n, None)" "pwBufferedBytes pw' = 0" "pwW pw' = pw_stream id pw"
    using buffer.flush_lossless [OF pw_ok_base [OF 1(2)]] by force
  have "pwPageBytes pw = pageBytes" using 0(5) 1(3) by (simp add: pw_same_def)
  then have aligned: "pwW pw = f \<or> (pageOffset + (go_len (pwW pw) - go_len f)) mod pageBytes = 0"
    using 1(5) 0(3) by (simp add: algebra_simps)
  have stream: "pw_stream id pw = f @ concat ps"
    using 1(4) 0(3,4) by (simp add: pw_stream_def buffered_def)
  then have "pwW pw @ buffered pw = f @ concat ps" by (simp add: pw_stream_def)
  moreover have "PageWriter_Flush buffer_Write pw = Some (pw', None)" "buffered pw' = []"
    using 2(1,2) by (simp_all add: PageWriter_Flush_def buffered_def)
  ultimately show ?thesis
    using 0(1) 1(1) aligned 2(3) stream by metis
qed

theorem PageWriter_streams_witness:
  "\<exists>pw0 pw pw'. NewPageWriter [7] 4096 0 = Some pw0 \<and> write_all buffer_Write pw0 [[1, 2], [3]] = Some pw \<and>
    PageWriter_Flush buffer_Write pw = Some (pw', None) \<and> pwW pw' = [7, 1, 2, 3]"
  using PageWriter_streams [of 4096 0 "[7]" "[[1, 2], [3]]"] by (auto simp: defaultBufferBytes_def)

text \<open>
  \<^verbatim>\<open>Write\<close> hides the error of its flush. When the argument does not fit and completes the page in the buffer, and the
  writer below fails, \<^verbatim>\<open>Write\<close> answers without an error, the buffer is emptied, and the rest of the argument is dropped:
  the count that is returned is that of the bytes copied into the buffer, which are lost as well.
\<close>

theorem PageWriter_hides_flush_error:
  assumes "pw_ok pw" "pwBufWatermarkBytes pw < go_len p + pwBufferedBytes pw"
    and "(pwPageOffset pw + pwBufferedBytes pw) mod pwPageBytes pw \<noteq> 0"
    and "pwPageBytes pw - (pwPageOffset pw + pwBufferedBytes pw) mod pwPageBytes pw \<le> go_len p"
    and "\<And>q. wr (pwW pw) q = Some (w, 0, Some e)"
  shows "\<exists>pw'. PageWriter_Write wr pw p =
      Some (pw', pwPageBytes pw - (pwPageOffset pw + pwBufferedBytes pw) mod pwPageBytes pw, None) \<and>
    buffered pw' = [] \<and> pwW pw' = w"
proof -
  define s where "s = pwPageBytes pw - (pwPageOffset pw + pwBufferedBytes pw) mod pwPageBytes pw"
  obtain pw1 n1 p1 partial where f: "fillSlack pw p = Some (pw1, n1, p1, partial)" "pwW pw1 = pwW pw" "pw_base pw1"
    using fillSlack_effect [OF assms(1), of p] by blast
  note base = pw_base_D [OF pw_ok_base [OF assms(1)]]
  have "0 < s" using pos_mod_bound [OF base(1), of "pwPageOffset pw + pwBufferedBytes pw"] by (simp add: s_def)
  moreover have "n1 = s" "\<not> partial" "pwBufferedBytes pw1 = pwBufferedBytes pw + s"
    using f(1) assms(3,4) base by (auto simp: fillSlack_def s_def Let_def bind_Some_iff split: if_splits)
  ultimately have fill: "n1 = s" "\<not> partial" "pwBufferedBytes pw1 \<noteq> 0"
    using base(4) by auto
  obtain pw2 n2 where g: "PageWriter_flush wr pw1 = Some (pw2, n2, Some e)" "pwBufferedBytes pw2 = 0" "pwW pw2 = w"
    using flush_effect [where wr = wr, OF f(3) assms(5) [folded f(2), of "buffered pw1"]] fill(3) by auto
  have "PageWriter_Write wr pw p = Some (pw2, s, None)"
    using assms(2) f(1) fill g by (simp add: PageWriter_Write.simps [of wr pw p] PageWriter_Flush_def)
  then show ?thesis
    using g by (auto simp: s_def buffered_def)
qed

theorem PageWriter_hides_flush_error_witness:
  "\<exists>pw'. PageWriter_Write (\<lambda>w q. Some (w, 0, Some (OtherError ''disk full'')))
      \<lparr>pwW = [] :: bytes, pwPageOffset = 0, pwPageBytes = 4, pwBufferedBytes = 2, pwBuf = replicate 12 0, pwBufWatermarkBytes = 8\<rparr>
      (replicate 9 1) = Some (pw', 2, None) \<and> buffered pw' = [] \<and> pwW pw' = []"
  using PageWriter_hides_flush_error
    [of "\<lparr>pwW = [] :: bytes, pwPageOffset = 0, pwPageBytes = 4, pwBufferedBytes = 2, pwBuf = replicate 12 0, pwBufWatermarkBytes = 8\<rparr>"
        "replicate 9 1" "\<lambda>w q. Some (w, 0, Some (OtherError ''disk full''))" "[]" "OtherError ''disk full''"]
  by (simp add: pw_ok_def pw_base_def go_len_def)

end
