(* ===== verification/Crc_Digest.thy ===== *)
theory Crc_Digest
  imports Go_IO
begin

unbundle bit_operations_syntax

section \<open>The checksum wrapper\<close>

text \<open>
  \<^verbatim>\<open>src/pkg/crc/crc.go\<close>: a \<^verbatim>\<open>hash.Hash32\<close> over \<^verbatim>\<open>hash/crc32\<close> that starts from a given checksum. \<^verbatim>\<open>MakeTable\<close> and \<^verbatim>\<open>Update\<close> of the
  standard library are the bitwise table and the table-driven update of the reflected polynomial.

  \<^verbatim>\<open>Write\<close> and \<^verbatim>\<open>Reset\<close> have value receivers: they change their own copy of the digest, and the caller's stays as it was.
  A digest therefore always shows the checksum it was created with.
\<close>

subsection \<open>hash/crc32\<close>

definition crc32_Castagnoli :: uint32 where
  "crc32_Castagnoli = 0x82f63b78"

definition crc32_shift :: "uint32 \<Rightarrow> uint32 \<Rightarrow> uint32" where
  "crc32_shift poly c = (if c AND 1 = 1 then drop_bit 1 c XOR poly else drop_bit 1 c)"

definition crc32_MakeTable :: "uint32 \<Rightarrow> uint32 list" where
  "crc32_MakeTable poly = map (\<lambda>i. (crc32_shift poly ^^ 8) (of_nat i)) [0..<256]"

fun crc32_loop :: "uint32 list \<Rightarrow> uint32 \<Rightarrow> bytes \<Rightarrow> uint32" where
  "crc32_loop tab c [] = c"
| "crc32_loop tab c (v # p) = crc32_loop tab ((tab ! unat ((ucast c :: byte) XOR v)) XOR drop_bit 8 c) p"

definition crc32_Update :: "uint32 \<Rightarrow> uint32 list \<Rightarrow> bytes \<Rightarrow> uint32" where
  "crc32_Update c tab p = NOT (crc32_loop tab (NOT c) p)"

lemma crc32_MakeTable_nth: "i < 256 \<Longrightarrow> crc32_MakeTable poly ! i = (crc32_shift poly ^^ 8) (of_nat i)"
  by (simp add: crc32_MakeTable_def)

subsection \<open>The digest\<close>

(* pkg/crc/crc.go 8-8 Size *)
definition crc_Size :: int where
  "crc_Size = 4"

(* pkg/crc/crc.go 10-13 digest *)
record digest =
  dgCrc :: uint32
  dgTab :: "uint32 list"

text \<open>A method returns the caller's digest after the call; a value receiver leaves it alone.\<close>

(* pkg/crc/crc.go 15-18 digest.Write *)
definition digest_Write :: "digest \<Rightarrow> bytes \<Rightarrow> digest \<times> int \<times> goerr option" where
  "digest_Write d p =
     (let d' = d\<lparr>dgCrc := crc32_Update (dgCrc d) (dgTab d) p\<rparr>
      in (d, go_len p, None))"

(* pkg/crc/crc.go 37-39 digest.Sum32 *)
definition digest_Sum32 :: "digest \<Rightarrow> uint32" where
  "digest_Sum32 d = dgCrc d"

(* pkg/crc/crc.go 20-23 digest.Sum *)
definition digest_Sum :: "digest \<Rightarrow> bytes \<Rightarrow> bytes" where
  "digest_Sum d inp =
     (let s = digest_Sum32 d
      in inp @ [ucast (drop_bit 24 s), ucast (drop_bit 16 s), ucast (drop_bit 8 s), ucast s])"

(* pkg/crc/crc.go 25-27 digest.Reset *)
definition digest_Reset :: "digest \<Rightarrow> digest" where
  "digest_Reset d = (let d' = d\<lparr>dgCrc := 0\<rparr> in d)"

(* pkg/crc/crc.go 29-31 digest.Size *)
definition digest_Size :: "digest \<Rightarrow> int" where
  "digest_Size d = crc_Size"

(* pkg/crc/crc.go 33-35 digest.BlockSize *)
definition digest_BlockSize :: "digest \<Rightarrow> int" where
  "digest_BlockSize d = 1"

(* pkg/crc/crc.go 41-41 New *)
definition crc_New :: "uint32 \<Rightarrow> uint32 list \<Rightarrow> digest" where
  "crc_New prev tab = \<lparr>dgCrc = prev, dgTab = tab\<rparr>"

lemma digest_Write_keeps [simp]: "digest_Write d p = (d, go_len p, None)"
  by (simp add: digest_Write_def)

lemma digest_Reset_keeps [simp]: "digest_Reset d = d"
  by (simp add: digest_Reset_def)

text \<open>\<^verbatim>\<open>Sum\<close> appends \<^verbatim>\<open>Size\<close> bytes.\<close>

lemma digest_Sum_length: "go_len (digest_Sum d inp) = go_len inp + digest_Size d"
  by (simp add: digest_Sum_def digest_Size_def crc_Size_def Let_def)

text \<open>
  The digest never digests. Whatever is written to a new digest, its checksum stays the one it was created with; the
  checksum that \<^verbatim>\<open>hash/crc32\<close> computes for the same bytes is another one, already for the single byte \<open>1\<close>.
\<close>

theorem digest_ignores_data:
  "digest_Sum32 (foldl (\<lambda>d p. fst (digest_Write d p)) (crc_New prev tab) ps) = prev \<and>
   crc32_Update 0 (crc32_MakeTable crc32_Castagnoli) [1] \<noteq> digest_Sum32 (fst (digest_Write (crc_New 0 (crc32_MakeTable crc32_Castagnoli)) [1]))"
proof -
  have "foldl (\<lambda>d p. fst (digest_Write d p)) d ps = d" for d
    by (induction ps) simp_all
  moreover have "crc32_Update 0 (crc32_MakeTable crc32_Castagnoli) [1] = 0xa016d052"
  proof -
    have i: "unat ((ucast (NOT (0 :: uint32)) :: byte) XOR 1) = 254" by code_simp
    have "(crc32_shift crc32_Castagnoli ^^ 8) 254 XOR drop_bit 8 (NOT 0) = NOT (0xa016d052 :: uint32)"
      by code_simp
    then show ?thesis
      by (simp only: crc32_Update_def crc32_loop.simps i crc32_MakeTable_nth) simp
  qed
  ultimately show ?thesis
    by (simp add: digest_Sum32_def crc_New_def)
qed

end
