(* ===== verification/Wal.thy ===== *)
theory Wal
  imports Page_Writer Crc_Digest Raftpb
begin

unbundle bit_operations_syntax

section \<open>The records of the write-ahead log\<close>

text \<open>
  \<^verbatim>\<open>src/server/storage/wal\<close>: \<^verbatim>\<open>encoder.go\<close> frames records with a length field and padding to 8 bytes and writes them through
  a page writer; \<^verbatim>\<open>decoder.go\<close> reads them back. The protobuf library is a parameter: \<open>marshal\<close> and \<open>unmarshal\<close> of a record, with
  \<open>codec_ok\<close> for the documented round trip. \<^verbatim>\<open>decoder.go\<close> does not compile as it stands: an \<^verbatim>\<open>if\<close> in the error branch of
  \<^verbatim>\<open>decodeRecord\<close> (line 77) and the method \<^verbatim>\<open>isTornEntry\<close> are unfinished. The model has the statements around them; the unfinished
  method is left out.

  An encoded record is appended to the stream of the page writer, padded to 8 bytes, and the length of its data can be
  read back from the length field. The padding cannot: \<^verbatim>\<open>decodeFrameSize\<close> returns the length twice, so that decoding takes
  too many or too few bytes.
\<close>

subsection \<open>Records\<close>

text \<open>The type is an \<^verbatim>\<open>int64\<close>, kept as its 64 bits.\<close>

(* server/storage/wal/walpb/record.pb.go 23-31 Record *)
record Record =
  rcType :: "64 word"
  rcCrc :: uint32
  rcData :: bytes

(* server/storage/wal/walpb/record.pb.go 33-40 Record.Reset *)
definition Record_zero :: Record where
  "Record_zero = \<lparr>rcType = 0, rcCrc = 0, rcData = []\<rparr>"

(* server/storage/wal/walpb/record.go 7-13 Record.Validate *)
definition Record_Validate :: "Record \<Rightarrow> uint32 \<Rightarrow> Record \<times> goerr option" where
  "Record_Validate r c = (if rcCrc r = c then (r, None) else (Record_zero, Some ErrCRCMismatch))"

(* server/storage/wal/wal.go 11-14 crcTable *)
definition crcTable :: "uint32 list" where
  "crcTable = crc32_MakeTable crc32_Castagnoli"

type_synonym 'a marshal = "'a \<Rightarrow> bytes \<times> goerr option"
type_synonym 'a unmarshal = "bytes \<Rightarrow> 'a \<times> goerr option"

definition codec_ok :: "'a marshal \<Rightarrow> 'a unmarshal \<Rightarrow> bool" where
  "codec_ok marshal unmarshal \<longleftrightarrow> (\<forall>x. snd (marshal x) = None \<and> unmarshal (fst (marshal x)) = (x, None))"

subsection \<open>The encoder\<close>

(* server/storage/wal/decoder.go 15-15 minSectorSize *)
definition minSectorSize :: int where
  "minSectorSize = 512"

(* server/storage/wal/encoder.go 15-15 walPageBytes *)
definition walPageBytes :: int where
  "walPageBytes = 8 * minSectorSize"

(* server/storage/wal/encoder.go 17-24 encoder *)
record 'w encoder =
  enBw :: "'w PageWriter"
  enCrc :: digest
  enBuf :: bytes
  enUint64buf :: bytes

(* server/storage/wal/encoder.go 26-34 newEncoder *)
definition newEncoder :: "'w \<Rightarrow> uint32 \<Rightarrow> int \<Rightarrow> 'w encoder option" where
  "newEncoder w prevCrc pageOffset = do {
     bw \<leftarrow> NewPageWriter w walPageBytes pageOffset;
     Some \<lparr>enBw = bw, enCrc = crc_New prevCrc crcTable, enBuf = replicate (1024 * 1024) 0, enUint64buf = replicate 8 0\<rparr>
   }"

text \<open>\<^verbatim>\<open>f.Seek(0, io.SeekCurrent)\<close> of the operating system is the argument \<open>seek\<close>.\<close>

(* server/storage/wal/encoder.go 36-42 newFileEncoder *)
definition newFileEncoder :: "('w \<Rightarrow> int \<times> goerr option) \<Rightarrow> 'w \<Rightarrow> uint32 \<Rightarrow> ('w encoder option \<times> goerr option) option" where
  "newFileEncoder seek f preCrc =
     (let (offset, err) = seek f
      in if err \<noteq> None then Some (None, err)
         else do {
           e \<leftarrow> newEncoder f preCrc offset;
           Some (Some e, None)
         })"

(* server/storage/wal/encoder.go 70-78 encodeFrameSize *)
definition encodeFrameSize :: "int \<Rightarrow> uint64 \<times> int" where
  "encodeFrameSize dataBytes =
     (let lenField = word_of_int dataBytes;
          padBytes = (8 - (dataBytes smod 8)) smod 8
      in (if padBytes \<noteq> 0 then lenField OR push_bit 56 (word_of_int (0x80 OR padBytes)) else lenField, padBytes))"

(* server/storage/wal/encoder.go 80-86 writeUint64 *)
definition writeUint64 :: "'w io_write \<Rightarrow> 'w \<Rightarrow> uint64 \<Rightarrow> bytes \<Rightarrow> ('w \<times> bytes \<times> goerr option) option" where
  "writeUint64 wr w n buf =
     (if length buf < 8 then None
      else do {
        let buf = le_bytes n @ drop 8 buf;
        (w, nv, err) \<leftarrow> wr w buf;
        Some (w, buf, err)
      })"

text \<open>The record is passed by pointer and gets its checksum.\<close>

(* server/storage/wal/encoder.go 43-68 encoder.encode *)
definition encode :: "Record marshal \<Rightarrow> 'w io_write \<Rightarrow> 'w encoder \<Rightarrow> Record \<Rightarrow> ('w encoder \<times> Record \<times> goerr option) option" where
  "encode marshal wr e r =
     (let (c, n, err) = digest_Write (enCrc e) (rcData r);
          e = e\<lparr>enCrc := c\<rparr>;
          r = r\<lparr>rcCrc := digest_Sum32 c\<rparr>;
          (data, err) = marshal r
      in if err \<noteq> None then Some (e, r, err)
         else do {
           let (lenField, padBytes) = encodeFrameSize (go_len data);
           (bw, buf, err) \<leftarrow> writeUint64 (PageWriter_Write wr) (enBw e) lenField (enUint64buf e);
           let e = e\<lparr>enBw := bw, enUint64buf := buf\<rparr>;
           if err \<noteq> None then Some (e, r, err)
           else do {
             let data = (if padBytes \<noteq> 0 then data @ replicate (nat padBytes) 0 else data);
             (bw, n, err) \<leftarrow> PageWriter_Write wr (enBw e) data;
             Some (e\<lparr>enBw := bw\<rparr>, r, err)
           }
         })"

subsection \<open>The decoder\<close>

(* server/storage/wal/decoder.go 17-24 decoder *)
record decoder =
  deBrs :: "source list"
  deLastValidOff :: int
  deCrc :: digest

(* server/storage/wal/decoder.go 26-35 newDecoder *)
definition newDecoder :: "source list \<Rightarrow> decoder" where
  "newDecoder r = \<lparr>deBrs = r, deLastValidOff = 0, deCrc = crc_New 0 crcTable\<rparr>"

(* server/storage/wal/decoder.go 44-44 maxWALEntrySizeLimit *)
definition maxWALEntrySizeLimit :: int where
  "maxWALEntrySizeLimit = 10 * 1024 * 1024"

(* server/storage/wal/decoder.go 112-116 readInt64 *)
definition readInt64 :: "source \<Rightarrow> source \<times> int \<times> goerr option" where
  "readInt64 r =
     (case io_ReadFull r 8 of
        (r, bs, None) \<Rightarrow> (r, sint (le_word bs), None)
      | (r, bs, Some err) \<Rightarrow> (r, 0, Some err))"

(* server/storage/wal/decoder.go 89-95 decodeFrameSize *)
definition decodeFrameSize :: "int \<Rightarrow> int \<times> int" where
  "decodeFrameSize lenField =
     (let recBytes = sint ((word_of_int lenField :: uint64) AND NOT (push_bit 56 0xff));
          padBytes = (if lenField < 0 then sint (drop_bit 56 (word_of_int lenField :: uint64) AND 0x7) else 0)
      in (recBytes, recBytes))"

text \<open>The body of one frame, once its length field is known.\<close>

(* server/storage/wal/decoder.go 64-80 decoder.decodeRecord *)
definition decodeBody :: "Record unmarshal \<Rightarrow> decoder \<Rightarrow> source \<Rightarrow> int \<Rightarrow> Record \<Rightarrow> decoder \<times> Record \<times> goerr option" where
  "decodeBody unmarshal d br l r =
     (let (recBytes, padBytes) = decodeFrameSize l
      in if recBytes \<ge> maxWALEntrySizeLimit - padBytes then (d, r, Some ErrMaxWalEntrySizeLimitExceeded)
         else let (br, data, err) = io_ReadFull br (nat (recBytes + padBytes));
                  d = d\<lparr>deBrs := br # tl (deBrs d)\<rparr>
              in case err of
                   Some err \<Rightarrow> (d, r, Some (if err = IoEOF then IoErrUnexpectedEOF else err))
                 | None \<Rightarrow> (let (r, err) = unmarshal (take (nat recBytes) data) in (d, r, err)))"

(* server/storage/wal/decoder.go 46-82 decoder.decodeRecord *)
function decodeRecord :: "Record unmarshal \<Rightarrow> decoder \<Rightarrow> Record \<Rightarrow> decoder \<times> Record \<times> goerr option" where
  "decodeRecord unmarshal d r =
     (case deBrs d of
        [] \<Rightarrow> (d, r, Some IoEOF)
      | br # brs \<Rightarrow>
          (let (br, l, err) = readInt64 br
           in if err = Some IoEOF \<or> (err = None \<and> l = 0) then
                (if brs = [] then (d\<lparr>deBrs := []\<rparr>, r, Some IoEOF)
                 else decodeRecord unmarshal (d\<lparr>deBrs := brs, deLastValidOff := 0\<rparr>) r)
              else if err \<noteq> None then (d\<lparr>deBrs := br # brs\<rparr>, r, err)
              else decodeBody unmarshal (d\<lparr>deBrs := br # brs\<rparr>) br l r))"
  by pat_completeness auto
termination
  by (relation "measure (\<lambda>(u, d, r). length (deBrs d))") auto

declare decodeRecord.simps [simp del]

(* server/storage/wal/decoder.go 37-42 decoder.decode *)
definition decode :: "Record unmarshal \<Rightarrow> decoder \<Rightarrow> Record \<Rightarrow> decoder \<times> Record \<times> goerr option" where
  "decode unmarshal d r = decodeRecord unmarshal d Record_zero"

(* server/storage/wal/decoder.go 97-99 decoder.lastOffset *)
definition lastOffset :: "decoder \<Rightarrow> int" where
  "lastOffset d = deLastValidOff d"

text \<open>The two helpers that are called \<^verbatim>\<open>must\<close> drop the error of \<^verbatim>\<open>Unmarshal\<close> and return what was decoded until then.\<close>

(* server/storage/wal/decoder.go 101-105 mustUnmarshalEntry *)
definition mustUnmarshalEntry :: "Entry unmarshal \<Rightarrow> bytes \<Rightarrow> Entry" where
  "mustUnmarshalEntry unmarshal d = fst (unmarshal d)"

(* server/storage/wal/decoder.go 107-111 mustUnmarshalState *)
definition mustUnmarshalState :: "HardState unmarshal \<Rightarrow> bytes \<Rightarrow> HardState" where
  "mustUnmarshalState unmarshal d = fst (unmarshal d)"

(* pkg/pbutil/pbutil.go 15-19 MustUnmarshal *)
definition MustUnmarshal :: "'a unmarshal \<Rightarrow> bytes \<Rightarrow> 'a option" where
  "MustUnmarshal unmarshal data = (let (um, err) = unmarshal data in if err \<noteq> None then None else Some um)"

subsection \<open>The length field\<close>

lemma pad_mod:
  assumes "0 \<le> d"
  shows "(8 - (d smod 8)) smod 8 = (- d) mod (8 :: int)"
proof -
  have "d smod 8 = d mod 8"
    using go_mod_pos [OF assms, of 8] by (simp add: go_mod_def)
  moreover have "(8 - d mod 8) smod 8 = (8 - d mod 8) mod (8 :: int)"
    using go_mod_pos [of "8 - d mod 8" 8] by (simp add: go_mod_def)
  moreover have "(8 - d mod 8) mod 8 = (- d) mod (8 :: int)"
    using mod_diff_right_eq [of 8 d 8] mod_add_self1 [of 8 "- d"] by simp
  ultimately show ?thesis by simp
qed

text \<open>The padding completes the data to a multiple of 8.\<close>

definition frame_pad :: "int \<Rightarrow> int" where
  "frame_pad d = (- d) mod 8"

lemma frame_pad_bounds: "0 \<le> frame_pad d" "frame_pad d < 8" "(d + frame_pad d) mod 8 = 0"
  by (simp_all add: frame_pad_def) presburger

lemma encodeFrameSize_eq:
  assumes "0 \<le> d"
  shows "encodeFrameSize d =
    (if frame_pad d = 0 then word_of_int d else word_of_int d OR push_bit 56 (word_of_int (0x80 OR frame_pad d)), frame_pad d)"
  using assms by (simp add: encodeFrameSize_def pad_mod frame_pad_def Let_def)

lemma bit_small_word:
  assumes "0 \<le> d" "d < 2 ^ 56"
  shows "bit (word_of_int d :: uint64) n \<Longrightarrow> n < 56"
  using assms by (metis bit_take_bit_iff bit_word_of_int_iff take_bit_int_eq_self_iff)

lemma sint_small_word:
  assumes "0 \<le> d" "d < 2 ^ 56"
  shows "sint (word_of_int d :: uint64) = d"
  using assms by (simp add: sint_uint uint_word_of_int_eq take_bit_int_eq_self signed_take_bit_int_eq_self)

lemma frame_length_bits:
  assumes "0 \<le> d" "d < 2 ^ 56"
  shows "(fst (encodeFrameSize d)) AND NOT (push_bit 56 0xff) = word_of_int d"
proof (rule bit_word_eqI)
  fix n assume "n < LENGTH(64)"
  then have n: "n < 64" by simp
  have mask: "(0xff :: uint64) = mask 8" by (simp add: mask_eq_exp_minus_1)
  have ff: "bit (push_bit 56 0xff :: uint64) n \<longleftrightarrow> 56 \<le> n"
    unfolding mask bit_push_bit_iff bit_mask_iff using n by auto
  have "bit (fst (encodeFrameSize d)) n = bit (word_of_int d :: uint64) n" if "n < 56"
    using that assms(1) by (simp add: encodeFrameSize_eq bit_or_iff bit_push_bit_iff)
  then show "bit ((fst (encodeFrameSize d)) AND NOT (push_bit 56 0xff)) n = bit (word_of_int d :: uint64) n"
    using bit_small_word [OF assms, of n] n unfolding bit_and_iff bit_not_iff ff by auto
qed

lemma decodeFrameSize_encode:
  assumes "0 \<le> d" "d < 2 ^ 56"
  shows "decodeFrameSize (sint (fst (encodeFrameSize d))) = (d, d)"
  using frame_length_bits [OF assms] sint_small_word [OF assms] by (simp add: decodeFrameSize_def)

lemma frame_top_bits:
  assumes "0 \<le> d" "d < 2 ^ 56"
  shows "drop_bit 56 (fst (encodeFrameSize d)) = (if frame_pad d = 0 then 0 else word_of_int (0x80 OR frame_pad d))"
proof -
  have 0: "drop_bit 56 (word_of_int d :: uint64) = 0"
    using bit_small_word [OF assms] by (intro bit_word_eqI) (auto simp: bit_drop_bit_eq)
  have "frame_pad d \<in> {0, 1, 2, 3, 4, 5, 6, 7}"
    using frame_pad_bounds [of d] by auto
  then show ?thesis
    using assms(1) by (auto simp: encodeFrameSize_eq drop_bit_or 0)
qed

lemma frame_sign:
  assumes "0 \<le> d" "d < 2 ^ 56"
  shows "sint (fst (encodeFrameSize d)) < 0 \<longleftrightarrow> frame_pad d \<noteq> 0"
    "sint (drop_bit 56 (fst (encodeFrameSize d)) AND 0x7) = frame_pad d"
proof -
  have pads: "frame_pad d \<in> {0, 1, 2, 3, 4, 5, 6, 7}"
    using frame_pad_bounds [of d] by auto
  have "sint (fst (encodeFrameSize d)) < 0 \<longleftrightarrow> bit (fst (encodeFrameSize d)) 63"
    using bit_last_iff [of "fst (encodeFrameSize d)"] by simp
  also have "\<dots> \<longleftrightarrow> bit (drop_bit 56 (fst (encodeFrameSize d))) 7"
    by (simp add: bit_drop_bit_eq)
  finally show "sint (fst (encodeFrameSize d)) < 0 \<longleftrightarrow> frame_pad d \<noteq> 0"
    using pads by (auto simp: frame_top_bits [OF assms])
  show "sint (drop_bit 56 (fst (encodeFrameSize d)) AND 0x7) = frame_pad d"
    using pads by (auto simp: frame_top_bits [OF assms])
qed

subsection \<open>Properties\<close>

text \<open>
  C14: the frame of a record. For data of fewer than \<open>2 ^ 56\<close> bytes the padding completes the frame to a multiple of 8 bytes,
  the length field survives being written and read back as a signed integer, the length that \<^verbatim>\<open>decodeFrameSize\<close> finds is the
  length of the data, and the top byte of the field carries the padding, with the sign bit set exactly when there is some.
  What \<^verbatim>\<open>decodeFrameSize\<close> returns as padding is the length again.
\<close>

theorem wal_frame_roundtrip:
  assumes "0 \<le> d" "d < 2 ^ 56" "encodeFrameSize d = (lenField, padBytes)"
  shows "0 \<le> padBytes \<and> padBytes < 8 \<and> (8 + d + padBytes) mod 8 = 0 \<and>
    readInt64 \<lparr>srData = le_bytes lenField @ rest, srErr = e\<rparr> = (\<lparr>srData = rest, srErr = e\<rparr>, sint lenField, None) \<and>
    decodeFrameSize (sint lenField) = (d, d) \<and>
    (sint lenField < 0 \<longleftrightarrow> padBytes \<noteq> 0) \<and> sint (drop_bit 56 lenField AND 0x7) = padBytes"
proof -
  have e: "lenField = fst (encodeFrameSize d)" "padBytes = frame_pad d"
    using assms(3) by simp (use assms(3) encodeFrameSize_eq [OF assms(1)] in simp)
  have "(8 + d + frame_pad d) mod 8 = 0"
    using frame_pad_bounds(3) [of d] mod_add_self1 [of 8 "d + frame_pad d"] by (simp add: add.assoc)
  then show ?thesis
    using frame_pad_bounds(1,2) [of d] decodeFrameSize_encode [OF assms(1,2)] frame_sign [OF assms(1,2)]
    by (simp add: e readInt64_def io_ReadFull_def)
qed

theorem wal_frame_roundtrip_witness:
  "encodeFrameSize 13 = (0x830000000000000d, 3) \<and> decodeFrameSize (sint (0x830000000000000d :: uint64)) = (13, 13)"
proof -
  have "encodeFrameSize 13 = (0x830000000000000d, 3)" by code_simp
  then show ?thesis using wal_frame_roundtrip [of 13 "0x830000000000000d" 3 "[]" IoEOF] by simp
qed

text \<open>The bytes of a record's frame.\<close>

definition frame_bytes :: "bytes \<Rightarrow> bytes" where
  "frame_bytes data = le_bytes (fst (encodeFrameSize (go_len data))) @ data @ replicate (nat (frame_pad (go_len data))) 0"

lemma frame_bytes_aligned: "go_len (frame_bytes data) mod 8 = 0"
proof -
  have "go_len (frame_bytes data) = 8 + (go_len data + frame_pad (go_len data))"
    using frame_pad_bounds(1) [of "go_len data"] by (simp add: frame_bytes_def go_len_def)
  then show ?thesis
    using frame_pad_bounds(3) [of "go_len data"] mod_add_self1 [of 8 "go_len data + frame_pad (go_len data)"] by simp
qed

context lossless_writer
begin

lemma encode_appends:
  assumes "pw_ok (enBw e)" "wr_ok (pwW (enBw e))" "length (enUint64buf e) = 8" "marshal (r\<lparr>rcCrc := dgCrc (enCrc e)\<rparr>) = (data, None)"
  shows "\<exists>e'. encode marshal wr e r = Some (e', r\<lparr>rcCrc := dgCrc (enCrc e)\<rparr>, None) \<and> pw_ok (enBw e') \<and> wr_ok (pwW (enBw e')) \<and>
    length (enUint64buf e') = 8 \<and> enCrc e' = enCrc e \<and>
    pw_stream written (enBw e') = pw_stream written (enBw e) @ frame_bytes data"
proof -
  define lf where "lf = fst (encodeFrameSize (go_len data))"
  define body where "body = data @ replicate (nat (frame_pad (go_len data))) 0"
  have frame: "encodeFrameSize (go_len data) = (lf, frame_pad (go_len data))"
    by (simp add: lf_def encodeFrameSize_eq)
  have body: "(if frame_pad (go_len data) \<noteq> 0 then data @ replicate (nat (frame_pad (go_len data))) 0 else data) = body"
    by (simp add: body_def)
  obtain bw1 where 1: "PageWriter_Write wr (enBw e) (le_bytes lf) = Some (bw1, go_len (le_bytes lf), None)"
    "pw_ok bw1" "wr_ok (pwW bw1)" "pw_stream written bw1 = pw_stream written (enBw e) @ le_bytes lf"
    using lossless_writer.wr_takes_all [OF page_writer_lossless, of "enBw e" "le_bytes lf"] assms(1,2) by auto
  obtain bw2 where 2: "PageWriter_Write wr bw1 body = Some (bw2, go_len body, None)"
    "pw_ok bw2" "wr_ok (pwW bw2)" "pw_stream written bw2 = pw_stream written bw1 @ body"
    using lossless_writer.wr_takes_all [OF page_writer_lossless, of bw1 body] 1(2,3) by auto
  define e' where "e' = e\<lparr>enBw := bw2, enUint64buf := le_bytes lf\<rparr>"
  have "encode marshal wr e r = Some (e', r\<lparr>rcCrc := dgCrc (enCrc e)\<rparr>, None)"
    using assms(3,4) 1(1) 2(1) by (simp add: encode_def digest_Sum32_def frame writeUint64_def e'_def body del: if_not_P cong: if_cong)
  then show ?thesis
    using 1 2 assms(3) by (simp add: e'_def frame_bytes_def lf_def body_def)
qed

end

text \<open>A client that encodes one record after the other.\<close>

fun encode_all :: "Record marshal \<Rightarrow> 'w io_write \<Rightarrow> 'w encoder \<Rightarrow> Record list \<Rightarrow> 'w encoder option" where
  "encode_all marshal wr e [] = Some e"
| "encode_all marshal wr e (r # rs) = do {
     (e, r, err) \<leftarrow> encode marshal wr e r;
     if err = None then encode_all marshal wr e rs else None
   }"

lemma encode_all_appends:
  assumes "pw_ok (enBw e)" "length (enUint64buf e) = 8" "codec_ok marshal unmarshal"
  shows "\<exists>e'. encode_all marshal buffer_Write e rs = Some e' \<and> pw_ok (enBw e') \<and> pw_stream id (enBw e') = pw_stream id (enBw e) @
    concat (map (\<lambda>r. frame_bytes (fst (marshal (r\<lparr>rcCrc := dgCrc (enCrc e)\<rparr>)))) rs)"
  using assms(1,2)
proof (induction rs arbitrary: e)
  case (Cons r rs)
  have "marshal (r\<lparr>rcCrc := dgCrc (enCrc e)\<rparr>) = (fst (marshal (r\<lparr>rcCrc := dgCrc (enCrc e)\<rparr>)), None)"
    using assms(3) by (metis codec_ok_def prod.collapse)
  from buffer.encode_appends [where marshal = marshal and r = r, OF Cons.prems(1) TrueI Cons.prems(2) this]
  obtain e1 where 1: "encode marshal buffer_Write e r = Some (e1, r\<lparr>rcCrc := dgCrc (enCrc e)\<rparr>, None)" "pw_ok (enBw e1)"
    "length (enUint64buf e1) = 8" "enCrc e1 = enCrc e"
    "pw_stream id (enBw e1) = pw_stream id (enBw e) @ frame_bytes (fst (marshal (r\<lparr>rcCrc := dgCrc (enCrc e)\<rparr>)))"
    by blast
  obtain e2 where 2: "encode_all marshal buffer_Write e1 rs = Some e2" "pw_ok (enBw e2)"
    "pw_stream id (enBw e2) = pw_stream id (enBw e1) @
       concat (map (\<lambda>r. frame_bytes (fst (marshal (r\<lparr>rcCrc := dgCrc (enCrc e1)\<rparr>)))) rs)"
    using Cons.IH [OF 1(2,3)] by blast
  have "encode_all marshal buffer_Write e (r # rs) = Some e2"
    using 1(1) 2(1) by simp
  then show ?case
    using 2(2,3) by (simp only: 1(4,5) list.map concat.simps append_assoc) blast
qed simp

text \<open>
  C15: the encoder writes the log. A new encoder on a file, at an offset that is not negative, encodes any sequence of
  records; file and buffer then hold what the file held followed by the frames of the records in order, and a
  flush puts them all into the file. Every record carries the checksum the encoder was created with.
\<close>

theorem wal_encode_appends:
  assumes "codec_ok marshal unmarshal" "0 \<le> pageOffset"
  shows "\<exists>e0 e bw. newEncoder f prevCrc pageOffset = Some e0 \<and> encode_all marshal buffer_Write e0 rs = Some e \<and>
    PageWriter_Flush buffer_Write (enBw e) = Some (bw, None) \<and>
    pwW bw = f @ concat (map (\<lambda>r. frame_bytes (fst (marshal (r\<lparr>rcCrc := prevCrc\<rparr>)))) rs)"
proof -
  have "0 < walPageBytes" "walPageBytes \<le> defaultBufferBytes"
    by (simp_all add: walPageBytes_def minSectorSize_def defaultBufferBytes_def)
  then obtain pw where pw: "NewPageWriter f walPageBytes pageOffset = Some pw" "pw_ok pw" "pwW pw = f" "pwBufferedBytes pw = 0"
    using NewPageWriter_ok [OF _ _ assms(2)] by metis
  define e0 where "e0 = \<lparr>enBw = pw, enCrc = crc_New prevCrc crcTable, enBuf = replicate (1024 * 1024) 0, enUint64buf = replicate 8 (0 :: byte)\<rparr>"
  have e0: "newEncoder f prevCrc pageOffset = Some e0" "pw_ok (enBw e0)" "length (enUint64buf e0) = 8"
    "pw_stream id (enBw e0) = f" "dgCrc (enCrc e0) = prevCrc"
    using pw by (simp_all add: newEncoder_def e0_def pw_stream_def buffered_def crc_New_def)
  obtain e where e: "encode_all marshal buffer_Write e0 rs = Some e" "pw_ok (enBw e)"
    "pw_stream id (enBw e) = f @ concat (map (\<lambda>r. frame_bytes (fst (marshal (r\<lparr>rcCrc := prevCrc\<rparr>)))) rs)"
    using encode_all_appends [OF e0(2,3) assms(1), of rs] e0(4,5) by auto
  obtain bw n where "PageWriter_flush buffer_Write (enBw e) = Some (bw, n, None)" "pwW bw = pw_stream id (enBw e)"
    using buffer.flush_lossless [OF pw_ok_base [OF e(2)]] by force
  then have "PageWriter_Flush buffer_Write (enBw e) = Some (bw, None)"
    "pwW bw = f @ concat (map (\<lambda>r. frame_bytes (fst (marshal (r\<lparr>rcCrc := prevCrc\<rparr>)))) rs)"
    by (simp_all add: PageWriter_Flush_def e(3))
  then show ?thesis
    using e0(1) e(1) by blast
qed

text \<open>A codec for the witnesses: checksum, type, then the data.\<close>

definition sample_marshal :: "Record marshal" where
  "sample_marshal r = (le_bytes (ucast (rcCrc r)) @ le_bytes (rcType r) @ rcData r, None)"

definition sample_unmarshal :: "Record unmarshal" where
  "sample_unmarshal bs = (\<lparr>rcType = le_word (take 8 (drop 8 bs)), rcCrc = ucast (le_word (take 8 bs)), rcData = drop 16 bs\<rparr>, None)"

lemma sample_codec_ok: "codec_ok sample_marshal sample_unmarshal"
proof -
  have "ucast (ucast c :: uint64) = c" for c :: uint32
    by (rule bit_word_eqI) (simp add: bit_ucast_iff)
  then show ?thesis
    by (simp add: codec_ok_def sample_marshal_def sample_unmarshal_def)
qed

theorem wal_encode_appends_witness:
  "\<exists>e0 e bw. newEncoder [9] 5 0 = Some e0 \<and> encode_all sample_marshal buffer_Write e0 [\<lparr>rcType = 1, rcCrc = 0, rcData = [4]\<rparr>] = Some e \<and>
    PageWriter_Flush buffer_Write (enBw e) = Some (bw, None) \<and>
    pwW bw = 9 # frame_bytes [5, 0, 0, 0, 0, 0, 0, 0, 1, 0, 0, 0, 0, 0, 0, 0, 4]"
proof -
  have "fst (sample_marshal \<lparr>rcType = 1, rcCrc = 5, rcData = [4]\<rparr>) = [5, 0, 0, 0, 0, 0, 0, 0, 1, 0, 0, 0, 0, 0, 0, 0, 4]" by code_simp
  then show ?thesis
    using wal_encode_appends [OF sample_codec_ok, of 0 "[9]" 5 "[\<lparr>rcType = 1, rcCrc = 0, rcData = [4]\<rparr>]"] by simp
qed

lemma readInt64_frame:
  "readInt64 \<lparr>srData = frame_bytes data @ rest, srErr = e\<rparr> =
    (\<lparr>srData = data @ replicate (nat (frame_pad (go_len data))) 0 @ rest, srErr = e\<rparr>, sint (fst (encodeFrameSize (go_len data))), None)"
  by (simp add: readInt64_def io_ReadFull_def frame_bytes_def)

lemma decodeRecord_frame:
  assumes "deBrs d = \<lparr>srData = frame_bytes data @ rest, srErr = e\<rparr> # brs" "data \<noteq> []" "go_len data < 2 ^ 56"
  shows "decodeRecord unmarshal d r =
    (let br = \<lparr>srData = data @ replicate (nat (frame_pad (go_len data))) 0 @ rest, srErr = e\<rparr>
     in decodeBody unmarshal (d\<lparr>deBrs := br # brs\<rparr>) br (sint (fst (encodeFrameSize (go_len data)))) r)"
proof -
  have "decodeFrameSize (sint (fst (encodeFrameSize (go_len data)))) = (go_len data, go_len data)" "0 < go_len data"
    using decodeFrameSize_encode [OF go_len_nonneg assms(3)] assms(2) by (simp_all add: go_len_def)
  moreover have "decodeFrameSize 0 = (0, 0)" by (simp add: decodeFrameSize_def)
  ultimately have "sint (fst (encodeFrameSize (go_len data))) \<noteq> 0"
    by (metis fst_conv less_irrefl)
  then show ?thesis
    using assms(1) by (simp add: decodeRecord.simps [of unmarshal d r] readInt64_frame Let_def)
qed

text \<open>
  C16: what decoding an encoded record gives, for data of at least one byte and less than half of the size limit. When at least as
  many bytes follow the data, in padding and later records, the record is returned as it was written, but the decoder takes
  twice the length of the data from the stream, whatever the padding is: it only stands at the next frame when
  padding and data have the same length. When fewer bytes follow, as after the last record of a file, decoding fails
  with \<^verbatim>\<open>ErrUnexpectedEOF\<close>.
\<close>

theorem wal_decode_encoded:
  assumes "codec_ok marshal unmarshal" "marshal rec = (data, None)" "data \<noteq> []" "2 * go_len data < maxWALEntrySizeLimit"
    and "deBrs d = \<lparr>srData = frame_bytes data @ rest, srErr = IoEOF\<rparr> # brs"
  shows "decode unmarshal d r =
    (if go_len data \<le> frame_pad (go_len data) + go_len rest
     then (d\<lparr>deBrs := \<lparr>srData = drop (length data) (replicate (nat (frame_pad (go_len data))) 0 @ rest), srErr = IoEOF\<rparr> # brs\<rparr>, rec, None)
     else (d\<lparr>deBrs := \<lparr>srData = [], srErr = IoEOF\<rparr> # brs\<rparr>, Record_zero, Some IoErrUnexpectedEOF))"
proof -
  define pad where "pad = replicate (nat (frame_pad (go_len data))) (0 :: byte)"
  have pad: "go_len pad = frame_pad (go_len data)"
    using frame_pad_bounds(1) [of "go_len data"] by (simp add: pad_def go_len_def)
  have small: "go_len data < 2 ^ 56" using assms(4) by (simp add: maxWALEntrySizeLimit_def)
  have um: "unmarshal data = (rec, None)" using assms(1,2) by (metis codec_ok_def fst_conv)
  have n: "nat (2 * go_len data) = length data + length data" "nat (go_len data) = length data" by (simp_all add: go_len_def)
  have le: "length data + length data \<le> length (data @ pad @ rest) \<longleftrightarrow> go_len data \<le> frame_pad (go_len data) + go_len rest"
    using pad by (simp add: go_len_def) linarith
  have read: "io_ReadFull \<lparr>srData = data @ pad @ rest, srErr = IoEOF\<rparr> (length data + length data) =
    (if go_len data \<le> frame_pad (go_len data) + go_len rest
     then (\<lparr>srData = drop (length data) (pad @ rest), srErr = IoEOF\<rparr>, data @ take (length data) (pad @ rest), None)
     else (\<lparr>srData = [], srErr = IoEOF\<rparr>, data @ pad @ rest, Some IoErrUnexpectedEOF))"
    using le assms(3) by (simp add: io_ReadFull_def)
  show ?thesis
    using assms(4) unfolding decode_def decodeRecord_frame [OF assms(5,3) small]
    by (simp add: decodeBody_def decodeFrameSize_encode [OF go_len_nonneg small] n read um Let_def flip: pad_def)
qed

theorem wal_decode_encoded_witness:
  "decode sample_unmarshal (newDecoder [\<lparr>srData = frame_bytes [5, 0, 0, 0, 0, 0, 0, 0, 1, 0, 0, 0, 0, 0, 0, 0, 4], srErr = IoEOF\<rparr>]) Record_zero =
    (newDecoder [\<lparr>srData = [], srErr = IoEOF\<rparr>], Record_zero, Some IoErrUnexpectedEOF)"
proof -
  have m: "sample_marshal \<lparr>rcType = 1, rcCrc = 5, rcData = [4]\<rparr> = ([5, 0, 0, 0, 0, 0, 0, 0, 1, 0, 0, 0, 0, 0, 0, 0, 4], None)" by code_simp
  show ?thesis
    using wal_decode_encoded [OF sample_codec_ok m, of "newDecoder [\<lparr>srData = frame_bytes [5, 0, 0, 0, 0, 0, 0, 0, 1, 0, 0, 0, 0, 0, 0, 0, 4], srErr = IoEOF\<rparr>]" "[]" "[]" Record_zero]
    by (simp add: newDecoder_def maxWALEntrySizeLimit_def frame_pad_def go_len_def)
qed

end
