(* ===== verification/Bounded_Readers.thy ===== *)
theory Bounded_Readers
  imports Go_IO
begin

section \<open>Readers that bound what is read\<close>

text \<open>
  \<^verbatim>\<open>src/pkg/ioutil/reader.go\<close> and \<^verbatim>\<open>readcloser.go\<close>: a reader that limits every single read, and one that checks that
  exactly the announced number of bytes is read before it is closed. The reader below is a parameter; what is relied on
  is the contract of \<^verbatim>\<open>io.Reader\<close> that no more bytes are returned than the buffer holds (\<open>reads_within\<close>). The number of bytes read is an
  \<^verbatim>\<open>int64\<close> and is not wrapped: the model is exact for less than \<open>2 ^ 63\<close> bytes.
\<close>

definition reads_within :: "'r io_read \<Rightarrow> bool" where
  "reads_within rd \<longleftrightarrow> (\<forall>r n. length (fst (snd (rd r n))) \<le> n)"

text \<open>A reader over a byte list, the instance of \<^verbatim>\<open>bytes.Reader\<close>.\<close>

definition list_Read :: "bytes io_read" where
  "list_Read s n = (drop n s, take n s, if s = [] \<and> n \<noteq> 0 then Some IoEOF else None)"

lemma list_Read_within: "reads_within list_Read"
  by (simp add: reads_within_def list_Read_def)

subsection \<open>The limited reader\<close>

(* pkg/ioutil/reader.go 12-15 limitedBufferReader *)
record 'r limitedBufferReader =
  lbR :: 'r
  lbN :: int

(* pkg/ioutil/reader.go 5-10 NewLimitedBufferReader *)
definition NewLimitedBufferReader :: "'r \<Rightarrow> int \<Rightarrow> 'r limitedBufferReader" where
  "NewLimitedBufferReader r n = \<lparr>lbR = r, lbN = n\<rparr>"

(* pkg/ioutil/reader.go 17-23 limitedBufferReader.Read *)
definition limitedBufferReader_Read ::
  "'r io_read \<Rightarrow> 'r limitedBufferReader \<Rightarrow> nat \<Rightarrow> ('r limitedBufferReader \<times> bytes \<times> goerr option) option" where
  "limitedBufferReader_Read rd r n =
     (if int n > lbN r \<and> lbN r < 0 then None
      else let np = (if int n > lbN r then nat (lbN r) else n); (s, bs, err) = rd (lbR r) np
           in Some (r\<lparr>lbR := s\<rparr>, bs, err))"

subsection \<open>The exact reader\<close>

(* pkg/ioutil/readcloser.go 25-29 exactReadCloser *)
record 'r exactReadCloser =
  erRc :: 'r
  erBr :: int
  erTotalBytes :: int

(* pkg/ioutil/readcloser.go 18-23 NewExactReadCloser *)
definition NewExactReadCloser :: "'r \<Rightarrow> int \<Rightarrow> 'r exactReadCloser" where
  "NewExactReadCloser rc totalBytes = \<lparr>erRc = rc, erBr = 0, erTotalBytes = totalBytes\<rparr>"

(* pkg/ioutil/readcloser.go 31-41 exactReadCloser.Read *)
definition exactReadCloser_Read ::
  "'r io_read \<Rightarrow> 'r exactReadCloser \<Rightarrow> nat \<Rightarrow> 'r exactReadCloser \<times> bytes \<times> goerr option" where
  "exactReadCloser_Read rd e n =
     (let (rc, bs, err) = rd (erRc e) n;
          e = e\<lparr>erRc := rc, erBr := erBr e + go_len bs\<rparr>
      in if erBr e > erTotalBytes e then (e, [], Some ErrExpectEOF)
         else if erBr e < erTotalBytes e \<and> bs = [] then (e, [], Some ErrShortRead)
         else (e, bs, err))"

(* pkg/ioutil/readcloser.go 43-51 exactReadCloser.Close *)
definition exactReadCloser_Close ::
  "('r \<Rightarrow> 'r \<times> goerr option) \<Rightarrow> 'r exactReadCloser \<Rightarrow> 'r exactReadCloser \<times> goerr option" where
  "exactReadCloser_Close cl e =
     (let (rc, err) = cl (erRc e); e = e\<lparr>erRc := rc\<rparr>
      in if err \<noteq> None then (e, None)
         else if erBr e < erTotalBytes e then (e, Some ErrShortRead)
         else (e, None))"

text \<open>A client that reads with buffers of the given sizes: the bytes it got, and the errors.\<close>

fun read_all :: "'r io_read \<Rightarrow> 'r exactReadCloser \<Rightarrow> nat list \<Rightarrow> 'r exactReadCloser \<times> bytes \<times> goerr list" where
  "read_all rd e [] = (e, [], [])"
| "read_all rd e (n # ns) =
     (let (e, bs, err) = exactReadCloser_Read rd e n; (e, rest, errs) = read_all rd e ns
      in (e, bs @ rest, (case err of None \<Rightarrow> errs | Some x \<Rightarrow> x # errs)))"

lemma exactReadCloser_Read_count:
  assumes "exactReadCloser_Read rd e n = (e', bs, err)"
  shows "erTotalBytes e' = erTotalBytes e" "erBr e + go_len bs \<le> erBr e'"
    "err \<noteq> Some ErrExpectEOF \<Longrightarrow> erBr e' = erBr e + go_len bs" "bs \<noteq> [] \<Longrightarrow> erBr e' \<le> erTotalBytes e"
  using assms by (auto simp: exactReadCloser_Read_def Let_def split: prod.splits if_splits)

lemma read_all_count:
  assumes "read_all rd e ns = (e', out, errs)"
  shows "erTotalBytes e' = erTotalBytes e \<and> erBr e + go_len out \<le> erBr e' \<and>
    (out \<noteq> [] \<longrightarrow> erBr e + go_len out \<le> erTotalBytes e) \<and>
    (ErrExpectEOF \<notin> set errs \<longrightarrow> erBr e' = erBr e + go_len out)"
  using assms
proof (induction ns arbitrary: e out errs)
  case (Cons n ns)
  obtain e1 bs err where 1: "exactReadCloser_Read rd e n = (e1, bs, err)" by (metis prod_cases3)
  obtain rest es where 2: "read_all rd e1 ns = (e', rest, es)" using Cons.prems 1 by (auto split: prod.splits)
  have r: "out = bs @ rest" "errs = (case err of None \<Rightarrow> es | Some x \<Rightarrow> x # es)"
    using Cons.prems 1 2 by simp_all
  show ?case
    using exactReadCloser_Read_count [OF 1] Cons.IH [OF 2] unfolding r
    by (cases "rest = []"; cases "bs = []") (auto split: option.splits)
qed simp

text \<open>
  C33: the exact reader. However a client reads from a new exact reader, it never gets more than the announced number of
  bytes. When none of its reads was refused with \<^verbatim>\<open>ErrExpectEOF\<close> and the reader below closes without error, closing gives no error
  exactly when the client got the announced number of bytes, and \<^verbatim>\<open>ErrShortRead\<close> exactly when it got fewer. When the reader below fails to close,
  closing gives no error, whatever was read.
\<close>

theorem exactReadCloser_exact:
  assumes "0 \<le> totalBytes" "read_all rd (NewExactReadCloser rc totalBytes) ns = (e, out, errs)"
  shows "go_len out \<le> totalBytes \<and>
    (ErrExpectEOF \<notin> set errs \<and> snd (cl (erRc e)) = None \<longrightarrow>
      (snd (exactReadCloser_Close cl e) = None \<longleftrightarrow> go_len out = totalBytes) \<and>
      (snd (exactReadCloser_Close cl e) = Some ErrShortRead \<longleftrightarrow> go_len out < totalBytes)) \<and>
    (snd (cl (erRc e)) \<noteq> None \<longrightarrow> snd (exactReadCloser_Close cl e) = None)"
  using read_all_count [OF assms(2)] assms(1)
  by (cases "out = []")
    (auto simp: NewExactReadCloser_def exactReadCloser_Close_def Let_def split: prod.splits if_splits)

theorem exactReadCloser_exact_witness:
  "\<exists>e. read_all list_Read (NewExactReadCloser [1, 2, 3] 3) [2, 2] = (e, [1, 2, 3], []) \<and> go_len [1, 2, 3 :: byte] = 3 \<and>
    snd (exactReadCloser_Close (\<lambda>r. (r, None)) e) = None"
proof -
  define e where "e = fst (read_all list_Read (NewExactReadCloser [1, 2, 3] 3) [2, 2])"
  have r: "read_all list_Read (NewExactReadCloser [1, 2, 3] 3) [2, 2] = (e, [1, 2, 3], [])"
    by (simp add: e_def NewExactReadCloser_def exactReadCloser_Read_def list_Read_def)
  have "snd (exactReadCloser_Close (\<lambda>r. (r, None)) e) = None"
    by (simp add: e_def NewExactReadCloser_def exactReadCloser_Read_def list_Read_def exactReadCloser_Close_def)
  then show ?thesis
    using exactReadCloser_exact [OF _ r, of "\<lambda>r. (r, None)"] r by auto
qed

text \<open>The limited reader never hands out more than its limit in one read, and needs a limit that is not negative.\<close>

lemma limitedBufferReader_Read_bound:
  assumes "reads_within rd" "0 \<le> k"
  shows "\<exists>r' bs err. limitedBufferReader_Read rd (NewLimitedBufferReader r k) n = Some (r', bs, err) \<and>
    lbN r' = k \<and> int (length bs) \<le> k \<and> length bs \<le> n"
proof -
  define np where "np = (if int n > k then nat k else n)"
  obtain s bs err where rd: "rd r np = (s, bs, err)" by (metis prod_cases3)
  then have "length bs \<le> np" using assms(1) unfolding reads_within_def by (metis fst_conv snd_conv)
  then show ?thesis
    using rd assms(2) by (auto simp: limitedBufferReader_Read_def NewLimitedBufferReader_def np_def Let_def split: if_splits)
qed

end
