(* ===== verification/State_Machine.thy ===== *)
theory State_Machine
  imports Go_Prelude
begin

section \<open>The state machine of package state\<close>

text \<open>
  \<^verbatim>\<open>src/state\<close>: a goroutine (\<^verbatim>\<open>run\<close>) takes switch requests from a channel with one place and calls the handler of the requested state,
  whose \<^verbatim>\<open>Do\<close> method may send the next request to the same channel. \<^verbatim>\<open>StartAt\<close> calls a handler in the goroutine of its caller.

  The goroutines are program points of the record \<open>machine_sys\<close>: the run goroutine is at its \<^verbatim>\<open>select\<close> or blocked in a send, and
  every caller of \<^verbatim>\<open>StartAt\<close> that has not been able to send yet is waiting with its request. \<open>machine_step\<close> has one rule per
  case of the \<^verbatim>\<open>select\<close>, one per send, and one per call of a method. The printing of the handlers is left out.
\<close>

subsection \<open>States and handlers\<close>

(* state/state.go 9-16 StateEnum *)
datatype StateEnum = StateFollower | StateCandidate | StatePreCandidate | StateLeader

(* state/state.go 18-30 StateEnum.String *)
fun StateEnum_String :: "StateEnum \<Rightarrow> string" where
  "StateEnum_String StateFollower = ''FOLLOWER''"
| "StateEnum_String StateCandidate = ''CANDIDATE''"
| "StateEnum_String StateLeader = ''LEADER''"
| "StateEnum_String StatePreCandidate = ''INVALID_STATE''"

(* state/state.go 32-36 Machine *)
datatype Machine = FollowerState | CandidateState | LeaderState

text \<open>The request that a handler's \<^verbatim>\<open>Do\<close> sends, if it sends one.\<close>

(* state/follower.go 10-14 FollowerState.Do *)
definition FollowerState_Do :: "StateEnum option" where
  "FollowerState_Do = Some StateCandidate"

(* state/candidate.go 10-14 CandidateState.Do *)
definition CandidateState_Do :: "StateEnum option" where
  "CandidateState_Do = Some StateLeader"

(* state/leader.go 10-14 LeaderState.Do *)
definition LeaderState_Do :: "StateEnum option" where
  "LeaderState_Do = None"

(* state/state.go 32-36 Machine.Do *)
fun Machine_Do :: "Machine \<Rightarrow> StateEnum option" where
  "Machine_Do FollowerState = FollowerState_Do"
| "Machine_Do CandidateState = CandidateState_Do"
| "Machine_Do LeaderState = LeaderState_Do"

subsection \<open>The machine\<close>

text \<open>\<open>sxSwitchC\<close> is the buffer of the channel, \<open>sxClose\<close> whether the close channel is closed.\<close>

(* state/state.go 40-46 StateMachine *)
record StateMachine =
  sxSwitchC :: "StateEnum list"
  sxClose :: bool
  sxStMap :: "(StateEnum, Machine) gomap"
  sxState :: StateEnum

(* state/state.go 108-117 NewMachine *)
definition NewMachine :: StateMachine where
  "NewMachine = \<lparr>sxSwitchC = [], sxClose = False, sxStMap = [], sxState = StateFollower\<rparr>"

(* state/state.go 59-62 StateMachine.register *)
definition register :: "StateEnum \<Rightarrow> Machine \<Rightarrow> StateMachine \<Rightarrow> StateMachine" where
  "register enum machine sm = sm\<lparr>sxStMap := AList.update enum machine (sxStMap sm)\<rparr>"

text \<open>The capacity of the channel.\<close>

(* state/state.go 110-110 NewMachine *)
definition switchCap :: nat where
  "switchCap = 1"

text \<open>The goroutines: the request that \<^verbatim>\<open>run\<close> is blocked in sending, those of the callers, and the \<^verbatim>\<open>Ready\<close> value of \<^verbatim>\<open>run\<close>.\<close>

(* state/state.go 68-73 StateMachine.run *)
record machine_sys =
  mySm :: StateMachine
  myRun :: "StateEnum option"
  myCallers :: "StateEnum list"
  myRd :: string

(* state/state.go 54-58 StateBase.SwitchTo *)
definition SwitchTo :: "StateEnum \<Rightarrow> StateMachine \<Rightarrow> StateMachine option" where
  "SwitchTo enum sm =
     (if length (sxSwitchC sm) < switchCap then Some (sm\<lparr>sxSwitchC := sxSwitchC sm @ [enum]\<rparr>) else None)"

text \<open>The first case of the \<^verbatim>\<open>select\<close>: the machine after it, and the request the handler sends.\<close>

(* state/state.go 75-81 StateMachine.run *)
definition runSwitch :: "StateEnum \<Rightarrow> StateMachine \<Rightarrow> StateMachine \<times> StateEnum option" where
  "runSwitch m sm =
     (case map_of (sxStMap sm) m of
        Some handler \<Rightarrow> (sm\<lparr>sxState := m\<rparr>, Machine_Do handler)
      | None \<Rightarrow> (sm, None))"

(* state/state.go 123-129 StateMachine.StartAt *)
definition StartAt :: "StateEnum \<Rightarrow> machine_sys \<Rightarrow> machine_sys" where
  "StartAt enum s =
     (case map_of (sxStMap (mySm s)) enum of
        Some handler \<Rightarrow> (case Machine_Do handler of Some m \<Rightarrow> s\<lparr>myCallers := myCallers s @ [m]\<rparr> | None \<Rightarrow> s)
      | None \<Rightarrow> s)"

(* state/state.go 119-122 StateMachine.Stop *)
definition Stop :: "StateMachine \<Rightarrow> StateMachine option" where
  "Stop sm = (if sxClose sm then None else Some (sm\<lparr>sxClose := True, sxStMap := []\<rparr>))"

(* state/state.go 68-98 StateMachine.run *)
inductive machine_step :: "machine_sys \<Rightarrow> machine_sys \<Rightarrow> bool" where
  on_switch: "myRun s = None \<Longrightarrow> sxSwitchC (mySm s) = m # ms \<Longrightarrow> runSwitch m ((mySm s)\<lparr>sxSwitchC := ms\<rparr>) = (sm, nxt) \<Longrightarrow>
    machine_step s (s\<lparr>mySm := sm, myRun := nxt\<rparr>)"
| run_send: "myRun s = Some m \<Longrightarrow> SwitchTo m (mySm s) = Some sm \<Longrightarrow> machine_step s (s\<lparr>mySm := sm, myRun := None\<rparr>)"
| caller_send: "myCallers s = xs @ m # ys \<Longrightarrow> SwitchTo m (mySm s) = Some sm \<Longrightarrow>
    machine_step s (s\<lparr>mySm := sm, myCallers := xs @ ys\<rparr>)"
| on_close: "myRun s = None \<Longrightarrow> sxClose (mySm s) \<Longrightarrow> machine_step s s"
| on_ready: "myRun s = None \<Longrightarrow> machine_step s (s\<lparr>myRd := ''''\<rparr>)"
| on_timer: "myRun s = None \<Longrightarrow> machine_step s (s\<lparr>myRd := now\<rparr>)"

text \<open>The calls of the methods by other goroutines.\<close>

inductive machine_call :: "machine_sys \<Rightarrow> machine_sys \<Rightarrow> bool" where
  call_StartAt: "machine_call s (StartAt enum s)"
| call_Stop: "Stop (mySm s) = Some sm \<Longrightarrow> machine_call s (s\<lparr>mySm := sm\<rparr>)"
| call_register: "machine_call s (s\<lparr>mySm := register enum h (mySm s)\<rparr>)"

definition machine_next :: "machine_sys \<Rightarrow> machine_sys \<Rightarrow> bool" where
  "machine_next s s' \<longleftrightarrow> machine_step s s' \<or> machine_call s s'"

inductive_cases machine_stepE: "machine_step s s'"
inductive_cases machine_callE: "machine_call s s'"

subsection \<open>Properties\<close>

text \<open>The machine with its three handlers, as the program's test sets it up.\<close>

definition started :: "StateEnum \<Rightarrow> machine_sys" where
  "started enum = StartAt enum
     \<lparr>mySm = register StateFollower FollowerState (register StateCandidate CandidateState (register StateLeader LeaderState NewMachine)),
      myRun = None, myCallers = [], myRd = ''''\<rparr>"

text \<open>What the switch requests are doing, and the way a machine takes that is started as a follower.\<close>

definition view :: "machine_sys \<Rightarrow> StateEnum list \<times> StateEnum option \<times> StateEnum list \<times> StateEnum" where
  "view s = (sxSwitchC (mySm s), myRun s, myCallers s, sxState (mySm s))"

definition follower_path :: "(StateEnum list \<times> StateEnum option \<times> StateEnum list \<times> StateEnum) list" where
  "follower_path =
     [([], None, [StateCandidate], StateFollower), ([StateCandidate], None, [], StateFollower),
      ([], Some StateLeader, [], StateCandidate), ([StateLeader], None, [], StateCandidate), ([], None, [], StateLeader)]"

definition handlers_ok :: "machine_sys \<Rightarrow> bool" where
  "handlers_ok s \<longleftrightarrow> map_of (sxStMap (mySm s)) StateFollower = Some FollowerState \<and>
     map_of (sxStMap (mySm s)) StateCandidate = Some CandidateState \<and> map_of (sxStMap (mySm s)) StateLeader = Some LeaderState"

lemmas machine_simps = view_def handlers_ok_def runSwitch_def SwitchTo_def switchCap_def FollowerState_Do_def CandidateState_Do_def LeaderState_Do_def

lemma started_follower: "view (started StateFollower) = follower_path ! 0" "handlers_ok (started StateFollower)"
  by (simp_all add: started_def StartAt_def register_def NewMachine_def follower_path_def machine_simps)

lemma follower_path_step:
  assumes "machine_step s s'" "handlers_ok s" "k < 5" "view s = follower_path ! k"
  shows "handlers_ok s' \<and> (view s' = follower_path ! k \<or> k < 4 \<and> view s' = follower_path ! Suc k)"
proof -
  have "k \<in> {0, 1, 2, 3, 4}" using assms(3) by auto
  then show ?thesis
    using assms(1,2,4)
    by (elim machine_stepE) (auto simp: follower_path_def machine_simps append_eq_Cons_conv split: option.splits if_splits)
qed

lemma follower_path_enabled:
  assumes "handlers_ok s" "k < 4" "view s = follower_path ! k"
  shows "\<exists>s'. machine_step s s' \<and> view s' = follower_path ! Suc k"
proof -
  consider "k = 0" | "k = 1" | "k = 2" | "k = 3" using assms(2) by linarith
  then show ?thesis
  proof cases
    case 1
    let ?s' = "s\<lparr>mySm := (mySm s)\<lparr>sxSwitchC := [StateCandidate]\<rparr>, myCallers := [] @ []\<rparr>"
    have "machine_step s ?s'"
      using 1 assms(3) by (intro caller_send [of s _ StateCandidate]) (auto simp: follower_path_def machine_simps)
    moreover have "view ?s' = follower_path ! Suc k"
      using 1 assms(3) by (simp add: follower_path_def machine_simps)
    ultimately show ?thesis by blast
  next
    case 2
    let ?s' = "s\<lparr>mySm := (mySm s)\<lparr>sxSwitchC := [], sxState := StateCandidate\<rparr>, myRun := Some StateLeader\<rparr>"
    have "machine_step s ?s'"
      using 2 assms(1,3) by (intro on_switch [of s StateCandidate "[]"]) (auto simp: follower_path_def machine_simps)
    moreover have "view ?s' = follower_path ! Suc k"
      using 2 assms(3) by (simp add: follower_path_def machine_simps)
    ultimately show ?thesis by blast
  next
    case 3
    let ?s' = "s\<lparr>mySm := (mySm s)\<lparr>sxSwitchC := [StateLeader]\<rparr>, myRun := None\<rparr>"
    have "machine_step s ?s'"
      using 3 assms(3) by (intro run_send [of s StateLeader]) (auto simp: follower_path_def machine_simps)
    moreover have "view ?s' = follower_path ! Suc k"
      using 3 assms(3) by (simp add: follower_path_def machine_simps)
    ultimately show ?thesis by blast
  next
    case 4
    let ?s' = "s\<lparr>mySm := (mySm s)\<lparr>sxSwitchC := [], sxState := StateLeader\<rparr>, myRun := None\<rparr>"
    have "machine_step s ?s'"
      using 4 assms(1,3) by (intro on_switch [of s StateLeader "[]"]) (auto simp: follower_path_def machine_simps)
    moreover have "view ?s' = follower_path ! Suc k"
      using 4 assms(3) by (simp add: follower_path_def machine_simps)
    ultimately show ?thesis by blast
  qed
qed

definition on_path :: "machine_sys \<Rightarrow> bool" where
  "on_path s \<longleftrightarrow> handlers_ok s \<and> (\<exists>k<5. view s = follower_path ! k)"

interpretation path: step_invariant machine_step on_path
proof
  fix s s' assume "on_path s" and step: "machine_step s s'"
  then obtain k where k: "handlers_ok s" "k < 5" "view s = follower_path ! k" by (auto simp: on_path_def)
  from follower_path_step [OF step this] show "on_path s'"
    using k(2) by (auto simp: on_path_def intro: exI [of _ k] exI [of _ "Suc k"])
qed

lemma started_on_path: "on_path (started StateFollower)"
  using started_follower by (auto simp: on_path_def intro: exI [of _ 0])

text \<open>
  A fair infinite run of the goroutines: it takes steps for ever, and when a request can be handed on, the requests do
  not stay as they are for ever.
\<close>

definition fair_run :: "(nat \<Rightarrow> machine_sys) \<Rightarrow> bool" where
  "fair_run f \<longleftrightarrow> (\<forall>n. machine_step (f n) (f (Suc n))) \<and>
     (\<forall>n. (\<exists>s'. machine_step (f n) s' \<and> view s' \<noteq> view (f n)) \<longrightarrow> (\<exists>m>n. view (f m) \<noteq> view (f n)))"

lemma follower_path_distinct: "distinct follower_path" "length follower_path = 5"
  by (simp_all add: follower_path_def)

lemma path_forward:
  assumes "\<And>n. machine_step (f n) (f (Suc n))" "on_path (f 0)" "k < 5" "view (f n) = follower_path ! k" "n \<le> m"
  shows "\<exists>k'. k \<le> k' \<and> k' < 5 \<and> view (f m) = follower_path ! k'"
  using assms(5)
proof (induction m rule: dec_induct)
  case (step m)
  then obtain k' where k': "k \<le> k'" "k' < 5" "view (f m) = follower_path ! k'" by blast
  have "handlers_ok (f m)"
    using path.trace_keeps [of f, OF assms(2,1)] by (simp add: on_path_def)
  from follower_path_step [OF assms(1) this k'(2,3)] show ?case
  proof (elim conjE disjE)
    assume "k' < 4" "view (f (Suc m)) = follower_path ! Suc k'"
    then show ?thesis using k' by (intro exI [of _ "Suc k'"]) simp
  qed (use k' in auto)
qed (use assms(3,4) in blast)

lemma path_progress:
  assumes "fair_run f" "on_path (f 0)" "k < 4" "view (f n) = follower_path ! k"
  shows "\<exists>m k'. k < k' \<and> k' < 5 \<and> view (f m) = follower_path ! k'"
proof -
  have run: "\<And>n. machine_step (f n) (f (Suc n))"
    and fair: "\<And>n s'. machine_step (f n) s' \<Longrightarrow> view s' \<noteq> view (f n) \<Longrightarrow> \<exists>m>n. view (f m) \<noteq> view (f n)"
    using assms(1) by (auto simp: fair_run_def)
  have "handlers_ok (f n)"
    using path.trace_keeps [of f, OF assms(2) run] by (simp add: on_path_def)
  from follower_path_enabled [OF this assms(3,4)] obtain s' where
    "machine_step (f n) s'" "view s' = follower_path ! Suc k" by blast
  moreover have "follower_path ! Suc k \<noteq> follower_path ! k"
    using follower_path_distinct assms(3) by (simp add: nth_eq_iff_index_eq)
  ultimately obtain m where m: "n < m" "view (f m) \<noteq> view (f n)"
    using fair assms(4) by metis
  obtain k' where "k \<le> k'" "k' < 5" "view (f m) = follower_path ! k'"
    using path_forward [of f k n m, OF run assms(2) _ assms(4)] assms(3) m(1) by auto
  then show ?thesis
    using m(2) assms(4) by (metis le_neq_implies_less)
qed

lemma path_reaches:
  assumes "fair_run f" "view (f 0) = follower_path ! 0" "handlers_ok (f 0)" "j \<le> 4"
  shows "\<exists>n k. j \<le> k \<and> k < 5 \<and> view (f n) = follower_path ! k"
  using assms(4)
proof (induction j)
  case 0
  then show ?case using assms(2) by (intro exI [of _ 0]) simp
next
  case (Suc j)
  then obtain n k where k: "j \<le> k" "k < 5" "view (f n) = follower_path ! k" by auto
  have start: "on_path (f 0)" using assms(2,3) by (auto simp: on_path_def intro: exI [of _ 0])
  show ?case
  proof (cases "k < 4")
    case True
    then show ?thesis
      using path_progress [OF assms(1) start True k(3)] k(1) by (meson Suc_leI le_less_trans)
  next
    case False
    then show ?thesis using k Suc.prems by (intro exI [of _ n] exI [of _ k]) simp
  qed
qed

text \<open>
  C21: a machine that is started as a follower becomes leader. In every fair infinite run of the goroutines, whatever the interleaving with
  timers, readies and the caller, the machine passes from follower over candidate to leader: at every moment its state, the requests in its channel and the
  goroutines that wait are at one of the five points of \<open>follower_path\<close>, and from some moment on its
  state is leader for ever, and no request is under way.
\<close>

theorem machine_becomes_leader:
  assumes "f 0 = started StateFollower" "fair_run f"
  shows "(\<forall>n. view (f n) \<in> set follower_path) \<and>
    (\<exists>n. \<forall>m\<ge>n. sxState (mySm (f m)) = StateLeader \<and> sxSwitchC (mySm (f m)) = [] \<and> myRun (f m) = None \<and> myCallers (f m) = [])"
proof -
  have "view (f n) \<in> set follower_path" for n
    using path_forward [of f 0 0 n] assms started_follower started_on_path follower_path_distinct(2)
    by (auto simp: fair_run_def in_set_conv_nth)
  moreover obtain n k where k: "4 \<le> k" "k < 5" "view (f n) = follower_path ! k"
    using path_reaches [OF assms(2), of 4] started_follower assms(1) by auto
  have "view (f m) = follower_path ! 4" if "n \<le> m" for m
  proof -
    obtain k' where k': "k \<le> k'" "k' < 5" "view (f m) = follower_path ! k'"
      using path_forward [of f k n m, OF _ _ k(2,3) \<open>n \<le> m\<close>] assms started_on_path by (auto simp: fair_run_def)
    moreover have "k' = 4" using k' k(1) by linarith
    ultimately show ?thesis by simp
  qed
  then have "\<forall>m\<ge>n. sxState (mySm (f m)) = StateLeader \<and> sxSwitchC (mySm (f m)) = [] \<and> myRun (f m) = None \<and> myCallers (f m) = []"
    by (simp add: view_def follower_path_def)
  ultimately show ?thesis by blast
qed

text \<open>There is such a run: the requests are handed on at once, and then the machine offers its readies.\<close>

lemma follower_path_next:
  assumes "handlers_ok s" "k < 4" "view s = follower_path ! k"
  obtains s' where "machine_step s s'" "view s' = follower_path ! Suc k" "handlers_ok s'"
  using follower_path_enabled [OF assms] follower_path_step [OF _ assms(1) _ assms(3)] assms(2) by fastforce

definition path_run :: "machine_sys list \<Rightarrow> nat \<Rightarrow> machine_sys" where
  "path_run ss n = (if n < 5 then ss ! n else (ss ! 4)\<lparr>myRd := ''''\<rparr>)"

lemma path_run_fair:
  assumes "\<And>k. k < 5 \<Longrightarrow> view (ss ! k) = follower_path ! k \<and> handlers_ok (ss ! k)"
    and "\<And>k. k < 4 \<Longrightarrow> machine_step (ss ! k) (ss ! Suc k)"
  shows "fair_run (path_run ss)"
proof -
  have end_view: "view (path_run ss n) = follower_path ! 4 \<and> handlers_ok (path_run ss n)" if "4 \<le> n" for n
    using that assms(1) [of 4] by (cases "n = 4") (auto simp: path_run_def view_def handlers_ok_def)
  then have idle: "myRun (path_run ss n) = None" if "4 \<le> n" for n
    using that by (auto simp: view_def follower_path_def)
  have steps: "machine_step (path_run ss n) (path_run ss (Suc n))" for n
  proof (cases "n < 4")
    case False
    then have "path_run ss (Suc n) = (path_run ss n)\<lparr>myRd := ''''\<rparr>"
      by (cases "n = 4") (auto simp: path_run_def)
    then show ?thesis using on_ready [of "path_run ss n"] idle [of n] False by simp
  qed (use assms(2) [of n] in \<open>simp add: path_run_def\<close>)
  moreover have "view (path_run ss (Suc n)) \<noteq> view (path_run ss n)"
    if "machine_step (path_run ss n) s'" "view s' \<noteq> view (path_run ss n)" for n s'
  proof -
    have "n < 4"
      using follower_path_step [OF that(1), of 4] end_view [of n] that(2) by fastforce
    then show ?thesis
      using assms(1) [of n] assms(1) [of "Suc n"] follower_path_distinct by (simp add: path_run_def nth_eq_iff_index_eq)
  qed
  ultimately show ?thesis unfolding fair_run_def by blast
qed

lemma fair_run_exists: "\<exists>f. f 0 = started StateFollower \<and> fair_run f"
proof -
  obtain s1 where s1: "machine_step (started StateFollower) s1" "view s1 = follower_path ! Suc 0" "handlers_ok s1"
    using follower_path_next [OF started_follower(2) _ started_follower(1)] by auto
  obtain s2 where s2: "machine_step s1 s2" "view s2 = follower_path ! Suc (Suc 0)" "handlers_ok s2"
    using follower_path_next [OF s1(3) _ s1(2)] by auto
  obtain s3 where s3: "machine_step s2 s3" "view s3 = follower_path ! Suc (Suc (Suc 0))" "handlers_ok s3"
    using follower_path_next [OF s2(3) _ s2(2)] by auto
  obtain s4 where s4: "machine_step s3 s4" "view s4 = follower_path ! Suc (Suc (Suc (Suc 0)))" "handlers_ok s4"
    using follower_path_next [OF s3(3) _ s3(2)] by auto
  let ?ss = "[started StateFollower, s1, s2, s3, s4]"
  have "fair_run (path_run ?ss)"
    by (rule path_run_fair)
      (use started_follower s1 s2 s3 s4 in \<open>auto simp: less_Suc_eq eval_nat_numeral\<close>)
  then show ?thesis
    by (intro exI [of _ "path_run ?ss"]) (simp add: path_run_def)
qed

theorem machine_becomes_leader_witness:
  "\<exists>f n. f 0 = started StateFollower \<and> fair_run f \<and> (\<forall>m\<ge>n. sxState (mySm (f m)) = StateLeader)"
  using fair_run_exists machine_becomes_leader by meson

lemma blocked_step:
  assumes "machine_next y z" "myRun y = Some m" "length (sxSwitchC (mySm y)) = switchCap"
  shows "myRun z = Some m \<and> sxSwitchC (mySm z) = sxSwitchC (mySm y) \<and> sxState (mySm z) = sxState (mySm y)"
  using assms(1) unfolding machine_next_def
proof
  assume "machine_step y z"
  then show ?thesis using assms(2,3) by cases (auto simp: SwitchTo_def)
next
  assume "machine_call y z"
  then show ?thesis
    using assms(2,3) by cases (auto simp: StartAt_def Stop_def register_def split: option.splits if_splits)
qed

text \<open>
  C40: two starts can block the machine for ever. When a second \<^verbatim>\<open>StartAt\<close> fills the channel while the run goroutine is about to send, the
  run goroutine waits for a place in a channel that only it empties: such a state is reachable, and from it on, whatever
  is called or happens, the run goroutine stays blocked, so no switch, timer or close is handled any more.
\<close>

theorem machine_deadlock:
  "(\<exists>s. machine_next\<^sup>*\<^sup>* (started StateFollower) s \<and> myRun s = Some StateLeader \<and> length (sxSwitchC (mySm s)) = switchCap) \<and>
   (\<forall>s s' m. myRun s = Some m \<longrightarrow> length (sxSwitchC (mySm s)) = switchCap \<longrightarrow> machine_next\<^sup>*\<^sup>* s s' \<longrightarrow>
     myRun s' = Some m \<and> sxSwitchC (mySm s') = sxSwitchC (mySm s) \<and> sxState (mySm s') = sxState (mySm s))"
proof (intro conjI allI impI)
  obtain s1 where s1: "machine_step (started StateFollower) s1" "view s1 = follower_path ! 1" "handlers_ok s1"
    using follower_path_enabled [OF started_follower(2) _ started_follower(1)] follower_path_step [OF _ started_follower(2) _ started_follower(1)] by auto
  obtain s2 where s2: "machine_step s1 s2" "view s2 = follower_path ! 2" "handlers_ok s2"
    using follower_path_enabled [OF s1(3) _ s1(2)] follower_path_step [OF _ s1(3) _ s1(2)] by (auto simp: numeral_2_eq_2)
  define s3 where "s3 = StartAt StateFollower s2"
  have s3: "machine_call s2 s3" "myRun s3 = Some StateLeader" "myCallers s3 = [StateCandidate]" "sxSwitchC (mySm s3) = []"
    using s2 call_StartAt [of s2 StateFollower] by (auto simp: s3_def StartAt_def follower_path_def machine_simps)
  have s4: "machine_step s3 (s3\<lparr>mySm := (mySm s3)\<lparr>sxSwitchC := [StateCandidate]\<rparr>, myCallers := [] @ []\<rparr>)"
    using s3 by (intro caller_send [of s3 _ StateCandidate]) (auto simp: machine_simps)
  have "machine_next\<^sup>*\<^sup>* (started StateFollower) (s3\<lparr>mySm := (mySm s3)\<lparr>sxSwitchC := [StateCandidate]\<rparr>, myCallers := [] @ []\<rparr>)"
    using s1(1) s2(1) s3(1) s4
    by (meson machine_next_def converse_rtranclp_into_rtranclp rtranclp.rtrancl_refl)
  moreover have "myRun (s3\<lparr>mySm := (mySm s3)\<lparr>sxSwitchC := [StateCandidate]\<rparr>, myCallers := [] @ []\<rparr>) = Some StateLeader"
    "length (sxSwitchC (mySm (s3\<lparr>mySm := (mySm s3)\<lparr>sxSwitchC := [StateCandidate]\<rparr>, myCallers := [] @ []\<rparr>))) = switchCap"
    using s3(2) by (simp_all add: switchCap_def)
  ultimately show "\<exists>s. machine_next\<^sup>*\<^sup>* (started StateFollower) s \<and> myRun s = Some StateLeader \<and> length (sxSwitchC (mySm s)) = switchCap"
    by blast
next
  fix s s' m
  assume blocked: "myRun s = Some m" "length (sxSwitchC (mySm s)) = switchCap" and steps: "machine_next\<^sup>*\<^sup>* s s'"
  from steps have "myRun s' = Some m \<and> sxSwitchC (mySm s') = sxSwitchC (mySm s) \<and> sxState (mySm s') = sxState (mySm s)"
  proof (induction rule: rtranclp_induct)
    case (step y z)
    then show ?case using blocked blocked_step [OF step(2)] by simp
  qed (use blocked in simp)
  then show "myRun s' = Some m" "sxSwitchC (mySm s') = sxSwitchC (mySm s)" "sxState (mySm s') = sxState (mySm s)" by auto
qed

theorem machine_deadlock_witness:
  "\<exists>s s'. machine_next\<^sup>*\<^sup>* (started StateFollower) s \<and> length (sxSwitchC (mySm s)) = switchCap \<and>
     machine_next s s' \<and> s' = StartAt StateCandidate s \<and> myRun s' = Some StateLeader"
proof -
  obtain s where s: "machine_next\<^sup>*\<^sup>* (started StateFollower) s" "myRun s = Some StateLeader" "length (sxSwitchC (mySm s)) = switchCap"
    using machine_deadlock by blast
  have call: "machine_next s (StartAt StateCandidate s)"
    using call_StartAt by (simp add: machine_next_def)
  have "myRun (StartAt StateCandidate s) = Some StateLeader"
    using machine_deadlock s(2,3) r_into_rtranclp [of machine_next, OF call] by blast
  with s call show ?thesis by blast
qed

end
