(* ===== verification/Go_Fmt.thy ===== *)
theory Go_Fmt
  imports Go_Prelude
begin

section \<open>Formatting integers\<close>

text \<open>
  What the code uses of packages \<^verbatim>\<open>fmt\<close> and \<^verbatim>\<open>strconv\<close>: the decimal text of an integer (\<^verbatim>\<open>%d\<close>, \<^verbatim>\<open>%v\<close>, \<^verbatim>\<open>FormatInt\<close>). The locale
  \<open>readable\<close> is the contract of a printed form that can be read back: printing is then injective, so a printed
  form can serve as a key. Decimal numbers interpret it here, other printed forms in later theories.
\<close>

fun digits :: "nat \<Rightarrow> string" where
  "digits n = (if n < 10 then [char_of (48 + n)] else digits (n div 10) @ [char_of (48 + n mod 10)])"

declare digits.simps [simp del]

definition itoa :: "int \<Rightarrow> string" where
  "itoa i = (if i < 0 then CHR ''-'' # digits (nat (- i)) else digits (nat i))"

text \<open>Reading is only used to state that printing loses nothing.\<close>

definition digit_value :: "char \<Rightarrow> nat" where
  "digit_value c = of_char c - 48"

definition undigits :: "string \<Rightarrow> nat" where
  "undigits s = foldl (\<lambda>a c. 10 * a + digit_value c) 0 s"

definition is_digit :: "char \<Rightarrow> bool" where
  "is_digit c \<longleftrightarrow> 48 \<le> (of_char c :: nat) \<and> (of_char c :: nat) < 58"

definition atoi :: "string \<Rightarrow> int" where
  "atoi s = (if s \<noteq> [] \<and> hd s = CHR ''-'' then - int (undigits (tl s)) else int (undigits s))"

subsection \<open>Printed forms that can be read back\<close>

locale readable =
  fixes print :: "'a \<Rightarrow> string" and read :: "string \<Rightarrow> 'a"
  assumes read_print: "read (print x) = x"
begin

lemma print_inj: "print x = print y \<longleftrightarrow> x = y"
  by (metis read_print)

lemma print_inj_on: "inj_on print A"
  by (simp add: inj_on_def print_inj)

end

subsection \<open>Decimal numbers\<close>

lemma of_char_digit [simp]: "(d :: nat) < 10 \<Longrightarrow> of_char (char_of (48 + d) :: char) = 48 + d"
  by (simp add: of_char_of)

lemma digit_value_digit [simp]: "d < 10 \<Longrightarrow> digit_value (char_of (48 + d)) = d"
  by (simp add: digit_value_def)

lemma undigits_snoc [simp]: "undigits (s @ [c]) = 10 * undigits s + digit_value c"
  by (simp add: undigits_def)

lemma undigits_single [simp]: "undigits [c] = digit_value c"
  by (simp add: undigits_def)

interpretation dec: readable digits undigits
proof
  show "undigits (digits n) = n" for n
    by (induction n rule: digits.induct) (subst digits.simps, simp)
qed

lemma digits_are_digits: "c \<in> set (digits n) \<Longrightarrow> is_digit c"
proof (induction n rule: digits.induct)
  case (1 n)
  then show ?case
    by (subst (asm) (2) digits.simps) (auto simp: is_digit_def split: if_splits)
qed

lemma digits_not_Nil [simp]: "digits n \<noteq> []"
  by (subst digits.simps) simp

lemma minus_no_digit [simp]: "\<not> is_digit CHR ''-''"
  by (simp add: is_digit_def)

lemma hd_digits: "is_digit (hd (digits n))"
  by (rule digits_are_digits [of _ n]) simp

interpretation int_dec: readable itoa atoi
proof
  have "hd (digits n) \<noteq> CHR ''-''" for n
    using hd_digits [of n] by auto
  then show "atoi (itoa i) = i" for i
    by (simp add: itoa_def atoi_def dec.read_print)
qed

text \<open>A number that is followed by something that is not a digit can be told apart from what follows.\<close>

lemma takeWhile_digits:
  assumes "\<not> is_digit c"
  shows "takeWhile is_digit (digits n @ c # s) = digits n" "dropWhile is_digit (digits n @ c # s) = c # s"
  using assms by (auto simp: digits_are_digits takeWhile_append dropWhile_append2)

lemma digits_delimited:
  assumes "\<not> is_digit c" "\<not> is_digit d"
  shows "digits a @ c # s = digits b @ d # t \<longleftrightarrow> a = b \<and> c = d \<and> s = t"
proof
  assume eq: "digits a @ c # s = digits b @ d # t"
  then have "digits a = digits b"
    using takeWhile_digits(1) [OF assms(1), of a s] takeWhile_digits(1) [OF assms(2), of b t] by simp
  then show "a = b \<and> c = d \<and> s = t"
    using eq by (simp add: dec.print_inj)
qed simp

end
