(* ===== verification/KV_Node.thy ===== *)
theory KV_Node
  imports Go_Fmt
begin

section \<open>The key-value node: state and request handlers\<close>

text \<open>
  Package \<^verbatim>\<open>node\<close> (\<^verbatim>\<open>src/node\<close>): the replication protocol over gRPC that the program starts. This theory has the structs of
  \<^verbatim>\<open>node.go\<close>, the messages of \<^verbatim>\<open>rpc/node.pb.go\<close>, the operations on the item list and the handlers of \<^verbatim>\<open>node_server.go\<close>.

  \<^verbatim>\<open>uint\<close> has 64 bits, the fields of the messages have 32; conversions are \<^verbatim>\<open>ucast\<close>. The redis client is a
  parameter: \<open>hset\<close> is its \<^verbatim>\<open>HSet\<close> on the client's state \<open>'db\<close>, and \<open>json\<close> the text of an item. \<^verbatim>\<open>time.Now()\<close> is an argument.
  A handler is one step: it runs to its end before another handler of the node does.
\<close>

subsection \<open>Configuration\<close>

(* db/redis_client.go 5-9 RedisConfig *)
record RedisConfig =
  rgAddress :: string
  rgPassword :: string
  rgDB :: int

(* node/node.go 19-24 NodeConfig *)
record NodeConfig =
  ncHost :: string
  ncPort :: int
  ncLogPath :: string
  ncRedisCfg :: RedisConfig

(* node/node.go 15-18 DBServiceConfig *)
record DBServiceConfig =
  dcHost :: string
  dcPort :: int

(* node/node.go 26-28 NodeConfig.Address *)
definition Address :: "NodeConfig \<Rightarrow> string" where
  "Address nc = ncHost nc @ '':'' @ itoa (ncPort nc)"

subsection \<open>Messages\<close>

(* node/rpc/node.pb.go 23-31 ElectionRequest *)
record ElectionRequest =
  erqNodeId :: string
  erqTerm :: uint32
  erqIndex :: uint32

(* node/rpc/node.pb.go 86-95 ElectionReply *)
record ElectionReply =
  erpAccept :: bool
  erpNodeId :: string
  erpTerm :: uint32
  erpIndex :: uint32

(* node/rpc/node.pb.go 157-165 HeartRequest *)
record HeartRequest =
  hrqFrom :: string
  hrqTerm :: uint32
  hrqCommitIndex :: uint32

(* node/rpc/node.pb.go 220-226 HeartReply *)
record HeartReply =
  hrpCommitIndex :: uint32

(* node/rpc/node.pb.go 267-275 Entry *)
record RpcEntry =
  reTerm :: uint32
  reIndex :: uint32
  reValue :: string

(* node/rpc/node.pb.go 330-340 AppendEntryRequest *)
record AppendEntryRequest =
  aeEntry :: "RpcEntry option"
  aePreTerm :: uint32
  aePreIndex :: uint32
  aeCommitIndex :: uint32
  aeFrom :: string

(* node/rpc/node.pb.go 409-417 AppendEntryReply *)
record AppendEntryReply =
  arAccept :: bool
  arAppendIndex :: uint32
  arCommitIndex :: uint32

subsection \<open>The node\<close>

(* node/state.go 22-26 NodeState *)
datatype NodeState = StateFollower | StateCandidate | StateLeader

(* node/state.go 8-20 NodeState.String *)
fun NodeState_String :: "NodeState \<Rightarrow> string" where
  "NodeState_String StateFollower = ''FOLLOWER''"
| "NodeState_String StateCandidate = ''CANDIDATE''"
| "NodeState_String StateLeader = ''LEADER''"

(* node/node.go 30-36 WorkNode *)
record WorkNode =
  wId :: int
  wCfg :: NodeConfig
  wTerm :: uint64
  wCommitIndex :: uint64
  wAcceptIndex :: uint64

(* node/node.go 38-42 Item *)
record Item =
  itIndex :: uint64
  itTerm :: uint64
  itLog :: string

(* node/node.go 46-68 Node *)
record 'db Node =
  nRdb :: 'db
  nId :: string
  nElecting :: bool
  nTerm :: uint64
  nLeaderId :: string
  nHeartBeat :: int
  nState :: NodeState
  nOathAcceptNum :: int
  nConfig :: "NodeConfig list"
  nConfigIndex :: uint64
  nOtherNodeList :: "WorkNode list"
  nItemList :: "Item list"
  nCommitIndex :: uint64
  nAcceptIndex :: uint64
  nPreTerm :: uint64
  nTickC :: bool
  nStop :: bool

(* node/node.go 70-72 Node.GetRedisKey *)
definition GetRedisKey :: "'db Node \<Rightarrow> string" where
  "GetRedisKey n = ''node_'' @ nId n"

(* node/node.go 74-81 Node.GetItemByIndex *)
definition GetItemByIndex :: "'db Node \<Rightarrow> uint64 \<Rightarrow> Item option" where
  "GetItemByIndex n index = find (\<lambda>item. itIndex item = index) (nItemList n)"

(* node/node.go 83-95 Node.GetNextItem *)
fun nextItemLoop :: "uint64 \<Rightarrow> bool \<Rightarrow> Item option \<Rightarrow> Item list \<Rightarrow> Item option" where
  "nextItemLoop index nextFlag nxt [] = nxt"
| "nextItemLoop index nextFlag nxt (v # vs) =
     (let nextFlag = (nextFlag \<or> itIndex v = index)
      in nextItemLoop index nextFlag (if nextFlag then Some v else nxt) vs)"

(* node/node.go 83-95 Node.GetNextItem *)
definition GetNextItem :: "'db Node \<Rightarrow> Item \<Rightarrow> Item option" where
  "GetNextItem n item = nextItemLoop (itIndex item) False None (nItemList n)"

(* node/node.go 109-114 Node.GetTailItem *)
definition GetTailItem :: "'db Node \<Rightarrow> Item" where
  "GetTailItem n =
     (if nItemList n = [] then \<lparr>itIndex = 0, itTerm = 0, itLog = ''''\<rparr>
      else nItemList n ! (length (nItemList n) - 1))"

(* node/node.go 101-107 Node.GetPreItem *)
fun preItemLoop :: "uint64 \<Rightarrow> Item \<Rightarrow> Item list \<Rightarrow> Item" where
  "preItemLoop index pre [] = pre"
| "preItemLoop index pre (v # vs) = (if itIndex v = index then pre else preItemLoop index v vs)"

(* node/node.go 96-108 Node.GetPreItem *)
definition GetPreItem :: "'db Node \<Rightarrow> Item option \<Rightarrow> Item" where
  "GetPreItem n item =
     (case item of
        None \<Rightarrow> GetTailItem n
      | Some item \<Rightarrow> preItemLoop (itIndex item) \<lparr>itIndex = 0, itTerm = 0, itLog = ''''\<rparr> (nItemList n))"

(* node/node.go 115-120 Node.SetState *)
definition SetState :: "NodeState \<Rightarrow> 'db Node \<Rightarrow> 'db Node" where
  "SetState state n = n\<lparr>nState := state\<rparr>"

(* node/node.go 136-140 Node.GetState *)
definition GetState :: "'db Node \<Rightarrow> NodeState" where
  "GetState n = nState n"

(* node/node.go 121-125 Node.GetOathAcceptNum *)
definition GetOathAcceptNum :: "'db Node \<Rightarrow> int" where
  "GetOathAcceptNum n = nOathAcceptNum n"

(* node/node.go 126-130 Node.SetOathAcceptNum *)
definition SetOathAcceptNum :: "int \<Rightarrow> 'db Node \<Rightarrow> 'db Node" where
  "SetOathAcceptNum num n = n\<lparr>nOathAcceptNum := num\<rparr>"

(* node/node.go 131-135 Node.AddOathAcceptNum *)
definition AddOathAcceptNum :: "int \<Rightarrow> 'db Node \<Rightarrow> 'db Node" where
  "AddOathAcceptNum num n = n\<lparr>nOathAcceptNum := nOathAcceptNum n + num\<rparr>"

(* node/node.go 141-143 Node.GetConfigIndex *)
definition GetConfigIndex :: "'db Node \<Rightarrow> uint64" where
  "GetConfigIndex n = nConfigIndex n"

(* node/node.go 144-146 Node.GetMyConfig *)
definition GetMyConfig :: "'db Node \<Rightarrow> NodeConfig option" where
  "GetMyConfig n = go_nth64 (nConfig n) (nConfigIndex n)"

text \<open>The other nodes: every configuration but the node's own, each with the node's own index as its id.\<close>

(* node/node.go 169-174 CreateNode *)
definition otherNodes :: "NodeConfig list \<Rightarrow> int \<Rightarrow> WorkNode list" where
  "otherNodes nodeCfgList index =
     map (\<lambda>(i, cfg). \<lparr>wId = index, wCfg = cfg, wTerm = 0, wCommitIndex = 0, wAcceptIndex = 0\<rparr>)
       (filter (\<lambda>(i, cfg). int i \<noteq> index) (enumerate 0 nodeCfgList))"

text \<open>\<open>connect\<close> is \<^verbatim>\<open>redis.NewClient\<close>.\<close>

(* node/node.go 150-182 CreateNode *)
definition CreateNode :: "(RedisConfig \<Rightarrow> 'db) \<Rightarrow> NodeConfig list \<Rightarrow> int \<Rightarrow> 'db Node option" where
  "CreateNode connect nodeCfgList index = do {
     cfg \<leftarrow> go_nth nodeCfgList index;
     Some \<lparr>nRdb = connect (ncRedisCfg cfg), nId = itoa index, nElecting = False, nTerm = 0, nLeaderId = '''', nHeartBeat = 0,
       nState = StateFollower, nOathAcceptNum = 0, nConfig = nodeCfgList, nConfigIndex = word_of_int index,
       nOtherNodeList = otherNodes nodeCfgList index,
       nItemList = [\<lparr>itIndex = 0, itTerm = 0, itLog = ''init''\<rparr>], nCommitIndex = 0, nAcceptIndex = 0, nPreTerm = 0,
       nTickC = False, nStop = False\<rparr>
   }"

subsection \<open>The handlers\<close>

datatype redis_err = RedisNil | RedisErr string

type_synonym 'db redis_hset = "string \<Rightarrow> string \<Rightarrow> string \<Rightarrow> 'db \<Rightarrow> 'db \<times> redis_err option"

(* node/node_server.go 14-33 Node.Heart *)
definition Heart :: "int \<Rightarrow> HeartRequest \<Rightarrow> 'db Node \<Rightarrow> 'db Node \<times> HeartReply" where
  "Heart now inp n =
     (let n = n\<lparr>nHeartBeat := now\<rparr>;
          n = (if ucast (hrqTerm inp) \<ge> nTerm n
               then SetState StateFollower (n\<lparr>nTerm := ucast (hrqTerm inp), nLeaderId := hrqFrom inp\<rparr>) else n);
          item = GetTailItem n
      in if hrqCommitIndex inp = ucast (nCommitIndex n + 1) \<and> itIndex item > nCommitIndex n
         then let n = n\<lparr>nCommitIndex := nCommitIndex n + 1\<rparr> in (n, \<lparr>hrpCommitIndex = ucast (nCommitIndex n)\<rparr>)
         else (n, \<lparr>hrpCommitIndex = 0\<rparr>))"

(* node/node_server.go 34-58 Node.Election *)
definition Election :: "int \<Rightarrow> ElectionRequest \<Rightarrow> 'db Node \<Rightarrow> 'db Node \<times> ElectionReply" where
  "Election now inp n =
     (let n = n\<lparr>nHeartBeat := now\<rparr>;
          inTerm = ucast (erqTerm inp);
          (n, accept) =
            (if nTerm n < inTerm then
               let preTerm = GetTailItem n
               in if ucast (itIndex preTerm) > erqIndex inp then (n, False)
                  else (SetState StateFollower (n\<lparr>nTerm := inTerm, nLeaderId := erqNodeId inp\<rparr>), True)
             else if nTerm n = inTerm then (n, False)
             else (n, False))
      in (n, \<lparr>erpAccept = accept, erpNodeId = '''', erpTerm = ucast (nTerm n), erpIndex = ucast (nConfigIndex n)\<rparr>))"

text \<open>The getters of a message that may be nil.\<close>

(* node/rpc/node.pb.go 309-328 Entry.GetTerm *)
definition RpcEntry_get :: "(RpcEntry \<Rightarrow> 'a) \<Rightarrow> 'a \<Rightarrow> RpcEntry option \<Rightarrow> 'a" where
  "RpcEntry_get f zero x = (case x of None \<Rightarrow> zero | Some e \<Rightarrow> f e)"

text \<open>Storing the new item: \<^term>\<open>None\<close> when the nil entry is dereferenced.\<close>

(* node/node_server.go 64-77 Node.Append *)
definition appendItem ::
  "'db redis_hset \<Rightarrow> (Item \<Rightarrow> string) \<Rightarrow> RpcEntry option \<Rightarrow> 'db Node \<Rightarrow> ('db Node \<times> bool \<times> redis_err option) option" where
  "appendItem hset json entry n = do {
     e \<leftarrow> entry;
     let newItem = \<lparr>itIndex = ucast (reIndex e), itTerm = ucast (reTerm e), itLog = reValue e\<rparr>;
     let (db, err) = hset (GetRedisKey n) (itoa (uint (reIndex e))) (json newItem) (nRdb n);
     let n = n\<lparr>nRdb := db\<rparr>;
     if err = None \<or> err = Some RedisNil
     then Some (n\<lparr>nItemList := nItemList n @ [newItem], nTerm := ucast (reTerm e)\<rparr>, True, None)
     else Some (n, False, err)
   }"

(* node/node_server.go 59-100 Node.Append *)
definition Append ::
  "'db redis_hset \<Rightarrow> (Item \<Rightarrow> string) \<Rightarrow> AppendEntryRequest \<Rightarrow> 'db Node \<Rightarrow> ('db Node \<times> AppendEntryReply \<times> redis_err option) option" where
  "Append hset json inp n = do {
     let item = GetTailItem n;
     let entry = aeEntry inp;
     (n, accept, err) \<leftarrow>
       (if itTerm item = ucast (aePreTerm inp) \<and> itIndex item = ucast (aePreIndex inp) \<and>
           ucast (itIndex item + 1) = RpcEntry_get reIndex 0 entry
        then appendItem hset json entry n else Some (n, False, None));
     let (n, appendIndex) =
       (if accept then
          let n = (if nId n \<noteq> aeFrom inp then SetState StateFollower n else n);
              n = (if aeCommitIndex inp = ucast (nCommitIndex n + 1) \<and> itIndex item > nCommitIndex n
                   then n\<lparr>nCommitIndex := nCommitIndex n + 1\<rparr> else n)
          in (n, RpcEntry_get reIndex 0 entry)
        else (n, ucast (itIndex item)));
     Some (n, \<lparr>arAccept = accept, arAppendIndex = appendIndex, arCommitIndex = ucast (nCommitIndex n)\<rparr>, err)
   }"

(* node/db_server.go 8-10 Node.DBAppend *)
definition DBAppend :: "string \<Rightarrow> 'db Node \<Rightarrow> 'db Node \<times> int" where
  "DBAppend log n = (n, 0)"

end
