(* ===== verification/KV_Client.thy ===== *)
theory KV_Client
  imports KV_Node
begin

section \<open>The key-value node: requests, elections and commitment\<close>

text \<open>
  \<^verbatim>\<open>src/node/node_client.go\<close> and the second half of \<^verbatim>\<open>node.go\<close>: what a node sends, and what it does with the replies.

  The network is a parameter: a call is a function from the address and the request to the new state of the network and
  the reply or the error of the call. Where the code passes a \<^verbatim>\<open>*WorkNode\<close> that is an element of \<^verbatim>\<open>OtherNodeList\<close> the model
  passes its position, because \<^verbatim>\<open>CheckAcceptId\<close> reads through the same pointer what \<^verbatim>\<open>SendAppendEntry\<close> has just written.

  \<^verbatim>\<open>election\<close> and \<^verbatim>\<open>AppendEntry\<close> start one goroutine per other node. All of them read the loop variable (the module is for Go 1.17,
  where it is shared), so each of them sees the other node it was started for or a later one. \<^verbatim>\<open>election\<close> waits for its goroutines while the handlers
  of the node go on: it is given here in the pieces between which other goroutines run, its beginning, the statements of a goroutine and its
  end; \<open>KV_Election\<close> interleaves them. \<^verbatim>\<open>AppendEntry\<close> runs its goroutines one after the other here; \<open>KV_Race\<close> interleaves the ends of two of them.
\<close>

type_synonym ('net, 'q, 'p) rpc_call = "NodeConfig \<Rightarrow> 'q \<Rightarrow> 'net \<Rightarrow> 'net \<times> (string + 'p)"

subsection \<open>Elections\<close>

text \<open>The request, which carries the term that the node has when it is built, and what the node does with the result of the call.\<close>

(* node/node_client.go 29-29 Client.SendElectionRequest *)
definition electionRequest :: "'db Node \<Rightarrow> ElectionRequest" where
  "electionRequest n = \<lparr>erqNodeId = nId n, erqTerm = ucast (nTerm n), erqIndex = ucast (nAcceptIndex n)\<rparr>"

(* node/node_client.go 30-46 Client.SendElectionRequest *)
definition electionResult :: "string + ElectionReply \<Rightarrow> 'db Node \<Rightarrow> 'db Node" where
  "electionResult res n =
     (case res of
        Inl err \<Rightarrow> n
      | Inr r \<Rightarrow>
          (if erpAccept r then AddOathAcceptNum 1 n
           else if ucast (erpTerm r) > nTerm n then SetState StateFollower n
           else if ucast (erpTerm r) = nTerm n \<and> ucast (erpIndex r) > nConfigIndex n then SetState StateFollower n
           else n))"

(* node/node_client.go 25-54 Client.SendElectionRequest *)
definition SendElectionRequest ::
  "('net, ElectionRequest, ElectionReply) rpc_call \<Rightarrow> NodeConfig \<Rightarrow> 'db Node \<Rightarrow> 'net \<Rightarrow> 'db Node \<times> 'net \<times> string option" where
  "SendElectionRequest call conn n net =
     (let (net, res) = call conn (electionRequest n) net
      in (electionResult res n, net, case res of Inl err \<Rightarrow> Some err | Inr r \<Rightarrow> None))"

text \<open>What \<^verbatim>\<open>election\<close> does before it starts its goroutines.\<close>

(* node/node.go 241-243 Node.election *)
definition election_begin :: "'db Node \<Rightarrow> 'db Node" where
  "election_begin n = (let n = SetOathAcceptNum 1 n in n\<lparr>nTerm := nTerm n + 1\<rparr>)"

text \<open>
  A goroutine of \<^verbatim>\<open>election\<close>: it dials, calls, gets the result of the call, and handles it, after which it signals the wait
  group. One that cannot dial returns without the signal.
\<close>

(* node/node.go 247-254 Node.election *)
datatype vote_pc =
    VoteStart
  | VoteNoDial
  | VoteDialed NodeConfig
  | VoteSent NodeConfig ElectionRequest
  | VoteReplied NodeConfig ElectionRequest "string + ElectionReply"
  | VoteDone NodeConfig ElectionRequest "string + ElectionReply"

text \<open>The goroutine that was started for position \<open>i\<close> dials the node at the position \<open>t\<close> that the loop has reached.\<close>

(* node/node.go 245-251 Node.election *)
fun voteDial :: "nat \<Rightarrow> nat \<Rightarrow> bool \<Rightarrow> vote_pc \<Rightarrow> 'db Node \<Rightarrow> (vote_pc \<times> 'db Node) option" where
  "voteDial i t dialed VoteStart n =
     (if i \<le> t then do {
        node \<leftarrow> go_nth (nOtherNodeList n) (int t);
        Some (if dialed then VoteDialed (wCfg node) else VoteNoDial, n)
      }
      else None)"
| "voteDial i t dialed _ n = None"

(* node/node.go 252-252 Node.election *)
fun voteCall :: "vote_pc \<Rightarrow> 'db Node \<Rightarrow> (vote_pc \<times> 'db Node) option" where
  "voteCall (VoteDialed cfg) n = Some (VoteSent cfg (electionRequest n), n)"
| "voteCall _ n = None"

(* node/node_client.go 29-29 Client.SendElectionRequest *)
fun voteReturn :: "string + ElectionReply \<Rightarrow> vote_pc \<Rightarrow> 'db Node \<Rightarrow> (vote_pc \<times> 'db Node) option" where
  "voteReturn res (VoteSent cfg req) n = Some (VoteReplied cfg req res, n)"
| "voteReturn res _ n = None"

(* node/node.go 252-253 Node.election *)
fun voteCount :: "vote_pc \<Rightarrow> 'db Node \<Rightarrow> (vote_pc \<times> 'db Node) option" where
  "voteCount (VoteReplied cfg req res) n = Some (VoteDone cfg req res, electionResult res n)"
| "voteCount _ n = None"

(* node/node.go 256-256 Node.election *)
fun vote_signalled :: "vote_pc \<Rightarrow> bool" where
  "vote_signalled (VoteDone cfg req res) \<longleftrightarrow> True"
| "vote_signalled _ \<longleftrightarrow> False"

text \<open>
  What \<^verbatim>\<open>election\<close> does when all goroutines have signalled. It returns the node and whether it has started \<^verbatim>\<open>leaderSendHeart\<close> in a goroutine,
  which it does when it has won.
\<close>

(* node/node.go 257-273 Node.election *)
definition election_end :: "'db Node \<Rightarrow> 'db Node \<times> bool" where
  "election_end n =
     (let oathAcceptNum = GetOathAcceptNum n
      in if oathAcceptNum * 2 > int (length (nConfig n)) then (SetState StateLeader n, True) else (n, False))"

(* node/node.go 236-239 Node.timeout *)
definition timeout :: "'db Node \<Rightarrow> 'db Node" where
  "timeout n = SetState StateCandidate n"

subsection \<open>Commitment\<close>

(* node/node.go 275-287 Node.CheckCommitId *)
definition CheckCommitId :: "'db Node \<Rightarrow> 'db Node" where
  "CheckCommitId n =
     (let acceptCommitCounter = length (filter (\<lambda>otherNode. wCommitIndex otherNode > nCommitIndex n) (nOtherNodeList n))
      in if acceptCommitCounter * 2 > length (nOtherNodeList n) + 1
         then n\<lparr>nCommitIndex := nCommitIndex n + 1\<rparr> else n)"

(* node/node.go 288-301 Node.CheckAcceptId *)
definition CheckAcceptId :: "'db Node \<Rightarrow> 'db Node" where
  "CheckAcceptId n =
     (let acceptAcceptCounter = length (filter (\<lambda>otherNode. wAcceptIndex otherNode > nAcceptIndex n) (nOtherNodeList n))
      in if acceptAcceptCounter * 2 > length (nOtherNodeList n) + 1
         then n\<lparr>nAcceptIndex := nAcceptIndex n + 1\<rparr> else n)"

subsection \<open>Heartbeats\<close>

(* node/node_client.go 68-71 Client.SendHeart *)
definition heartRequest :: "'db Node \<Rightarrow> WorkNode \<Rightarrow> HeartRequest" where
  "heartRequest n node =
     \<lparr>hrqFrom = nId n, hrqTerm = ucast (nTerm n),
      hrqCommitIndex = (if wCommitIndex node < wAcceptIndex node then ucast (wCommitIndex node + 1) else 0)\<rparr>"

(* node/node_client.go 62-85 Client.SendHeart *)
definition SendHeart :: "('net, HeartRequest, HeartReply) rpc_call \<Rightarrow> 'db Node \<Rightarrow> WorkNode \<Rightarrow> 'net \<Rightarrow> 'net \<times> string option" where
  "SendHeart call n node net =
     (let (net, res) = call (wCfg node) (heartRequest n node) net
      in case res of Inl err \<Rightarrow> (net, Some (''rpc_error: '' @ err)) | Inr r \<Rightarrow> (net, None))"

(* node/node.go 227-233 Node.leaderSendHeart *)
fun sendHeartLoop :: "(NodeConfig \<Rightarrow> bool) \<Rightarrow> ('net, HeartRequest, HeartReply) rpc_call \<Rightarrow> 'db Node \<Rightarrow> WorkNode list \<Rightarrow> 'net \<Rightarrow> 'net" where
  "sendHeartLoop dial call n [] net = net"
| "sendHeartLoop dial call n (node # nodes) net =
     (if dial (wCfg node) then sendHeartLoop dial call n nodes (fst (SendHeart call n node net))
      else sendHeartLoop dial call n nodes net)"

(* node/node.go 226-235 Node.leaderSendHeart *)
definition leaderSendHeart ::
  "(NodeConfig \<Rightarrow> bool) \<Rightarrow> ('net, HeartRequest, HeartReply) rpc_call \<Rightarrow> 'db Node \<Rightarrow> 'net \<Rightarrow> 'db Node \<times> 'net" where
  "leaderSendHeart dial call n net =
     (let net = sendHeartLoop dial call n (nOtherNodeList n) net in (CheckCommitId n, net))"

subsection \<open>Replication\<close>

text \<open>The request for an item and the item before it.\<close>

(* node/node_client.go 93-101 Client.SendAppendEntry *)
definition appendRequest :: "'db Node \<Rightarrow> WorkNode \<Rightarrow> Item \<Rightarrow> AppendEntryRequest" where
  "appendRequest n node item =
     (let preItem = GetPreItem n (Some item)
      in \<lparr>aeEntry = Some \<lparr>reTerm = ucast (itTerm item), reIndex = ucast (itIndex item), reValue = itLog item\<rparr>,
          aePreTerm = ucast (itTerm preItem), aePreIndex = ucast (itIndex preItem),
          aeCommitIndex = (if wCommitIndex node < wAcceptIndex node then ucast (wCommitIndex node + 1) else 0),
          aeFrom = nId n\<rparr>)"

text \<open>
  The loop that a refused append starts in a goroutine. The body declares a new \<^verbatim>\<open>preItem\<close> that hides the loop variable: what is
  assigned when an item is accepted is the inner one, and the loop goes on with the item it began with.
\<close>

(* node/node_client.go 112-131 Client.SendAppendEntry *)
partial_function (option) catchUp ::
  "('net, AppendEntryRequest, AppendEntryReply) rpc_call \<Rightarrow> 'db Node \<Rightarrow> WorkNode \<Rightarrow> Item option \<Rightarrow> 'net \<Rightarrow> 'net option" where
  "catchUp call n node preItem net =
     (case preItem of
        None \<Rightarrow> Some net
      | Some item \<Rightarrow>
          (let (net, res) = call (wCfg node) (appendRequest n node item) net
           in case res of
                Inl err \<Rightarrow> Some net
              | Inr reply \<Rightarrow>
                  (let inner = (if arAccept reply then GetNextItem n item else Some (GetPreItem n (Some item)))
                   in catchUp call n node preItem net)))"

text \<open>
  \<^verbatim>\<open>SendAppendEntry\<close> returns the node, the network, the item with which the goroutine for catching up was started, if it was, and the error.
\<close>

(* node/node_client.go 105-109 Client.SendAppendEntry *)
definition recordAppend :: "nat \<Rightarrow> AppendEntryReply \<Rightarrow> 'db Node \<Rightarrow> 'db Node option" where
  "recordAppend t reply n = do {
     node \<leftarrow> go_nth (nOtherNodeList n) (int t);
     let node = node\<lparr>wAcceptIndex := ucast (arAppendIndex reply), wCommitIndex := ucast (arCommitIndex reply)\<rparr>;
     let n = n\<lparr>nOtherNodeList := (nOtherNodeList n)[t := node]\<rparr>;
     let n = CheckAcceptId n;
     Some (CheckCommitId n)
   }"

(* node/node_client.go 87-146 Client.SendAppendEntry *)
definition SendAppendEntry ::
  "('net, AppendEntryRequest, AppendEntryReply) rpc_call \<Rightarrow> 'db Node \<Rightarrow> nat \<Rightarrow> 'net \<Rightarrow>
   ('db Node \<times> 'net \<times> Item option \<times> string option) option" where
  "SendAppendEntry call n t net = do {
     node \<leftarrow> go_nth (nOtherNodeList n) (int t);
     let item = GetTailItem n;
     let preItem = GetPreItem n (Some item);
     let (net, res) = call (wCfg node) (appendRequest n node item) net;
     case res of
       Inl err \<Rightarrow> Some (n, net, None, Some err)
     | Inr reply \<Rightarrow>
         (if arAccept reply then do { n \<leftarrow> recordAppend t reply n; Some (n, net, None, None) }
          else Some (n, net, Some preItem, None))
   }"

(* node/node.go 321-332 Node.AppendEntry *)
fun appendLoop ::
  "(NodeConfig \<Rightarrow> bool) \<Rightarrow> ('net, AppendEntryRequest, AppendEntryReply) rpc_call \<Rightarrow> nat list \<Rightarrow> 'db Node \<Rightarrow> 'net \<Rightarrow> ('db Node \<times> 'net) option" where
  "appendLoop dial call [] n net = Some (n, net)"
| "appendLoop dial call (t # ts) n net = do {
     node \<leftarrow> go_nth (nOtherNodeList n) (int t);
     if dial (wCfg node) then do {
       (n, net, spawned, err) \<leftarrow> SendAppendEntry call n t net;
       appendLoop dial call ts n net
     }
     else appendLoop dial call ts n net
   }"

text \<open>One goroutine per other node: \<open>see\<close> gives the position that the goroutine started for each of them sees.\<close>

(* node/node.go 320-333 Node.AppendEntry *)
definition AppendEntry ::
  "(NodeConfig \<Rightarrow> bool) \<Rightarrow> ('net, AppendEntryRequest, AppendEntryReply) rpc_call \<Rightarrow> (nat \<Rightarrow> nat) \<Rightarrow> 'db Node \<Rightarrow> 'net \<Rightarrow> ('db Node \<times> 'net) option" where
  "AppendEntry dial call see n net = appendLoop dial call (map see [0..<length (nOtherNodeList n)]) n net"

subsection \<open>The main loop\<close>

text \<open>
  The \<^verbatim>\<open>select\<close> of \<^verbatim>\<open>loop\<close>: a case on a channel that was never made is never taken. Both cases only log, and \<^verbatim>\<open>break\<close> leaves the
  \<^verbatim>\<open>select\<close>, not the loop.
\<close>

(* node/node.go 198-224 Node.loop *)
inductive loop_step :: "'db Node \<Rightarrow> 'db Node \<Rightarrow> bool" where
  on_tickC: "nTickC n \<Longrightarrow> loop_step n n"
| on_stop: "nStop n \<Longrightarrow> loop_step n n"

inductive_cases loop_stepE: "loop_step n n'"


text \<open>
  The states of a started node. \<^verbatim>\<open>loop\<close> does not return, so the loop of \<^verbatim>\<open>Start\<close> calls it once.
\<close>

(* node/node.go 191-197 Node.Start *)
inductive Start :: "int \<Rightarrow> 'db Node \<Rightarrow> 'db Node \<Rightarrow> bool" for now n where
  starts: "Start now n (n\<lparr>nHeartBeat := now\<rparr>)"
| loops: "Start now n m \<Longrightarrow> loop_step m m' \<Longrightarrow> Start now n m'"

end
