(* ===== verification/KV_Cluster.thy ===== *)
theory KV_Cluster
  imports KV_Client "HOL-Library.Sublist"
begin

section \<open>The key-value node: properties of the handlers and clients\<close>

text \<open>
  What the handlers and the clients of package \<^verbatim>\<open>node\<close> achieve. Nodes that are created from one configuration form a cluster, a map from addresses to nodes.
  A follower that only hears from one leader holds a prefix of the leader's items, in whatever order and however often the requests arrive. An append may lower the
  term of the node, which then votes again; the loop that should bring a follower up to date does not advance. \<open>KV_Election\<close>, \<open>KV_Log_Matching\<close>,
  \<open>KV_Replication\<close> and \<open>KV_Race\<close> build on this.
\<close>

subsection \<open>Words\<close>

lemma ucast_32_64 [simp]: "ucast (ucast x :: uint64) = (x :: uint32)"
  by (rule bit_word_eqI) (simp add: bit_ucast_iff)

lemma unat_ucast64: "unat (ucast (x :: uint32) :: uint64) = unat x"
  by (simp add: unsigned_ucast_eq take_bit_nat_eq_self unsigned_less [THEN order_less_le_trans])

lemma ucast_64_32:
  assumes "unat (x :: uint64) < 2 ^ 32"
  shows "ucast (ucast x :: uint32) = x" "unat (ucast x :: uint32) = unat x"
proof -
  show "unat (ucast x :: uint32) = unat x"
    using assms by (simp add: unsigned_ucast_eq take_bit_nat_eq_self)
  then have "unat (ucast (ucast x :: uint32) :: uint64) = unat x"
    by (simp add: unat_ucast64)
  then show "ucast (ucast x :: uint32) = x"
    by (simp only: word_unat_eq_iff)
qed

subsection \<open>What the handlers keep\<close>

lemma Election_effect:
  assumes "Election now req n = (n', r)"
  shows "nConfig n' = nConfig n" "nOtherNodeList n' = nOtherNodeList n" "nTerm n \<le> nTerm n'"
    "if erpAccept r then nTerm n < ucast (erqTerm req) \<and> nTerm n' = ucast (erqTerm req) else nTerm n' = nTerm n"
  using assms by (auto simp: Election_def SetState_def Let_def split: if_splits)

lemma Heart_effect:
  assumes "Heart now req n = (n', r)"
  shows "nConfig n' = nConfig n" "nOtherNodeList n' = nOtherNodeList n" "nTerm n \<le> nTerm n'" "nItemList n' = nItemList n"
  using assms by (auto simp: Heart_def SetState_def Let_def split: if_splits)

subsection \<open>Clusters\<close>

text \<open>
  A cluster on the addresses \<open>A\<close>: every node knows the size of the cluster, and the nodes it lists as the others have exactly the other
  addresses, each once.
\<close>

type_synonym 'db cluster = "string \<Rightarrow> 'db Node"

definition other_addresses :: "'db Node \<Rightarrow> string list" where
  "other_addresses n = map (\<lambda>w. Address (wCfg w)) (nOtherNodeList n)"

definition cluster_ok :: "string set \<Rightarrow> 'db cluster \<Rightarrow> bool" where
  "cluster_ok A net \<longleftrightarrow> finite A \<and>
     (\<forall>a\<in>A. length (nConfig (net a)) = card A \<and> distinct (other_addresses (net a)) \<and> set (other_addresses (net a)) = A - {a})"

text \<open>Created from one configuration whose addresses differ, nodes form a cluster.\<close>

lemma CreateNode_items:
  assumes "CreateNode connect cfgs i = Some n"
  shows "nItemList n = [\<lparr>itIndex = 0, itTerm = 0, itLog = ''init''\<rparr>]" "nCommitIndex n = 0" "nConfig n = cfgs"
    "nOtherNodeList n = otherNodes cfgs i" "nTerm n = 0"
  using assms by (auto simp: CreateNode_def bind_Some_iff)

lemma otherNodes_addresses:
  "map (\<lambda>w. Address (wCfg w)) (otherNodes cfgs (int i)) = map (\<lambda>k. map Address cfgs ! k) (filter (\<lambda>k. k \<noteq> i) [0..<length cfgs])"
proof -
  have "enumerate 0 cfgs = map (\<lambda>k. (k, cfgs ! k)) [0..<length cfgs]"
    by (rule nth_equalityI) (simp_all add: nth_enumerate_eq)
  then show ?thesis
    by (auto simp: otherNodes_def filter_map comp_def)
qed

lemma created_cluster:
  assumes "distinct (map Address cfgs)"
    and "\<And>i. i < length cfgs \<Longrightarrow> CreateNode connect cfgs (int i) = Some (net (Address (cfgs ! i)))"
  shows "cluster_ok (set (map Address cfgs)) net"
  unfolding cluster_ok_def
proof (intro conjI ballI)
  fix a
  assume "a \<in> set (map Address cfgs)"
  then obtain i where i: "i < length cfgs" "a = map Address cfgs ! i"
    by (auto simp: in_set_conv_nth)
  note n = CreateNode_items(3,4) [OF assms(2) [OF i(1)]]
  show "length (nConfig (net a)) = card (set (map Address cfgs))"
    using n(1) i distinct_card [OF assms(1)] by simp
  have others: "other_addresses (net a) = map (\<lambda>k. map Address cfgs ! k) (filter (\<lambda>k. k \<noteq> i) [0..<length cfgs])"
    using n(2) i by (simp add: other_addresses_def otherNodes_addresses)
  have inj: "inj_on (\<lambda>k. map Address cfgs ! k) {..<length cfgs}"
    using assms(1) inj_on_nth [of "map Address cfgs"] by auto
  show "distinct (other_addresses (net a))"
    unfolding others by (simp add: distinct_map) (rule inj_on_subset [OF inj], auto)
  have "set (other_addresses (net a)) = (\<lambda>k. map Address cfgs ! k) ` ({..<length cfgs} - {i})"
    unfolding others by auto
  also have "\<dots> = (\<lambda>k. map Address cfgs ! k) ` {..<length cfgs} - {a}"
    using i inj_on_image_set_diff [OF inj, of "{..<length cfgs}" "{i}"] by auto
  also have "(\<lambda>k. map Address cfgs ! k) ` {..<length cfgs} = set (map Address cfgs)"
    using nth_image [of "length cfgs" "map Address cfgs"] by (simp add: lessThan_atLeast0 del: set_map)
  finally show "set (other_addresses (net a)) = set (map Address cfgs) - {a}" .
qed simp

text \<open>Samples: two nodes of one configuration.\<close>

definition cfg_sample :: "int \<Rightarrow> NodeConfig" where
  "cfg_sample p = \<lparr>ncHost = ''h'', ncPort = p, ncLogPath = '''', ncRedisCfg = \<lparr>rgAddress = '''', rgPassword = '''', rgDB = 0\<rparr>\<rparr>"

definition node_of :: "int \<Rightarrow> unit Node" where
  "node_of i = the (CreateNode (\<lambda>_. ()) [cfg_sample 1, cfg_sample 2] i)"

definition cluster_sample :: "unit cluster" where
  "cluster_sample a = (if a = ''h:1'' then node_of 0 else node_of 1)"

lemma sample_addresses [simp]: "Address (cfg_sample 1) = ''h:1''" "Address (cfg_sample 2) = ''h:2''"
  by code_simp+

lemma node_of_parts:
  assumes "i = 0 \<or> i = 1"
  shows "nTerm (node_of i) = 0" "nConfig (node_of i) = [cfg_sample 1, cfg_sample 2]" "nAcceptIndex (node_of i) = 0"
    "nOtherNodeList (node_of i) = [\<lparr>wId = i, wCfg = cfg_sample (2 - i), wTerm = 0, wCommitIndex = 0, wAcceptIndex = 0\<rparr>]"
    "nItemList (node_of i) = [\<lparr>itIndex = 0, itTerm = 0, itLog = ''init''\<rparr>]" "nCommitIndex (node_of i) = 0" "nRdb (node_of i) = ()"
  using assms by (auto simp: node_of_def CreateNode_def go_nth_def otherNodes_def)

lemma cluster_sample_ok: "cluster_ok {''h:1'', ''h:2''} cluster_sample"
  by (auto simp: cluster_ok_def other_addresses_def cluster_sample_def node_of_parts)

subsection \<open>A follower holds a prefix of the leader's items\<close>

text \<open>The items are numbered from 0 on, and index and term fit the fields of a request.\<close>

definition items_ok :: "Item list \<Rightarrow> bool" where
  "items_ok xs \<longleftrightarrow> xs \<noteq> [] \<and> length xs < 2 ^ 32 \<and> (\<forall>k<length xs. unat (itIndex (xs ! k)) = k \<and> unat (itTerm (xs ! k)) < 2 ^ 32)"

lemma items_okD:
  assumes "items_ok xs" "k < length xs"
  shows "unat (itIndex (xs ! k)) = k" "unat (itTerm (xs ! k)) < 2 ^ 32" "k < 2 ^ 32"
  using assms by (auto simp: items_ok_def)

lemma preItemLoop_nth:
  assumes "k < length xs" "itIndex (xs ! k) = i" "\<forall>j<k. itIndex (xs ! j) \<noteq> i"
  shows "preItemLoop i z xs = (z # xs) ! k"
  using assms
proof (induction xs arbitrary: k z)
  case (Cons x xs)
  show ?case
  proof (cases k)
    case 0
    then show ?thesis using Cons.prems by simp
  next
    case (Suc m)
    have "itIndex x \<noteq> i" using Cons.prems(3) Suc by force
    moreover have "preItemLoop i x xs = (x # xs) ! m"
      using Cons.prems Suc by (intro Cons.IH) auto
    ultimately show ?thesis using Suc by simp
  qed
qed simp

lemma GetPreItem_nth:
  assumes "items_ok (nItemList n)" "0 < k" "k < length (nItemList n)"
  shows "GetPreItem n (Some (nItemList n ! k)) = nItemList n ! (k - 1)"
proof -
  have "itIndex (nItemList n ! j) \<noteq> itIndex (nItemList n ! k)" if "j < k" for j
    using that assms items_okD(1) [OF assms(1)] by (metis less_trans nat_less_le)
  then have "preItemLoop (itIndex (nItemList n ! k)) z (nItemList n) = (z # nItemList n) ! k" for z
    using assms(3) by (intro preItemLoop_nth) auto
  then show ?thesis
    using assms(2) by (simp add: GetPreItem_def)
qed

lemma GetTailItem_last: "nItemList n \<noteq> [] \<Longrightarrow> GetTailItem n = last (nItemList n)"
  by (simp add: GetTailItem_def last_conv_nth)

lemma appendItem_effect:
  assumes "appendItem hset json entry n = Some (n', accept, err)"
  shows "nCommitIndex n' = nCommitIndex n \<and>
    (if accept then \<exists>e. entry = Some e \<and> nTerm n' = ucast (reTerm e) \<and>
       nItemList n' = nItemList n @ [\<lparr>itIndex = ucast (reIndex e), itTerm = ucast (reTerm e), itLog = reValue e\<rparr>]
     else nItemList n' = nItemList n \<and> nTerm n' = nTerm n)"
  using assms by (cases entry) (auto simp: appendItem_def Let_def split: prod.splits if_splits)

text \<open>What \<^verbatim>\<open>Append\<close> does: at most one item is added, the one of the request, and only behind the item it names.\<close>

lemma Append_effect:
  assumes "Append hset json req n = Some (n', r, err)"
  shows "(nCommitIndex n' = nCommitIndex n \<or> nCommitIndex n' = nCommitIndex n + 1 \<and> nCommitIndex n < itIndex (GetTailItem n)) \<and>
    (if arAccept r then \<exists>e. aeEntry req = Some e \<and> nTerm n' = ucast (reTerm e) \<and> itTerm (GetTailItem n) = ucast (aePreTerm req) \<and>
       ucast (itIndex (GetTailItem n) + 1) = reIndex e \<and>
       nItemList n' = nItemList n @ [\<lparr>itIndex = ucast (reIndex e), itTerm = ucast (reTerm e), itLog = reValue e\<rparr>]
     else nItemList n' = nItemList n \<and> nTerm n' = nTerm n)"
proof -
  define b where "b \<longleftrightarrow> itTerm (GetTailItem n) = ucast (aePreTerm req) \<and> itIndex (GetTailItem n) = ucast (aePreIndex req) \<and>
    ucast (itIndex (GetTailItem n) + 1) = RpcEntry_get reIndex 0 (aeEntry req)"
  obtain n1 acc err1 where 1: "(if b then appendItem hset json (aeEntry req) n else Some (n, False, None)) = Some (n1, acc, err1)"
    using assms by (auto simp: Append_def b_def Let_def bind_Some_iff)
  have c: "arAccept r = acc" "nItemList n' = nItemList n1" "nTerm n' = nTerm n1"
    "nCommitIndex n' = nCommitIndex n1 \<or> nCommitIndex n' = nCommitIndex n1 + 1 \<and> nCommitIndex n1 < itIndex (GetTailItem n)"
    using assms 1 by (auto simp: Append_def SetState_def Let_def simp flip: b_def split: if_splits)
  show ?thesis
  proof (cases b)
    case True
    then have "appendItem hset json (aeEntry req) n = Some (n1, acc, err1)" using 1 by simp
    from appendItem_effect [OF this] show ?thesis
      using c True by (auto simp: b_def RpcEntry_get_def split: if_splits)
  next
    case False
    then show ?thesis using 1 c by auto
  qed
qed

lemma Append_items:
  assumes "Append hset json req n = Some (n', r, err)" "items_ok (nItemList n)" "length (nItemList n) + 1 < 2 ^ 32"
  shows "nItemList n' = nItemList n \<or>
    (\<exists>e. aeEntry req = Some e \<and> unat (reIndex e) = length (nItemList n) \<and>
      nItemList n' = nItemList n @ [\<lparr>itIndex = ucast (reIndex e), itTerm = ucast (reTerm e), itLog = reValue e\<rparr>])"
proof -
  define m where "m = length (nItemList n)"
  have m: "0 < m" "unat (itIndex (last (nItemList n))) = m - 1"
    using assms(2) items_okD(1) [OF assms(2), of "m - 1"] by (auto simp: items_ok_def m_def last_conv_nth)
  then have "unat (itIndex (last (nItemList n)) + 1) = m"
    using assms(3) unat_add_of_nat64 [of "itIndex (last (nItemList n))" 1] by (simp add: m_def)
  then have u: "unat (ucast (itIndex (last (nItemList n)) + 1) :: uint32) = m"
    using ucast_64_32(2) [of "itIndex (last (nItemList n)) + 1"] assms(3) by (simp add: m_def)
  have tail: "GetTailItem n = last (nItemList n)"
    using assms(2) by (simp add: GetTailItem_last items_ok_def)
  show ?thesis
    using Append_effect [OF assms(1)] u unfolding tail m_def by (auto split: if_splits)
qed

lemma items_ok_snoc:
  assumes "items_ok xs" "length xs + 1 < 2 ^ 32" "unat i = length xs" "unat t < 2 ^ 32"
  shows "items_ok (xs @ [\<lparr>itIndex = i, itTerm = t, itLog = l\<rparr>])"
  using assms by (auto simp: items_ok_def nth_append less_Suc_eq)

lemma Append_items_ok:
  assumes "Append hset json req n = Some (n', r, err)" "items_ok (nItemList n)" "length (nItemList n) + 1 < 2 ^ 32"
  shows "items_ok (nItemList n')" "prefix (nItemList n) (nItemList n')"
proof -
  have u: "unat (ucast x :: uint64) < 2 ^ 32" for x :: uint32
    using unsigned_less [of x] by (simp add: unat_ucast64)
  from Append_items [OF assms] show "items_ok (nItemList n')"
    using assms(2,3) u by (auto intro!: items_ok_snoc simp: unat_ucast64)
  from Append_items [OF assms] show "prefix (nItemList n) (nItemList n')"
    by auto
qed

text \<open>
  A leader and a follower, with the requests the leader has sent. The leader appends a client's entry to its own items,
  sends any of its items, and takes an acknowledgement into account; the follower handles a request that was sent, once
  or again, early or late, or a heartbeat. The leader stops before its items outgrow the 32 bits of an index.
\<close>

inductive repl_step ::
  "'db redis_hset \<Rightarrow> (Item \<Rightarrow> string) \<Rightarrow> 'db Node \<times> 'db Node \<times> AppendEntryRequest set \<Rightarrow> 'db Node \<times> 'db Node \<times> AppendEntryRequest set \<Rightarrow> bool"
  for hset json where
  client: "aeFrom req = nId l \<Longrightarrow> length (nItemList l) + 2 < 2 ^ 32 \<Longrightarrow> Append hset json req l = Some (l', r, err) \<Longrightarrow>
    repl_step hset json (l, f, reqs) (l', f, reqs)"
| sent: "item \<in> set (nItemList l) \<Longrightarrow> repl_step hset json (l, f, reqs) (l, f, insert (appendRequest l w item) reqs)"
| acked: "repl_step hset json (l, f, reqs) (CheckCommitId (CheckAcceptId (l\<lparr>nOtherNodeList := ws\<rparr>)), f, reqs)"
| delivered: "req \<in> reqs \<Longrightarrow> Append hset json req f = Some (f', r, err) \<Longrightarrow> repl_step hset json (l, f, reqs) (l, f', reqs)"
| beat: "Heart now hreq f = (f', r) \<Longrightarrow> repl_step hset json (l, f, reqs) (l, f', reqs)"

definition entry_of :: "Item \<Rightarrow> RpcEntry" where
  "entry_of item = \<lparr>reTerm = ucast (itTerm item), reIndex = ucast (itIndex item), reValue = itLog item\<rparr>"

definition repl_ok :: "'db Node \<times> 'db Node \<times> AppendEntryRequest set \<Rightarrow> bool" where
  "repl_ok s = (case s of (l, f, reqs) \<Rightarrow>
     items_ok (nItemList l) \<and> items_ok (nItemList f) \<and> length (nItemList l) + 1 < 2 ^ 32 \<and> prefix (nItemList f) (nItemList l) \<and>
     nCommitIndex f \<le> itIndex (last (nItemList f)) \<and> (\<forall>req\<in>reqs. \<exists>item\<in>set (nItemList l). aeEntry req = Some (entry_of item)))"

lemma commit_step:
  assumes "c' = c \<or> c' = c + 1 \<and> c < i" "c \<le> (i :: uint64)"
  shows "c' \<le> i"
  using assms by (metis inc_le)

lemma last_items_mono:
  assumes "items_ok xs" "items_ok ys" "prefix xs ys"
  shows "itIndex (last xs) \<le> itIndex (last ys)"
proof -
  have "unat (itIndex (last zs)) = length zs - 1" if "items_ok zs" for zs
    using that items_okD(1) [OF that, of "length zs - 1"] by (auto simp: items_ok_def last_conv_nth)
  then show ?thesis
    using assms by (simp add: word_le_nat_alt prefix_length_le diff_le_mono)
qed

lemma delivered_prefix:
  assumes "items_ok xs" "prefix ys xs" "item \<in> set xs" "unat (reIndex (entry_of item)) = length ys"
  shows "prefix (ys @ [\<lparr>itIndex = ucast (reIndex (entry_of item)), itTerm = ucast (reTerm (entry_of item)), itLog = reValue (entry_of item)\<rparr>]) xs"
proof -
  obtain k where k: "k < length xs" "item = xs ! k" using assms(3) by (metis in_set_conv_nth)
  note i = items_okD [OF assms(1) k(1)]
  have "length ys = k"
    using assms(4) i ucast_64_32(2) [of "itIndex item"] k(2) by (simp add: entry_of_def)
  moreover have "\<lparr>itIndex = ucast (reIndex (entry_of item)), itTerm = ucast (reTerm (entry_of item)), itLog = reValue (entry_of item)\<rparr> = item"
    using i k(2) ucast_64_32(1) [of "itIndex item"] ucast_64_32(1) [of "itTerm item"] by (simp add: entry_of_def)
  moreover obtain zs where "xs = ys @ zs" using assms(2) by (auto simp: prefix_def)
  ultimately show ?thesis
    using k by (cases zs) auto
qed

lemma delivered_keeps:
  assumes "repl_ok (l, f, reqs)" "req \<in> reqs" "Append hset json req f = Some (f', r, err)"
  shows "repl_ok (l, f', reqs)"
proof -
  have inv: "items_ok (nItemList l)" "items_ok (nItemList f)" "length (nItemList l) + 1 < 2 ^ 32" "prefix (nItemList f) (nItemList l)"
    "nCommitIndex f \<le> itIndex (last (nItemList f))" "\<forall>req\<in>reqs. \<exists>item\<in>set (nItemList l). aeEntry req = Some (entry_of item)"
    using assms(1) by (auto simp: repl_ok_def)
  have len: "length (nItemList f) + 1 < 2 ^ 32" using inv(3,4) prefix_length_le by fastforce
  note a = Append_items_ok [OF assms(3) inv(2) len]
  obtain item where item: "item \<in> set (nItemList l)" "aeEntry req = Some (entry_of item)" using inv(6) assms(2) by blast
  have "prefix (nItemList f') (nItemList l)"
    using Append_items [OF assms(3) inv(2) len] inv(4) item delivered_prefix [OF inv(1,4) item(1)] by auto
  moreover have "GetTailItem f = last (nItemList f)" using inv(2) by (simp add: GetTailItem_last items_ok_def)
  then have "nCommitIndex f' \<le> itIndex (last (nItemList f))"
    using Append_effect [OF assms(3)] by (intro commit_step [OF _ inv(5)]) simp
  then have "nCommitIndex f' \<le> itIndex (last (nItemList f'))"
    using last_items_mono [OF inv(2) a] by (rule order_trans)
  ultimately show ?thesis
    using inv a(1) by (simp add: repl_ok_def)
qed

lemma beat_keeps:
  assumes "repl_ok (l, f, reqs)" "Heart now hreq f = (f', r)"
  shows "repl_ok (l, f', reqs)"
proof -
  have inv: "items_ok (nItemList f)" "nCommitIndex f \<le> itIndex (last (nItemList f))"
    using assms(1) by (auto simp: repl_ok_def)
  have "nCommitIndex f' = nCommitIndex f \<or> nCommitIndex f' = nCommitIndex f + 1 \<and> nCommitIndex f < itIndex (last (nItemList f))"
    using assms(2) inv(1) by (auto simp: Heart_def SetState_def GetTailItem_def items_ok_def last_conv_nth Let_def split: if_splits)
  then show ?thesis
    using assms(1) Heart_effect(4) [OF assms(2)] commit_step [OF _ inv(2)] by (simp add: repl_ok_def)
qed

lemma repl_step_keeps:
  assumes "repl_step hset json s s'" "repl_ok s"
  shows "repl_ok s'"
  using assms
proof cases
  case (client req l l' r err f reqs)
  then have l: "items_ok (nItemList l)" "length (nItemList l) + 1 < 2 ^ 32" using assms(2) by (auto simp: repl_ok_def)
  note a = Append_items_ok [OF client(5) l]
  have "length (nItemList l') \<le> length (nItemList l) + 1"
    using Append_items [OF client(5) l] by auto
  then show ?thesis
    using client(1,2,4) assms(2) a set_mono_prefix [OF a(2)] prefix_order.trans [OF _ a(2)] by (fastforce simp: repl_ok_def)
next
  case (sent item l f reqs w)
  then show ?thesis
    using assms(2) by (auto simp: repl_ok_def appendRequest_def entry_of_def Let_def)
next
  case (acked l f reqs ws)
  have "nItemList (CheckCommitId (CheckAcceptId (l\<lparr>nOtherNodeList := ws\<rparr>))) = nItemList l"
    by (simp add: CheckCommitId_def CheckAcceptId_def Let_def)
  then show ?thesis
    using acked assms(2) by (simp add: repl_ok_def)
next
  case (delivered req reqs f f' r err l)
  then show ?thesis
    using assms(2) delivered_keeps by blast
next
  case (beat now hreq f f' r l reqs)
  then show ?thesis
    using assms(2) beat_keeps by blast
qed

interpretation replication: step_invariant "repl_step hset json" repl_ok for hset json
  by unfold_locales (rule repl_step_keeps)

text \<open>
  Replication from one leader. From two created nodes on, whatever the clients of the leader append, and however the requests of the leader are
  delayed, repeated, reordered or lost and mixed with heartbeats, the follower's items are a prefix of the leader's, both
  are numbered without gaps, and the follower's commit index points at one of its items. The follower hears from this leader only, and handles one request at a time.
\<close>

theorem kv_replication_prefix:
  assumes "CreateNode connect cfgs i = Some l0" "CreateNode connect cfgs j = Some f0"
    and "(repl_step hset json)\<^sup>*\<^sup>* (l0, f0, {}) (l, f, reqs)"
  shows "prefix (nItemList f) (nItemList l) \<and> unat (nCommitIndex f) < length (nItemList f) \<and>
    (\<forall>k<length (nItemList l). unat (itIndex (nItemList l ! k)) = k) \<and> (\<forall>k<length (nItemList f). unat (itIndex (nItemList f ! k)) = k)"
proof -
  have "repl_ok (l0, f0, {})"
    using CreateNode_items [OF assms(1)] CreateNode_items [OF assms(2)] by (simp add: repl_ok_def items_ok_def)
  then have "repl_ok (l, f, reqs)"
    by (rule replication.run_keeps [OF assms(3)])
  then have ok: "items_ok (nItemList l)" "items_ok (nItemList f)" "prefix (nItemList f) (nItemList l)" "nCommitIndex f \<le> itIndex (last (nItemList f))"
    by (auto simp: repl_ok_def)
  have "unat (itIndex (last (nItemList f))) < length (nItemList f)"
    using ok(2) items_okD(1) [OF ok(2), of "length (nItemList f) - 1"] by (auto simp: items_ok_def last_conv_nth)
  then show ?thesis
    using ok items_okD(1) by (auto simp: word_le_nat_alt)
qed

definition hset_sample :: "unit redis_hset" where
  "hset_sample k field v db = (db, None)"

theorem kv_replication_prefix_witness:
  "\<exists>l f reqs. (repl_step hset_sample (\<lambda>_. ''''))\<^sup>*\<^sup>* (node_of 0, node_of 1, {}) (l, f, reqs) \<and> length (nItemList l) = 2 \<and>
    prefix (nItemList f) (nItemList l)"
proof -
  define req where "req = \<lparr>aeEntry = Some \<lparr>reTerm = 1, reIndex = 1, reValue = ''x''\<rparr>, aePreTerm = 0, aePreIndex = 0, aeCommitIndex = 0, aeFrom = nId (node_of 0)\<rparr>"
  have "\<exists>l r. Append hset_sample (\<lambda>_. '''') req (node_of 0) = Some (l, r, None) \<and> length (nItemList l) = 2"
    by (simp add: Append_def req_def appendItem_def GetTailItem_def RpcEntry_get_def node_of_parts hset_sample_def Let_def)
  then obtain l r where l: "Append hset_sample (\<lambda>_. '''') req (node_of 0) = Some (l, r, None)" "length (nItemList l) = 2" by blast
  have step: "repl_step hset_sample (\<lambda>_. '''') (node_of 0, node_of 1, {}) (l, node_of 1, {})"
    by (rule client [OF _ _ l(1)]) (simp_all add: req_def node_of_parts)
  have "CreateNode (\<lambda>_. ()) [cfg_sample 1, cfg_sample 2] 0 = Some (node_of 0)" "CreateNode (\<lambda>_. ()) [cfg_sample 1, cfg_sample 2] 1 = Some (node_of 1)"
    by (simp_all add: node_of_def CreateNode_def go_nth_def)
  moreover have steps: "(repl_step hset_sample (\<lambda>_. ''''))\<^sup>*\<^sup>* (node_of 0, node_of 1, {}) (l, node_of 1, {})"
    using step by blast
  ultimately have "prefix (nItemList (node_of 1)) (nItemList l)"
    using kv_replication_prefix by blast
  with steps l(2) show ?thesis by blast
qed

definition node3_of :: "int \<Rightarrow> unit Node" where
  "node3_of i = the (CreateNode (\<lambda>_. ()) [cfg_sample 1, cfg_sample 2, cfg_sample 3] i)"

lemma node3_of_parts:
  assumes "i = 0 \<or> i = 1 \<or> i = 2"
  shows "nTerm (node3_of i) = 0" "length (nConfig (node3_of i)) = 3" "nOtherNodeList (node3_of i) \<noteq> []"
    "nAcceptIndex (node3_of i) = 0" "itIndex (GetTailItem (node3_of i)) = 0"
  using assms by (auto simp: node3_of_def CreateNode_def go_nth_def otherNodes_def GetTailItem_def)

subsection \<open>What breaks\<close>

text \<open>
  C39: an append can take a vote back. A node that has voted or led in a term accepts an entry of an earlier term as long as it
  continues its items, and takes over the entry's term; it then accepts another candidate of the term it has already voted in.
\<close>

theorem kv_append_forgets_vote:
  assumes "items_ok (nItemList n)" "length (nItemList n) + 1 < 2 ^ 32" "unat (nTerm n) < 2 ^ 32"
    and "last (nItemList n) = item" "ucast (reTerm e) < nTerm n" "reIndex e = ucast (itIndex item + 1)"
    and "snd (hset (GetRedisKey n) (itoa (uint (reIndex e))) (json \<lparr>itIndex = ucast (reIndex e), itTerm = ucast (reTerm e), itLog = reValue e\<rparr>) (nRdb n)) = None"
  shows "\<exists>n' r m rep. Append hset json \<lparr>aeEntry = Some e, aePreTerm = ucast (itTerm item), aePreIndex = ucast (itIndex item), aeCommitIndex = 0, aeFrom = from\<rparr> n =
      Some (n', r, None) \<and> arAccept r \<and> nTerm n' = ucast (reTerm e) \<and>
    Election now \<lparr>erqNodeId = other, erqTerm = ucast (nTerm n), erqIndex = reIndex e\<rparr> n' = (m, rep) \<and> erpAccept rep \<and> nTerm m = nTerm n"
proof -
  define k where "k = length (nItemList n) - 1"
  define req where "req = \<lparr>aeEntry = Some e, aePreTerm = ucast (itTerm item), aePreIndex = ucast (itIndex item), aeCommitIndex = 0, aeFrom = from\<rparr>"
  have k: "k < length (nItemList n)" "item = nItemList n ! k"
    using assms(1,4) by (auto simp: items_ok_def k_def last_conv_nth)
  have small: "unat (itIndex item) < 2 ^ 32" "unat (itTerm item) < 2 ^ 32"
    using items_okD [OF assms(1) k(1)] k(2) by simp_all
  have tail: "GetTailItem n = item" using assms(1,4) by (simp add: GetTailItem_last items_ok_def)
  obtain n' r where a: "Append hset json req n = Some (n', r, None)" "arAccept r"
    using assms(6,7) small tail
    by (cases "hset (GetRedisKey n) (itoa (uint (reIndex e))) (json \<lparr>itIndex = ucast (reIndex e), itTerm = ucast (reTerm e), itLog = reValue e\<rparr>) (nRdb n)")
      (simp add: Append_def appendItem_def req_def RpcEntry_get_def ucast_64_32(1) SetState_def Let_def)
  have n': "nTerm n' = ucast (reTerm e)" "last (nItemList n') = \<lparr>itIndex = ucast (reIndex e), itTerm = ucast (reTerm e), itLog = reValue e\<rparr>" "nItemList n' \<noteq> []"
    using Append_effect [OF a(1)] a(2) by (auto simp: req_def)
  have "ucast (ucast (nTerm n) :: uint32) = nTerm n" using ucast_64_32(1) assms(3) by blast
  then have "\<exists>m rep. Election now \<lparr>erqNodeId = other, erqTerm = ucast (nTerm n), erqIndex = reIndex e\<rparr> n' = (m, rep) \<and> erpAccept rep \<and> nTerm m = nTerm n"
    using n' assms(5) by (simp add: Election_def GetTailItem_def last_conv_nth SetState_def Let_def)
  then show ?thesis using a n'(1) unfolding req_def by blast
qed

theorem kv_append_forgets_vote_witness:
  "\<exists>n' r m rep. Append hset_sample (\<lambda>_. '''')
      \<lparr>aeEntry = Some \<lparr>reTerm = 1, reIndex = 1, reValue = ''x''\<rparr>, aePreTerm = 0, aePreIndex = 0, aeCommitIndex = 0, aeFrom = ''0''\<rparr>
      ((node_of 1)\<lparr>nTerm := 5\<rparr>) = Some (n', r, None) \<and> nTerm n' = 1 \<and>
    Election 0 \<lparr>erqNodeId = ''2'', erqTerm = 5, erqIndex = 1\<rparr> n' = (m, rep) \<and> erpAccept rep \<and> nTerm m = 5"
  using kv_append_forgets_vote [of "(node_of 1)\<lparr>nTerm := 5\<rparr>" "\<lparr>itIndex = 0, itTerm = 0, itLog = ''init''\<rparr>" "\<lparr>reTerm = 1, reIndex = 1, reValue = ''x''\<rparr>"
      hset_sample "\<lambda>_. ''''" "''0''" 0 "''2''"]
  by (auto simp: node_of_parts items_ok_def hset_sample_def)

text \<open>The loop that brings a follower up to date.\<close>

definition catchUp_net :: "('net, AppendEntryRequest, AppendEntryReply) rpc_call \<Rightarrow> 'db Node \<Rightarrow> WorkNode \<Rightarrow> Item \<Rightarrow> nat \<Rightarrow> 'net \<Rightarrow> 'net" where
  "catchUp_net call n node item k net = ((\<lambda>net. fst (call (wCfg node) (appendRequest n node item) net)) ^^ k) net"

lemma catchUp_step:
  "catchUp call n node (Some item) net =
    (case call (wCfg node) (appendRequest n node item) net of
       (net', Inl err) \<Rightarrow> Some net' | (net', Inr reply) \<Rightarrow> catchUp call n node (Some item) net')"
  by (subst catchUp.simps) (simp add: Let_def split: prod.splits sum.splits)

lemma catchUp_fails:
  assumes "isl (snd (call (wCfg node) (appendRequest n node item) (catchUp_net call n node item k net)))"
    "\<forall>i<k. \<not> isl (snd (call (wCfg node) (appendRequest n node item) (catchUp_net call n node item i net)))"
  shows "catchUp call n node (Some item) net = Some (catchUp_net call n node item (Suc k) net)"
  using assms
proof (induction k arbitrary: net)
  case 0
  then show ?case
    by (subst catchUp_step) (auto simp: catchUp_net_def isl_def split: prod.splits sum.splits)
next
  case (Suc k)
  obtain net' reply where c: "call (wCfg node) (appendRequest n node item) net = (net', Inr reply)"
    using Suc.prems(2) by (cases "call (wCfg node) (appendRequest n node item) net"; cases "snd (call (wCfg node) (appendRequest n node item) net)")
      (force simp: catchUp_net_def)+
  have shift: "catchUp_net call n node item (Suc i) net = catchUp_net call n node item i net'" for i
    using c by (simp add: catchUp_net_def funpow_Suc_right del: funpow.simps)
  have "catchUp call n node (Some item) net' = Some (catchUp_net call n node item (Suc k) net')"
    using Suc.prems by (intro Suc.IH) (auto simp flip: shift)
  then show ?case
    by (subst catchUp_step) (simp add: c shift)
qed

lemma catchUp_returns:
  assumes "catchUp call n node (Some item) net = Some r"
  shows "\<exists>k. isl (snd (call (wCfg node) (appendRequest n node item) (catchUp_net call n node item k net)))"
proof -
  define P where "P = (\<lambda>(c :: ('a, AppendEntryRequest, AppendEntryReply) rpc_call) (m :: 'b Node) w p net (r :: 'a). \<forall>it. p = Some it \<longrightarrow>
    (\<exists>k. isl (snd (c (wCfg w) (appendRequest m w it) (catchUp_net c m w it k net)))))"
  have "P call n node (Some item) net r"
  proof (rule catchUp.raw_induct [OF _ assms, of P])
    fix f :: "('a, AppendEntryRequest, AppendEntryReply) rpc_call \<Rightarrow> 'b Node \<Rightarrow> WorkNode \<Rightarrow> Item option \<Rightarrow> 'a \<Rightarrow> 'a option" and c m w p net y
    assume ih: "\<And>c m w p net y. f c m w p net = Some y \<Longrightarrow> P c m w p net y"
      and body: "(case p of None \<Rightarrow> Some net
        | Some item \<Rightarrow> let (net, res) = c (wCfg w) (appendRequest m w item) net
            in case res of Inl err \<Rightarrow> Some net
               | Inr reply \<Rightarrow> let inner = if arAccept reply then GetNextItem m item else Some (GetPreItem m (Some item)) in f c m w p net) = Some y"
    show "P c m w p net y"
      unfolding P_def
    proof (intro allI impI)
      fix it assume p: "p = Some it"
      obtain net' res where r: "c (wCfg w) (appendRequest m w it) net = (net', res)" by force
      show "\<exists>k. isl (snd (c (wCfg w) (appendRequest m w it) (catchUp_net c m w it k net)))"
      proof (cases res)
        case (Inl err)
        then show ?thesis using r by (intro exI [of _ 0]) (simp add: catchUp_net_def)
      next
        case (Inr reply)
        then have "f c m w p net' = Some y" using body p r by (simp add: Let_def)
        from ih [OF this] obtain k where "isl (snd (c (wCfg w) (appendRequest m w it) (catchUp_net c m w it k net')))"
          unfolding P_def using p by blast
        moreover have "catchUp_net c m w it k net' = catchUp_net c m w it (Suc k) net"
          using r by (simp add: catchUp_net_def funpow_Suc_right del: funpow.simps)
        ultimately show ?thesis by metis
      qed
    qed
  qed
  then show ?thesis by (simp add: P_def)
qed

text \<open>
  The loop that should bring a follower up to date sends one and the same request, the one for the item it began with, until a
  call fails: it returns exactly when some call fails, after the first such call, and runs forever when none does, whether
  the follower accepts the item or not.
\<close>

theorem kv_catchUp_repeats:
  "catchUp call n node (Some item) net =
    (if \<exists>k. isl (snd (call (wCfg node) (appendRequest n node item) (catchUp_net call n node item k net)))
     then Some (catchUp_net call n node item
       (Suc (LEAST k. isl (snd (call (wCfg node) (appendRequest n node item) (catchUp_net call n node item k net))))) net)
     else None)"
proof (cases "\<exists>k. isl (snd (call (wCfg node) (appendRequest n node item) (catchUp_net call n node item k net)))")
  case True
  then show ?thesis
    using LeastI_ex [OF True] not_less_Least by (subst catchUp_fails) auto
next
  case False
  then show ?thesis
    using catchUp_returns [of call n node item net] by (cases "catchUp call n node (Some item) net") auto
qed

subsection \<open>Commitment on the leader\<close>

lemma CheckCommitId_effect:
  "CheckCommitId n = n\<lparr>nCommitIndex := (if 2 * length (filter (\<lambda>w. nCommitIndex n < wCommitIndex w) (nOtherNodeList n)) > length (nOtherNodeList n) + 1
     then nCommitIndex n + 1 else nCommitIndex n)\<rparr>"
  by (simp add: CheckCommitId_def Let_def mult.commute)

lemma CheckAcceptId_effect:
  "CheckAcceptId n = n\<lparr>nAcceptIndex := (if 2 * length (filter (\<lambda>w. nAcceptIndex n < wAcceptIndex w) (nOtherNodeList n)) > length (nOtherNodeList n) + 1
     then nAcceptIndex n + 1 else nAcceptIndex n)\<rparr>"
  by (simp add: CheckAcceptId_def Let_def mult.commute)

text \<open>
  The leader's commit rule. When a follower accepts the leader's last item, its acknowledged indexes are recorded, and then the
  leader's accept index and commit index each go up by one exactly when more than half of the cluster has acknowledged
  more than it; nothing else of the leader changes.
\<close>

theorem kv_SendAppendEntry_commits:
  assumes "t < length (nOtherNodeList n)" "w = nOtherNodeList n ! t"
    and "call (wCfg w) (appendRequest n w (GetTailItem n)) net = (net', Inr r)" "arAccept r"
    and "ws = (nOtherNodeList n)[t := w\<lparr>wAcceptIndex := ucast (arAppendIndex r), wCommitIndex := ucast (arCommitIndex r)\<rparr>]"
  shows "SendAppendEntry call n t net = Some (n\<lparr>nOtherNodeList := ws,
      nAcceptIndex := (if 2 * length (filter (\<lambda>w. nAcceptIndex n < wAcceptIndex w) ws) > length ws + 1 then nAcceptIndex n + 1 else nAcceptIndex n),
      nCommitIndex := (if 2 * length (filter (\<lambda>w. nCommitIndex n < wCommitIndex w) ws) > length ws + 1 then nCommitIndex n + 1 else nCommitIndex n)\<rparr>,
    net', None, None)"
  using assms by (simp add: SendAppendEntry_def recordAppend_def go_nth_def CheckCommitId_effect CheckAcceptId_effect)

theorem kv_SendAppendEntry_commits_witness:
  "SendAppendEntry (\<lambda>conn req net. (net, Inr \<lparr>arAccept = True, arAppendIndex = 1, arCommitIndex = 1\<rparr>)) (node_of 0) 0 () =
    Some ((node_of 0)\<lparr>nOtherNodeList := [\<lparr>wId = 0, wCfg = cfg_sample 2, wTerm = 0, wCommitIndex = 1, wAcceptIndex = 1\<rparr>]\<rparr>, (), None, None)"
  using kv_SendAppendEntry_commits [of 0 "node_of 0" "nOtherNodeList (node_of 0) ! 0"
      "\<lambda>conn req net. (net, Inr \<lparr>arAccept = True, arAppendIndex = 1, arCommitIndex = 1\<rparr>)" "()" "()"
      "\<lparr>arAccept = True, arAppendIndex = 1, arCommitIndex = 1\<rparr>" "[\<lparr>wId = 0, wCfg = cfg_sample 2, wTerm = 0, wCommitIndex = 1, wAcceptIndex = 1\<rparr>]"]
  by (simp add: node_of_parts)

text \<open>A created node that is started only sets its heartbeat time, and then its loop has no step: both channels of its \<^verbatim>\<open>select\<close> are nil. No created node ever holds an election.\<close>

lemma started_unchanged: "Start now n m \<Longrightarrow> m = n\<lparr>nHeartBeat := now\<rparr>"
  by (induction rule: Start.induct) (auto elim: loop_stepE)

lemma created_node_idle:
  assumes "CreateNode connect cfgs i = Some n" and "Start now n m"
  shows "m = n\<lparr>nHeartBeat := now\<rparr> \<and> \<not> loop_step m m'"
  using started_unchanged [OF assms(2)] assms(1) by (auto simp: CreateNode_def bind_Some_iff elim: loop_stepE)

end
