(* ===== verification/Startup.thy ===== *)
theory Startup
  imports KV_Cluster
begin

section \<open>Start-up\<close>

text \<open>
  \<^verbatim>\<open>src/main.go\<close>, \<^verbatim>\<open>db/redis_client.go\<close> and \<^verbatim>\<open>logger/logger.go\<close>: what the program does before it serves requests. The variables of the packages
  (\<^verbatim>\<open>logger.instance\<close>, \<^verbatim>\<open>db.rdb\<close>, \<^verbatim>\<open>node.thisNode\<close>, \<^verbatim>\<open>raft.db\<close>) are the fields of the record \<open>globals\<close>, which the functions take and return; \<^term>\<open>None\<close> is a nil
  pointer, and as a result a panic. The calls of libraries (\<open>outside\<close>), the decoded configuration file and the command line's index are
  arguments. \<^verbatim>\<open>CreateService\<close> calls \<^verbatim>\<open>raft.CreateDB\<close>, which is commented out in \<^verbatim>\<open>raft_server.go\<close>; the model records its arguments.

  Nodes that are started from the same configuration, with different addresses, form a cluster. The service on the database is always given a nil node.
\<close>

subsection \<open>The variables of the packages\<close>

record ('lg, 'db) globals =
  gInstance :: "'lg option"
  gRdb :: "'db option"
  gThisNode :: "'db Node option"
  gDB :: "unit option"

definition globals_zero :: "('lg, 'db) globals" where
  "globals_zero = \<lparr>gInstance = None, gRdb = None, gThisNode = None, gDB = None\<rparr>"

(* node/node.go 184-186 GetNode *)
definition GetNode :: "('lg, 'db) globals \<Rightarrow> 'db Node option" where
  "GetNode g = gThisNode g"

(* db/redis_client.go 13-15 GetRedisDB *)
definition GetRedisDB :: "('lg, 'db) globals \<Rightarrow> 'db option" where
  "GetRedisDB g = gRdb g"

(* raft/raft_server.go 13-15 GetDBInstance *)
definition GetDBInstance :: "('lg, 'db) globals \<Rightarrow> unit option" where
  "GetDBInstance g = gDB g"

(* logger/logger.go 18-20 Logger *)
definition Logger_instance :: "('lg, 'db) globals \<Rightarrow> 'lg option" where
  "Logger_instance g = gInstance g"

subsection \<open>Database and logger\<close>

record redis_options =
  roAddr :: string
  roPassword :: string
  roDB :: int

text \<open>
  The libraries: \<^verbatim>\<open>zap.Config.Build\<close> for a list of output paths, \<^verbatim>\<open>zap.Logger.Sugar\<close> on a pointer that may be nil (\<^term>\<open>None\<close> when it panics), \<^verbatim>\<open>redis.NewClient\<close>
  and whether \<^verbatim>\<open>net.Listen\<close> succeeds on an address.
\<close>

record ('lg, 'db) outside =
  oBuild :: "string list \<Rightarrow> string + 'lg"
  oSugar :: "'lg option \<Rightarrow> unit option"
  oNewClient :: "redis_options \<Rightarrow> 'db"
  oListen :: "string \<Rightarrow> bool"

(* db/redis_client.go 17-23 ConnectRedis *)
definition ConnectRedis :: "('lg, 'db) outside \<Rightarrow> RedisConfig \<Rightarrow> ('lg, 'db) globals \<Rightarrow> ('lg, 'db) globals" where
  "ConnectRedis out cfg g = g\<lparr>gRdb := Some (oNewClient out \<lparr>roAddr = rgAddress cfg, roPassword = '''', roDB = 0\<rparr>)\<rparr>"

(* logger/logger.go 11-17 CreateLogger *)
definition CreateLogger :: "('lg, 'db) outside \<Rightarrow> string list \<Rightarrow> ('lg, 'db) globals \<Rightarrow> ('lg, 'db) globals option" where
  "CreateLogger out paths g = (case oBuild out paths of Inl err \<Rightarrow> None | Inr tmp \<Rightarrow> Some (g\<lparr>gInstance := Some tmp\<rparr>))"

(* logger/logger.go 21-23 Sugar *)
definition Sugar :: "('lg, 'db) outside \<Rightarrow> ('lg, 'db) globals \<Rightarrow> unit option" where
  "Sugar out g = oSugar out (gInstance g)"

subsection \<open>The program\<close>

text \<open>Of the logger's configuration the program changes the output paths only.\<close>

(* main.go 19-25 Config *)
record MainConfig =
  mcHello :: string
  mcNodeList :: "NodeConfig list"
  mcRedisServiceList :: "DBServiceConfig list"
  mcLogPaths :: "string list"
  mcRedisConfig :: RedisConfig

(* main.go 27-44 loadConfig *)
definition loadConfig :: "(string + MainConfig) \<Rightarrow> MainConfig option" where
  "loadConfig decoded = (case decoded of Inl err \<Rightarrow> None | Inr c \<Rightarrow> Some c)"

text \<open>The address that is served, by the node that is then \<^verbatim>\<open>thisNode\<close>. The node's own redis client has the options of its configuration.\<close>

(* node/node.go 175-180 CreateNode *)
definition connectNode :: "('lg, 'db) outside \<Rightarrow> RedisConfig \<Rightarrow> 'db" where
  "connectNode out cfg = oNewClient out \<lparr>roAddr = rgAddress cfg, roPassword = rgPassword cfg, roDB = rgDB cfg\<rparr>"

(* main.go 48-67 CreateNodeService *)
definition CreateNodeService ::
  "('lg, 'db) outside \<Rightarrow> NodeConfig list \<Rightarrow> int \<Rightarrow> int \<Rightarrow> ('lg, 'db) globals \<Rightarrow> (('lg, 'db) globals \<times> string) option" where
  "CreateNodeService out nodeList index indexFlag g = do {
     nodeConfig \<leftarrow> go_nth nodeList index;
     Sugar out g;
     let addr = '':'' @ itoa (ncPort nodeConfig);
     if \<not> oListen out addr then None
     else do {
       node \<leftarrow> CreateNode (connectNode out) nodeList indexFlag;
       Some (g\<lparr>gThisNode := Some node\<rparr>, addr)
     }
   }"

(* main.go 69-71 CreateService *)
definition CreateService :: "'n option \<Rightarrow> DBServiceConfig list \<Rightarrow> int \<Rightarrow> (string \<times> 'n option) option" where
  "CreateService nodeIns dbServiceList index = do {
     nodeConfig \<leftarrow> go_nth dbServiceList index;
     Some ('':'' @ itoa (dcPort nodeConfig), nodeIns)
   }"

text \<open>
  The result: the variables of the packages, the arguments of \<^verbatim>\<open>CreateDB\<close> and the address that is served. The arguments of the
  goroutine that runs \<^verbatim>\<open>CreateService\<close> are evaluated where it is started, before \<^verbatim>\<open>CreateNodeService\<close>.
\<close>

(* main.go 89-104 main *)
definition main ::
  "('lg, 'db) outside \<Rightarrow> (string + MainConfig) \<Rightarrow> int \<Rightarrow> ('lg, 'db) globals \<Rightarrow>
   (('lg, 'db) globals \<times> (string \<times> 'db Node option) \<times> string) option" where
  "main out decoded indexFlag g = do {
     config \<leftarrow> loadConfig decoded;
     if indexFlag < 0 \<or> indexFlag \<ge> int (length (mcNodeList config)) then None
     else do {
       nodeConfig \<leftarrow> go_nth (mcNodeList config) indexFlag;
       g \<leftarrow> CreateLogger out (mcLogPaths config @ [ncLogPath nodeConfig]) g;
       let log = Logger_instance g;
       let g = ConnectRedis out (mcRedisConfig config) g;
       oSugar out log;
       svc \<leftarrow> CreateService (GetNode g) (mcRedisServiceList config) indexFlag;
       (g, addr) \<leftarrow> CreateNodeService out (mcNodeList config) indexFlag indexFlag g;
       Some (g, svc, addr)
     }
   }"

subsection \<open>Properties\<close>

lemmas main_simps = main_def loadConfig_def CreateNodeService_def CreateLogger_def CreateService_def ConnectRedis_def
  Logger_instance_def GetNode_def Sugar_def

lemma main_creates:
  "main out (Inr c) i g = Some (g', svc, addr) \<Longrightarrow>
     CreateNode (connectNode out) (mcNodeList c) i = GetNode g' \<and> GetDBInstance g' = GetDBInstance g \<and> snd svc = GetNode g \<and>
     GetRedisDB g' \<noteq> None"
  by (auto simp: main_simps GetDBInstance_def GetRedisDB_def Let_def bind_Some_iff split: if_splits sum.split_asm)

text \<open>The node that \<^verbatim>\<open>CreateDB\<close> gets is nil in every run of the program, and there is no \<^verbatim>\<open>DB\<close> when the node is served.\<close>

theorem main_service_without_node:
  "main out decoded i globals_zero = Some (g', svc, addr) \<Longrightarrow> snd svc = None \<and> GetDBInstance g' = None \<and> GetRedisDB g' \<noteq> None"
proof (cases decoded)
  case (Inr c)
  then show "main out decoded i globals_zero = Some (g', svc, addr) \<Longrightarrow> ?thesis"
    using main_creates [of out c i globals_zero g' svc addr] by (simp add: globals_zero_def GetNode_def GetDBInstance_def)
qed (simp add: main_def loadConfig_def)

lemma CreateNode_key: "CreateNode connect cfgs i = Some n \<Longrightarrow> GetRedisKey n = ''node_'' @ itoa i"
  by (auto simp: CreateNode_def GetRedisKey_def Let_def bind_Some_iff split: if_splits)

text \<open>
  C31: the nodes that the program starts form a cluster. When the program runs once for every index of one configuration whose addresses
  differ, each on its own address, every run that comes up has created a node that knows the whole configuration and lists
  exactly the other addresses as its other nodes, each once. No two of them use the same redis
  key, so nodes that share a redis server do not overwrite each other's items.
\<close>

theorem main_starts_cluster:
  assumes "distinct (map Address (mcNodeList c))"
    and "\<And>i. i < length (mcNodeList c) \<Longrightarrow>
      \<exists>g svc addr. main out (Inr c) (int i) globals_zero = Some (g, svc, addr) \<and> GetNode g = Some (net (Address (mcNodeList c ! i)))"
  shows "cluster_ok (set (map Address (mcNodeList c))) net \<and>
    inj_on (\<lambda>a. GetRedisKey (net a)) (set (map Address (mcNodeList c)))"
proof
  have created: "CreateNode (connectNode out) (mcNodeList c) (int i) = Some (net (Address (mcNodeList c ! i)))" if "i < length (mcNodeList c)" for i
    using assms(2) [OF that] main_creates by (metis (no_types, lifting))
  show "cluster_ok (set (map Address (mcNodeList c))) net"
    by (rule created_cluster [OF assms(1) created])
  show "inj_on (\<lambda>a. GetRedisKey (net a)) (set (map Address (mcNodeList c)))"
  proof (rule inj_onI)
    fix a b
    assume "a \<in> set (map Address (mcNodeList c))" "b \<in> set (map Address (mcNodeList c))"
      and eq: "GetRedisKey (net a) = GetRedisKey (net b)"
    then obtain i j where ij: "i < length (mcNodeList c)" "a = Address (mcNodeList c ! i)"
        "j < length (mcNodeList c)" "b = Address (mcNodeList c ! j)"
      by (auto simp: in_set_conv_nth)
    then have "itoa (int i) = itoa (int j)"
      using eq CreateNode_key [OF created [OF ij(1)]] CreateNode_key [OF created [OF ij(3)]] by simp
    then show "a = b"
      using ij by (simp add: int_dec.print_inj)
  qed
qed

definition config_sample :: MainConfig where
  "config_sample = \<lparr>mcHello = '''', mcNodeList = [cfg_sample 1, cfg_sample 2], mcRedisServiceList = [\<lparr>dcHost = '''', dcPort = 3\<rparr>, \<lparr>dcHost = '''', dcPort = 4\<rparr>],
     mcLogPaths = [], mcRedisConfig = \<lparr>rgAddress = '''', rgPassword = '''', rgDB = 0\<rparr>\<rparr>"

theorem main_starts_cluster_witness:
  "cluster_ok {''h:1'', ''h:2''} cluster_sample \<and> inj_on (\<lambda>a. GetRedisKey (cluster_sample a)) {''h:1'', ''h:2''}"
proof -
  let ?out = "\<lparr>oBuild = \<lambda>paths. Inr paths, oSugar = map_option (\<lambda>_. ()), oNewClient = \<lambda>_. (), oListen = \<lambda>_. True\<rparr>"
  have "\<exists>g svc addr. main ?out (Inr config_sample) (int i) globals_zero = Some (g, svc, addr) \<and>
      GetNode g = Some (cluster_sample (Address (mcNodeList config_sample ! i)))" if "i < length (mcNodeList config_sample)" for i
  proof -
    have "i = 0 \<or> i = 1" using that by (auto simp: config_sample_def)
    then show ?thesis
      by (auto simp: main_simps config_sample_def CreateNode_def go_nth_def cluster_sample_def node_of_def)
  qed
  from main_starts_cluster [OF _ this] show ?thesis
    by (simp add: config_sample_def)
qed

end
