(* ===== verification/KV_Election.thy ===== *)
theory KV_Election
  imports KV_Cluster
begin

section \<open>The key-value node: elections in a cluster\<close>

text \<open>
  The nodes of a cluster with the elections they are running. An election is in progress from \<^verbatim>\<open>n.Term++\<close> until its goroutines have signalled:
  in between the goroutines of all elections and the handlers of all nodes, the electing ones included, take their steps in any
  order. Requests may be handled late, more than once or never, and replies may be lost. One step is a statement of \<^verbatim>\<open>election\<close> or of
  one of its goroutines as \<open>KV_Client\<close> has them, or a whole handler.

  The term of a node can change while it waits for the votes of an earlier one. An election that is not disturbed in this way is the only one to win
  its term; one that is disturbed makes its node leader of a term in which nobody has elected it.
\<close>

subsection \<open>Events\<close>

text \<open>
  An election in progress: the state of its goroutines, and the term it was started for, which the code does not keep.
\<close>

record election_run =
  erTerm :: uint64
  erVotes :: "vote_pc list"

text \<open>
  Beside the nodes and the elections in progress there are the requests that were sent (addressee, request, candidate), and two records of
  the past that no step reads: the votes (voter, term, candidate) and the elections won (candidate, term at the beginning, term at the end).
\<close>

record 'db kv_state =
  kNode :: "'db cluster"
  kRun :: "string \<rightharpoonup> election_run"
  kSent :: "(string \<times> ElectionRequest \<times> string) list"
  kVotes :: "(string \<times> uint64 \<times> string) list"
  kWins :: "(string \<times> uint64 \<times> uint64) list"

definition kv_start :: "'db cluster \<Rightarrow> 'db kv_state" where
  "kv_start net = \<lparr>kNode = net, kRun = Map.empty, kSent = [], kVotes = [], kWins = []\<rparr>"

definition set_node :: "string \<Rightarrow> 'db Node \<Rightarrow> 'db kv_state \<Rightarrow> 'db kv_state" where
  "set_node a n s = s\<lparr>kNode := (kNode s)(a := n)\<rparr>"

text \<open>A step of a goroutine of the election at an address.\<close>

definition goroutine ::
  "string \<Rightarrow> nat \<Rightarrow> (vote_pc \<Rightarrow> 'db Node \<Rightarrow> (vote_pc \<times> 'db Node) option) \<Rightarrow> 'db kv_state \<Rightarrow> (vote_pc \<times> 'db kv_state) option" where
  "goroutine a i f s = do {
     run \<leftarrow> kRun s a;
     p \<leftarrow> go_nth (erVotes run) (int i);
     (p, n) \<leftarrow> f p (kNode s a);
     Some (p, set_node a n (s\<lparr>kRun := (kRun s)(a \<mapsto> run\<lparr>erVotes := (erVotes run)[i := p]\<rparr>)\<rparr>))
   }"

text \<open>A node handles an election request.\<close>

definition serve :: "int \<Rightarrow> string \<Rightarrow> ElectionRequest \<Rightarrow> string \<Rightarrow> 'db kv_state \<Rightarrow> 'db kv_state \<times> ElectionReply" where
  "serve now v req c s =
     (let (n, r) = Election now req (kNode s v);
          s = set_node v n s
      in (if erpAccept r then s\<lparr>kVotes := (v, ucast (erqTerm req), c) # kVotes s\<rparr> else s, r))"

fun sent_request :: "vote_pc \<Rightarrow> (string \<times> ElectionRequest) option" where
  "sent_request (VoteSent cfg req) = Some (Address cfg, req)"
| "sent_request _ = None"

text \<open>
  The events: an election begins; a goroutine dials, calls, has its request handled and gets the reply, gets an error instead, handles the result; a
  request is handled although nobody waits for the reply; an election ends; and what else the nodes do: heartbeats, timeouts, commitment, appends.
\<close>

datatype kv_event =
    Begins string
  | Dials string nat nat bool
  | Calls string nat
  | Answered string nat int
  | Fails string nat string
  | HandledLate nat int
  | Counts string nat
  | Ends string
  | Hears string int HeartRequest
  | TimesOut string
  | Checks string
  | Appends string AppendEntryRequest
  | Records string nat AppendEntryReply

text \<open>
  Terms stay below \<open>2 ^ 32\<close>, where a request can carry them, and a node does not accept an append that lowers its term.
\<close>

fun kv_happens :: "string set \<Rightarrow> 'db redis_hset \<Rightarrow> (Item \<Rightarrow> string) \<Rightarrow> kv_event \<Rightarrow> 'db kv_state \<Rightarrow> 'db kv_state option" where
  "kv_happens A hset json (Begins a) s =
     (if a \<in> A \<and> kRun s a = None \<and> unat (nTerm (kNode s a)) + 1 < 2 ^ 32 then
        let n = election_begin (kNode s a)
        in Some ((set_node a n s)\<lparr>kRun := (kRun s)(a \<mapsto> \<lparr>erTerm = nTerm n, erVotes = replicate (length (nOtherNodeList n)) VoteStart\<rparr>),
             kVotes := (a, nTerm n, a) # kVotes s\<rparr>)
      else None)"
| "kv_happens A hset json (Dials a i t dialed) s = map_option snd (goroutine a i (voteDial i t dialed) s)"
| "kv_happens A hset json (Calls a i) s = do {
     (p, s) \<leftarrow> goroutine a i voteCall s;
     (v, req) \<leftarrow> sent_request p;
     Some (s\<lparr>kSent := (v, req, a) # kSent s\<rparr>)
   }"
| "kv_happens A hset json (Answered a i now) s = do {
     run \<leftarrow> kRun s a;
     p \<leftarrow> go_nth (erVotes run) (int i);
     (v, req) \<leftarrow> sent_request p;
     let (s, r) = serve now v req a s;
     map_option snd (goroutine a i (voteReturn (Inr r)) s)
   }"
| "kv_happens A hset json (Fails a i err) s = map_option snd (goroutine a i (voteReturn (Inl err)) s)"
| "kv_happens A hset json (HandledLate k now) s = do {
     (v, req, c) \<leftarrow> go_nth (kSent s) (int k);
     Some (fst (serve now v req c s))
   }"
| "kv_happens A hset json (Counts a i) s = map_option snd (goroutine a i voteCount s)"
| "kv_happens A hset json (Ends a) s = do {
     run \<leftarrow> kRun s a;
     if list_all vote_signalled (erVotes run) then
       let (n, won) = election_end (kNode s a)
       in Some ((set_node a n s)\<lparr>kRun := (kRun s)(a := None), kWins := (if won then (a, erTerm run, nTerm n) # kWins s else kWins s)\<rparr>)
     else None
   }"
| "kv_happens A hset json (Hears a now req) s = Some (set_node a (fst (Heart now req (kNode s a))) s)"
| "kv_happens A hset json (TimesOut a) s = Some (set_node a (timeout (kNode s a)) s)"
| "kv_happens A hset json (Checks a) s = Some (set_node a (CheckCommitId (kNode s a)) s)"
| "kv_happens A hset json (Appends a req) s = do {
     (n, reply, err) \<leftarrow> Append hset json req (kNode s a);
     if nTerm (kNode s a) \<le> nTerm n then Some (set_node a n s) else None
   }"
| "kv_happens A hset json (Records a t reply) s = do {
     n \<leftarrow> recordAppend t reply (kNode s a);
     Some (set_node a n s)
   }"

definition kv_step :: "string set \<Rightarrow> 'db redis_hset \<Rightarrow> (Item \<Rightarrow> string) \<Rightarrow> 'db kv_state \<Rightarrow> 'db kv_state \<Rightarrow> bool" where
  "kv_step A hset json s s' \<longleftrightarrow> (\<exists>ev. kv_happens A hset json ev s = Some s')"

primrec kv_run :: "string set \<Rightarrow> 'db redis_hset \<Rightarrow> (Item \<Rightarrow> string) \<Rightarrow> kv_event list \<Rightarrow> 'db kv_state \<Rightarrow> 'db kv_state option" where
  "kv_run A hset json [] s = Some s"
| "kv_run A hset json (ev # evs) s = do { s \<leftarrow> kv_happens A hset json ev s; kv_run A hset json evs s }"

lemma kv_run_steps: "kv_run A hset json evs s = Some s' \<Longrightarrow> (kv_step A hset json)\<^sup>*\<^sup>* s s'"
proof (induction evs arbitrary: s)
  case (Cons ev evs)
  then obtain s1 where "kv_step A hset json s s1" "kv_run A hset json evs s1 = Some s'"
    by (auto simp: bind_Some_iff kv_step_def)
  then show ?case
    using Cons.IH by (meson converse_rtranclp_into_rtranclp)
qed simp

subsection \<open>The invariant\<close>

text \<open>What a goroutine has got: the node it asked, the term of its request, and whose vote it has and for which term.\<close>

fun asked :: "vote_pc \<Rightarrow> string option" where
  "asked VoteStart = None"
| "asked VoteNoDial = None"
| "asked (VoteDialed cfg) = Some (Address cfg)"
| "asked (VoteSent cfg req) = Some (Address cfg)"
| "asked (VoteReplied cfg req res) = Some (Address cfg)"
| "asked (VoteDone cfg req res) = Some (Address cfg)"

fun asked_term :: "vote_pc \<Rightarrow> uint64 option" where
  "asked_term (VoteSent cfg req) = Some (ucast (erqTerm req))"
| "asked_term (VoteReplied cfg req res) = Some (ucast (erqTerm req))"
| "asked_term (VoteDone cfg req res) = Some (ucast (erqTerm req))"
| "asked_term _ = None"

fun grants :: "string + ElectionReply \<Rightarrow> bool" where
  "grants (Inl err) \<longleftrightarrow> False"
| "grants (Inr r) \<longleftrightarrow> erpAccept r"

fun accepted :: "vote_pc \<Rightarrow> (string \<times> uint64) option" where
  "accepted (VoteReplied cfg req res) = (if grants res then Some (Address cfg, ucast (erqTerm req)) else None)"
| "accepted (VoteDone cfg req res) = (if grants res then Some (Address cfg, ucast (erqTerm req)) else None)"
| "accepted _ = None"

fun counted :: "vote_pc \<Rightarrow> bool" where
  "counted (VoteDone cfg req res) \<longleftrightarrow> grants res"
| "counted _ \<longleftrightarrow> False"

lemma accepted_asked: "accepted p = Some (v, t) \<Longrightarrow> asked p = Some v \<and> asked_term p = Some t"
  by (cases p) (auto split: if_splits)

lemma signalled_counted: "vote_signalled p \<Longrightarrow> counted p \<longleftrightarrow> accepted p \<noteq> None"
  by (cases p) auto

type_synonym votes = "(string \<times> uint64 \<times> string) set"

definition pc_ok :: "string set \<Rightarrow> string \<Rightarrow> uint64 \<Rightarrow> uint64 \<Rightarrow> votes \<Rightarrow> vote_pc \<Rightarrow> bool" where
  "pc_ok A a t0 now V p \<longleftrightarrow>
     (\<forall>v. asked p = Some v \<longrightarrow> v \<in> A - {a}) \<and>
     (\<forall>t. asked_term p = Some t \<longrightarrow> t0 \<le> t \<and> t \<le> now) \<and>
     (\<forall>v t. accepted p = Some (v, t) \<longrightarrow> (v, t, a) \<in> V)"

definition run_ok :: "string set \<Rightarrow> string \<Rightarrow> 'db Node \<Rightarrow> votes \<Rightarrow> election_run \<Rightarrow> bool" where
  "run_ok A a n V run \<longleftrightarrow> a \<in> A \<and> (a, erTerm run, a) \<in> V \<and>
     (\<forall>p\<in>set (erVotes run). pc_ok A a (erTerm run) (nTerm n) V p) \<and>
     distinct (List.map_filter accepted (erVotes run)) \<and>
     nOathAcceptNum n = 1 + int (length (filter counted (erVotes run)))"

text \<open>Votes: at most one per voter and term, and none for a term the voter has not reached. A win without disturbance has the votes of a majority.\<close>

definition votes_ok :: "string set \<Rightarrow> 'db cluster \<Rightarrow> votes \<Rightarrow> (string \<times> uint64 \<times> uint64) set \<Rightarrow> bool" where
  "votes_ok A net V wins \<longleftrightarrow>
     (\<forall>(v, t, c)\<in>V. v \<in> A \<and> t \<le> nTerm (net v)) \<and>
     (\<forall>v t c c'. (v, t, c) \<in> V \<longrightarrow> (v, t, c') \<in> V \<longrightarrow> c = c') \<and>
     (\<forall>c t. (c, t, t) \<in> wins \<longrightarrow> card A < 2 * card {v. (v, t, c) \<in> V})"

definition kv_inv :: "string set \<Rightarrow> 'db kv_state \<Rightarrow> bool" where
  "kv_inv A s \<longleftrightarrow> cluster_ok A (kNode s) \<and> (\<forall>a\<in>A. unat (nTerm (kNode s a)) < 2 ^ 32) \<and>
     votes_ok A (kNode s) (set (kVotes s)) (set (kWins s)) \<and>
     (\<forall>a run. kRun s a = Some run \<longrightarrow> run_ok A a (kNode s a) (set (kVotes s)) run) \<and>
     (\<forall>(v, req, c)\<in>set (kSent s). v \<in> A)"

lemma pc_ok_mono: "pc_ok A a t0 now V p \<Longrightarrow> now \<le> now' \<Longrightarrow> V \<subseteq> V' \<Longrightarrow> pc_ok A a t0 now' V' p"
  unfolding pc_ok_def by (meson order_trans subsetD)

lemma run_ok_mono:
  assumes "run_ok A a n V run" "nTerm n \<le> nTerm n'" "nOathAcceptNum n' = nOathAcceptNum n" "V \<subseteq> V'"
  shows "run_ok A a n' V' run"
  using assms pc_ok_mono unfolding run_ok_def by (metis subsetD)

lemma kv_invD:
  assumes "kv_inv A s"
  shows "cluster_ok A (kNode s)" "a \<in> A \<Longrightarrow> unat (nTerm (kNode s a)) < 2 ^ 32" "votes_ok A (kNode s) (set (kVotes s)) (set (kWins s))"
    "kRun s a = Some run \<Longrightarrow> run_ok A a (kNode s a) (set (kVotes s)) run" "(v, req, c) \<in> set (kSent s) \<Longrightarrow> v \<in> A"
  using assms unfolding kv_inv_def by auto

text \<open>What a step of a node may change without touching the invariant.\<close>

definition keeps_node :: "'db Node \<Rightarrow> 'db Node \<Rightarrow> bool" where
  "keeps_node n n' \<longleftrightarrow> nTerm n \<le> nTerm n' \<and> (unat (nTerm n) < 2 ^ 32 \<longrightarrow> unat (nTerm n') < 2 ^ 32) \<and> nConfig n' = nConfig n \<and>
     other_addresses n' = other_addresses n \<and> nOathAcceptNum n' = nOathAcceptNum n"

lemma cluster_ok_update:
  assumes "cluster_ok A net" "nConfig n = nConfig (net a)" "other_addresses n = other_addresses (net a)"
  shows "cluster_ok A (net(a := n))"
  using assms by (simp add: cluster_ok_def)

lemma votes_ok_update:
  assumes "votes_ok A net V wins" "nTerm (net a) \<le> nTerm n"
  shows "votes_ok A (net(a := n)) V wins"
  using assms order_trans unfolding votes_ok_def by fastforce

lemma kv_inv_node:
  assumes "kv_inv A s" "keeps_node (kNode s a) n"
  shows "kv_inv A (set_node a n s)"
proof -
  have n: "nTerm (kNode s a) \<le> nTerm n" "unat (nTerm (kNode s a)) < 2 ^ 32 \<Longrightarrow> unat (nTerm n) < 2 ^ 32" "nConfig n = nConfig (kNode s a)"
    "other_addresses n = other_addresses (kNode s a)" "nOathAcceptNum n = nOathAcceptNum (kNode s a)"
    using assms(2) by (simp_all add: keeps_node_def)
  note inv = kv_invD [OF assms(1)]
  have "run_ok A b (((kNode s)(a := n)) b) (set (kVotes s)) run" if "kRun s b = Some run" for b run
    using inv(4) [OF that] run_ok_mono [OF _ n(1,5)] by (cases "b = a") auto
  then show ?thesis
    using inv(2,5) n(2) cluster_ok_update [OF inv(1) n(3,4)] votes_ok_update [OF inv(3) n(1)]
    by (auto simp: kv_inv_def set_node_def)
qed

subsection \<open>Steps of the nodes\<close>

lemma unat_ucast_small [simp]: "unat (ucast (x :: uint32) :: uint64) < 4294967296"
  using unsigned_less [of x] by (simp add: unat_ucast64)

lemma Heart_keeps: "keeps_node n (fst (Heart now req n))"
proof -
  obtain n' r where h: "Heart now req n = (n', r)" by force
  have "nTerm n' = nTerm n \<or> nTerm n' = ucast (hrqTerm req)" "nOathAcceptNum n' = nOathAcceptNum n"
    using h by (auto simp: Heart_def SetState_def Let_def split: if_splits)
  then show ?thesis
    using Heart_effect(1-3) [OF h] h by (auto simp: keeps_node_def other_addresses_def)
qed

lemma Election_keeps: "keeps_node n (fst (Election now req n))"
proof -
  obtain n' r where e: "Election now req n = (n', r)" by force
  have "nOathAcceptNum n' = nOathAcceptNum n"
    using e by (auto simp: Election_def SetState_def Let_def split: if_splits)
  then show ?thesis
    using Election_effect [OF e] e by (auto simp: keeps_node_def other_addresses_def split: if_splits)
qed

lemma appendItem_keeps:
  assumes "appendItem hset json entry n = Some (n', accept, err)"
  shows "nConfig n' = nConfig n \<and> nOtherNodeList n' = nOtherNodeList n \<and> nOathAcceptNum n' = nOathAcceptNum n"
  using assms by (cases entry) (auto simp: appendItem_def Let_def split: prod.splits if_splits)

lemma Append_keeps:
  assumes "Append hset json req n = Some (n', r, err)" "nTerm n \<le> nTerm n'"
  shows "keeps_node n n'"
proof -
  define b where "b \<longleftrightarrow> itTerm (GetTailItem n) = ucast (aePreTerm req) \<and> itIndex (GetTailItem n) = ucast (aePreIndex req) \<and>
    ucast (itIndex (GetTailItem n) + 1) = RpcEntry_get reIndex 0 (aeEntry req)"
  obtain n1 acc err1 where 1: "(if b then appendItem hset json (aeEntry req) n else Some (n, False, None)) = Some (n1, acc, err1)"
    and n': "Some (n', r, err) = Append hset json req n"
    using assms(1) by (auto simp: Append_def b_def [symmetric] bind_Some_iff Let_def)
  have "nConfig n1 = nConfig n \<and> nOtherNodeList n1 = nOtherNodeList n \<and> nOathAcceptNum n1 = nOathAcceptNum n"
    using 1 by (auto split: if_splits dest!: appendItem_keeps)
  then have "nConfig n' = nConfig n \<and> nOtherNodeList n' = nOtherNodeList n \<and> nOathAcceptNum n' = nOathAcceptNum n"
    using n' [unfolded Append_def Let_def b_def [symmetric] 1] by (auto simp: SetState_def split: if_splits)
  moreover have "nTerm n' = nTerm n \<or> (\<exists>x :: uint32. nTerm n' = ucast x)"
    using Append_effect [OF assms(1)] by (auto split: if_splits)
  ultimately show ?thesis
    using assms(2) by (auto simp: keeps_node_def other_addresses_def)
qed

lemma recordAppend_keeps:
  assumes "recordAppend t reply n = Some n'"
  shows "keeps_node n n'"
proof -
  obtain w where w: "go_nth (nOtherNodeList n) (int t) = Some w"
    using assms by (auto simp: recordAppend_def bind_Some_iff)
  then have "nOtherNodeList n ! t = w" "t < length (nOtherNodeList n)"
    by (auto simp: go_nth_def split: if_splits)
  then show ?thesis
    using assms w by (auto simp: recordAppend_def Let_def CheckCommitId_effect CheckAcceptId_effect keeps_node_def other_addresses_def map_update
        list_update_same_conv)
qed

text \<open>A vote for a term that the voter has reached and has not voted in.\<close>

lemma kv_inv_vote:
  assumes "kv_inv A s" "v \<in> A" "t \<le> nTerm (kNode s v)" "\<And>c. (v, t, c) \<notin> set (kVotes s)"
  shows "kv_inv A (s\<lparr>kVotes := (v, t, c) # kVotes s\<rparr>)"
proof -
  note inv = kv_invD [OF assms(1)]
  have fin: "finite A" using inv(1) by (simp add: cluster_ok_def)
  have sub: "{x. (x, t', c') \<in> set ((v, t, c) # kVotes s)} \<subseteq> A" for t' c'
    using inv(3) assms(2) by (auto simp: votes_ok_def)
  have "card {x. (x, t', c') \<in> set (kVotes s)} \<le> card {x. (x, t', c') \<in> set ((v, t, c) # kVotes s)}" for t' c'
    by (rule card_mono [OF finite_subset [OF sub fin]]) auto
  then have "card A < 2 * card {x. (x, t', c') \<in> set ((v, t, c) # kVotes s)}" if "(c', t', t') \<in> set (kWins s)" for c' t'
    using that inv(3) unfolding votes_ok_def by (meson mult_le_mono2 order_less_le_trans)
  then have "votes_ok A (kNode s) (set ((v, t, c) # kVotes s)) (set (kWins s))"
    using inv(3) assms(2-4) unfolding votes_ok_def by (auto simp del: list.set(2) simp: set_ConsD) (auto dest!: set_ConsD)
  moreover have "run_ok A a (kNode s a) (set ((v, t, c) # kVotes s)) run" if "kRun s a = Some run" for a run
    using inv(4) [OF that] by (rule run_ok_mono) auto
  ultimately show ?thesis
    using inv(1,2,5) by (auto simp: kv_inv_def)
qed

lemma set_node_simps [simp]:
  "kNode (set_node a n s) = (kNode s)(a := n)" "kRun (set_node a n s) = kRun s" "kVotes (set_node a n s) = kVotes s"
  "kSent (set_node a n s) = kSent s" "kWins (set_node a n s) = kWins s"
  by (simp_all add: set_node_def)

lemma kv_inv_serve:
  assumes "kv_inv A s" "v \<in> A" "serve now v req c s = (s', r)"
  shows "kv_inv A s'" "kRun s' = kRun s" "kSent s' = kSent s" "\<And>a. keeps_node (kNode s a) (kNode s' a)"
    "set (kVotes s) \<subseteq> set (kVotes s')"
    "erpAccept r \<Longrightarrow> (v, ucast (erqTerm req), c) \<in> set (kVotes s') \<and> (\<forall>c. (v, ucast (erqTerm req), c) \<notin> set (kVotes s))"
proof -
  obtain n where e: "Election now req (kNode s v) = (n, r)"
    using assms(3) by (auto simp: serve_def Let_def split: prod.splits)
  have s': "s' = (if erpAccept r then (set_node v n s)\<lparr>kVotes := (v, ucast (erqTerm req), c) # kVotes s\<rparr> else set_node v n s)"
    using assms(3) e by (auto simp: serve_def)
  have node: "keeps_node (kNode s v) n"
    using Election_keeps [of "kNode s v" now req] e by simp
  have inv: "kv_inv A (set_node v n s)"
    by (rule kv_inv_node [OF assms(1) node])
  have new: "(v, ucast (erqTerm req), c) \<notin> set (kVotes s)" if "erpAccept r" for c
    using that Election_effect(4) [OF e] kv_invD(3) [OF assms(1)] by (auto simp: votes_ok_def)
  show "kv_inv A s'"
    using kv_inv_vote [OF inv assms(2), of "ucast (erqTerm req)" c] new Election_effect(4) [OF e] inv by (auto simp: s')
  show "kRun s' = kRun s" "kSent s' = kSent s" "set (kVotes s) \<subseteq> set (kVotes s')"
    "erpAccept r \<Longrightarrow> (v, ucast (erqTerm req), c) \<in> set (kVotes s') \<and> (\<forall>c. (v, ucast (erqTerm req), c) \<notin> set (kVotes s))"
    using new by (auto simp: s')
  show "keeps_node (kNode s a) (kNode s' a)" for a
    using node by (auto simp: s' keeps_node_def)
qed

subsection \<open>Steps of the elections\<close>

lemma distinct_map_filter_update:
  assumes "distinct (List.map_filter f xs)" "i < length xs"
    and "f y = f (xs ! i) \<or> f (xs ! i) = None \<and> (\<forall>x. f y = Some x \<longrightarrow> x \<notin> set (List.map_filter f xs))"
  shows "distinct (List.map_filter f (xs[i := y]))"
proof -
  have app: "List.map_filter f (us @ z # vs) =
      List.map_filter f us @ (case f z of None \<Rightarrow> [] | Some x \<Rightarrow> [x]) @ List.map_filter f vs" for us vs z
    by (induction us) (simp_all add: map_filter_simps split: option.split)
  have xs: "xs = take i xs @ xs ! i # drop (Suc i) xs" "xs[i := y] = take i xs @ y # drop (Suc i) xs"
    using assms(2) by (simp_all add: id_take_nth_drop upd_conv_take_nth_drop)
  show ?thesis
    using assms(1,3) unfolding xs(2) by (subst (asm) (1 3) xs(1)) (auto simp: app split: option.splits)
qed

lemma length_filter_update:
  assumes "i < length xs" "\<not> P (xs ! i)"
  shows "length (filter P (xs[i := y])) = length (filter P xs) + (if P y then 1 else 0)"
proof -
  have xs: "xs = take i xs @ xs ! i # drop (Suc i) xs" "xs[i := y] = take i xs @ y # drop (Suc i) xs"
    using assms(1) by (simp_all add: id_take_nth_drop upd_conv_take_nth_drop)
  show ?thesis
    using assms(2) unfolding xs(2) by (subst (3) xs(1)) simp
qed

text \<open>A goroutine goes on: the vote that it has got, if it has, is new, and a vote that it counts is added to the votes of its node.\<close>

fun_cases voteCallE: "voteCall p n = Some (p', n')"
fun_cases voteReturnE: "voteReturn res p n = Some (p', n')"
fun_cases voteCountE: "voteCount p n = Some (p', n')"

lemma voteDialD:
  "voteDial i t dialed p n = Some (p', n') \<Longrightarrow>
     p = VoteStart \<and> n' = n \<and> (\<exists>w. go_nth (nOtherNodeList n) (int t) = Some w \<and> (p' = VoteDialed (wCfg w) \<or> p' = VoteNoDial))"
  by (cases p) (auto simp: bind_Some_iff split: if_splits)

lemma kv_inv_goroutine:
  assumes "kv_inv A s" "goroutine a i f s = Some (p', s')"
    and "\<And>p n run. kRun s a = Some run \<Longrightarrow> go_nth (erVotes run) (int i) = Some p \<Longrightarrow> f p (kNode s a) = Some (p', n) \<Longrightarrow>
      nTerm n = nTerm (kNode s a) \<and> nConfig n = nConfig (kNode s a) \<and> other_addresses n = other_addresses (kNode s a) \<and>
      \<not> counted p \<and> nOathAcceptNum n = nOathAcceptNum (kNode s a) + (if counted p' then 1 else 0) \<and>
      pc_ok A a (erTerm run) (nTerm n) (set (kVotes s)) p' \<and>
      (accepted p' = accepted p \<or> accepted p = None \<and> (\<forall>x. accepted p' = Some x \<longrightarrow> x \<notin> set (List.map_filter accepted (erVotes run))))"
  shows "kv_inv A s' \<and> (\<exists>run. kRun s' a = Some run \<and> p' \<in> set (erVotes run))"
proof -
  obtain run p n where r: "kRun s a = Some run" "go_nth (erVotes run) (int i) = Some p" "f p (kNode s a) = Some (p', n)"
    and s': "s' = set_node a n (s\<lparr>kRun := (kRun s)(a \<mapsto> run\<lparr>erVotes := (erVotes run)[i := p']\<rparr>)\<rparr>)"
    using assms(2) by (auto simp: goroutine_def bind_Some_iff)
  have i: "i < length (erVotes run)" "p = erVotes run ! i"
    using r(2) by (auto simp: go_nth_def split: if_splits)
  note step = assms(3) [OF r]
  note inv = kv_invD [OF assms(1)]
  have ok: "run_ok A a (kNode s a) (set (kVotes s)) run" by (rule inv(4) [OF r(1)])
  have "run_ok A a n (set (kVotes s)) (run\<lparr>erVotes := (erVotes run)[i := p']\<rparr>)"
    using ok step i length_filter_update [of i "erVotes run" counted p'] distinct_map_filter_update [of accepted "erVotes run" i p']
    unfolding run_ok_def by (auto dest: set_update_subset_insert [THEN subsetD])
  moreover have "cluster_ok A ((kNode s)(a := n))" "votes_ok A ((kNode s)(a := n)) (set (kVotes s)) (set (kWins s))"
    using step i cluster_ok_update [OF inv(1)] votes_ok_update [OF inv(3)] by auto
  ultimately show ?thesis
    using inv(2,4,5) step i by (auto simp: kv_inv_def s' intro: set_update_memI)
qed


lemma run_okD:
  assumes "kv_inv A s" "kRun s a = Some run"
  shows "a \<in> A" "(a, erTerm run, a) \<in> set (kVotes s)" "erTerm run \<le> nTerm (kNode s a)"
    "go_nth (erVotes run) (int i) = Some p \<Longrightarrow> pc_ok A a (erTerm run) (nTerm (kNode s a)) (set (kVotes s)) p"
proof -
  show "a \<in> A" "(a, erTerm run, a) \<in> set (kVotes s)" "erTerm run \<le> nTerm (kNode s a)"
    "go_nth (erVotes run) (int i) = Some p \<Longrightarrow> pc_ok A a (erTerm run) (nTerm (kNode s a)) (set (kVotes s)) p"
    using kv_invD(3) [OF assms(1)] kv_invD(4) [OF assms] by (auto simp: run_ok_def votes_ok_def go_nth_def split: if_splits)
qed

lemma accepted_voted:
  assumes "kv_inv A s" "kRun s a = Some run" "(v, t) \<in> set (List.map_filter accepted (erVotes run))"
  shows "(v, t, a) \<in> set (kVotes s)"
  using kv_invD(4) [OF assms(1,2)] assms(3) by (auto simp: run_ok_def pc_ok_def map_filter_def)

lemma Dials_keeps:
  assumes "kv_inv A s" "goroutine a i (voteDial i t dialed) s = Some (p', s')"
  shows "kv_inv A s'"
proof -
  have "Address (wCfg w) \<in> A - {a}" if "kRun s a = Some run" "go_nth (nOtherNodeList (kNode s a)) (int t) = Some w" for run w
  proof -
    have "Address (wCfg w) \<in> set (other_addresses (kNode s a))"
      using that(2) by (auto simp: other_addresses_def go_nth_def split: if_splits)
    then show ?thesis
      using run_okD(1) [OF assms(1) that(1)] kv_invD(1) [OF assms(1)] by (auto simp: cluster_ok_def)
  qed
  then have "kv_inv A s' \<and> (\<exists>run. kRun s' a = Some run \<and> p' \<in> set (erVotes run))"
    by (intro kv_inv_goroutine [OF assms])
      (auto simp: pc_ok_def dest!: voteDialD)
  then show ?thesis by blast
qed

lemma Calls_keeps:
  assumes "kv_inv A s" "goroutine a i voteCall s = Some (p', s')" "sent_request p' = Some (v, req)"
  shows "kv_inv A (s'\<lparr>kSent := (v, req, a) # kSent s'\<rparr>)"
proof -
  have same: "ucast (ucast (nTerm (kNode s a)) :: uint32) = nTerm (kNode s a)" if "kRun s a = Some run" for run
    using ucast_64_32(1) kv_invD(2) [OF assms(1) run_okD(1) [OF assms(1) that]] .
  have inv: "kv_inv A s' \<and> (\<exists>run. kRun s' a = Some run \<and> p' \<in> set (erVotes run))"
    by (rule kv_inv_goroutine [OF assms(1,2)])
      (use run_okD(3,4) [OF assms(1)] same in \<open>auto simp: pc_ok_def electionRequest_def elim!: voteCallE\<close>)
  then obtain run where "kRun s' a = Some run" "p' \<in> set (erVotes run)" "run_ok A a (kNode s' a) (set (kVotes s')) run"
    using kv_invD(4) by blast
  then have "v \<in> A"
    using assms(3) by (cases p') (auto simp: run_ok_def pc_ok_def)
  then show ?thesis
    using inv by (auto simp: kv_inv_def)
qed

lemma Fails_keeps:
  assumes "kv_inv A s" "goroutine a i (voteReturn (Inl err)) s = Some (p', s')"
  shows "kv_inv A s'"
proof -
  have "kv_inv A s' \<and> (\<exists>run. kRun s' a = Some run \<and> p' \<in> set (erVotes run))"
    by (rule kv_inv_goroutine [OF assms])
      (use run_okD(4) [OF assms(1)] in \<open>auto simp: pc_ok_def elim!: voteReturnE\<close>)
  then show ?thesis by blast
qed

lemma Answered_keeps:
  assumes "kv_inv A s" "kRun s a = Some run" "go_nth (erVotes run) (int i) = Some p" "sent_request p = Some (v, req)"
    and "serve now v req a s = (s1, r)" "goroutine a i (voteReturn (Inr r)) s1 = Some (p', s')"
  shows "kv_inv A s'"
proof -
  obtain cfg where p: "p = VoteSent cfg req" "v = Address cfg"
    using assms(4) by (cases p) auto
  have "v \<in> A"
    using run_okD(4) [OF assms(1-3)] p by (auto simp: pc_ok_def)
  note served = kv_inv_serve [OF assms(1) this assms(5)]
  have "(v, ucast (erqTerm req)) \<notin> set (List.map_filter accepted (erVotes run))" if "erpAccept r"
    using accepted_voted [OF assms(1,2)] served(6) [OF that] by blast
  moreover have "pc_ok A a (erTerm run) (nTerm (kNode s1 a)) (set (kVotes s1)) p"
    using run_okD(4) [OF served(1)] assms(2,3) served(2) by simp
  ultimately have "kv_inv A s' \<and> (\<exists>run. kRun s' a = Some run \<and> p' \<in> set (erVotes run))"
    using assms(2,3) served(2) served(6)
    by (intro kv_inv_goroutine [OF served(1) assms(6)]) (auto simp: p pc_ok_def split: if_splits)
  then show ?thesis by blast
qed

lemma Counts_keeps:
  assumes "kv_inv A s" "goroutine a i voteCount s = Some (p', s')"
  shows "kv_inv A s'"
proof -
  have "nTerm (electionResult res n) = nTerm n \<and> nConfig (electionResult res n) = nConfig n \<and>
      other_addresses (electionResult res n) = other_addresses n \<and>
      nOathAcceptNum (electionResult res n) = nOathAcceptNum n + (if grants res then 1 else 0)" for res and n :: "'a Node"
    by (cases res) (auto simp: electionResult_def AddOathAcceptNum_def SetState_def other_addresses_def)
  then have "kv_inv A s' \<and> (\<exists>run. kRun s' a = Some run \<and> p' \<in> set (erVotes run))"
    by (intro kv_inv_goroutine [OF assms])
      (use run_okD(4) [OF assms(1)] in \<open>auto simp: pc_ok_def elim!: voteCountE split: if_splits\<close>)
  then show ?thesis by blast
qed

lemma Begins_keeps:
  assumes "kv_inv A s" "a \<in> A" "kRun s a = None" "unat (nTerm (kNode s a)) + 1 < 2 ^ 32" "n = election_begin (kNode s a)"
  shows "kv_inv A ((set_node a n s)\<lparr>kRun := (kRun s)(a \<mapsto> \<lparr>erTerm = nTerm n, erVotes = replicate m VoteStart\<rparr>),
    kVotes := (a, nTerm n, a) # kVotes s\<rparr>)"
proof -
  have n: "nTerm n = nTerm (kNode s a) + 1" "nConfig n = nConfig (kNode s a)" "other_addresses n = other_addresses (kNode s a)" "nOathAcceptNum n = 1"
    using assms(5) by (simp_all add: election_begin_def SetOathAcceptNum_def other_addresses_def Let_def)
  have u: "unat (nTerm n) = unat (nTerm (kNode s a)) + 1"
    using assms(4) n(1) unat_add_of_nat64 [of "nTerm (kNode s a)" 1] by simp
  then have less: "nTerm (kNode s a) < nTerm n" "unat (nTerm n) < 2 ^ 32"
    using assms(4) by (simp_all add: word_less_nat_alt)
  note inv = kv_invD [OF assms(1)]
  have "kv_inv A (set_node a n s)"
    using inv cluster_ok_update [OF inv(1) n(2,3)] votes_ok_update [OF inv(3), of a n] less assms(3)
    by (auto simp: kv_inv_def)
  moreover have "(a, nTerm n, c) \<notin> set (kVotes s)" for c
    using inv(3) less(1) by (auto simp: votes_ok_def)
  ultimately have voted: "kv_inv A ((set_node a n s)\<lparr>kVotes := (a, nTerm n, a) # kVotes s\<rparr>)"
    using kv_inv_vote [of A "set_node a n s" a "nTerm n" a] assms(2) by simp
  have "run_ok A a n (set ((a, nTerm n, a) # kVotes s)) \<lparr>erTerm = nTerm n, erVotes = replicate m VoteStart\<rparr>"
    using assms(2) n(4) by (auto simp: run_ok_def pc_ok_def map_filter_def)
  moreover have "run_ok A b (kNode s b) (set ((a, nTerm n, a) # kVotes s)) run" if "b \<noteq> a" "kRun s b = Some run" for b run
    using kv_invD(4) [OF voted, of b run] that by simp
  ultimately show ?thesis
    using voted by (auto simp: kv_inv_def)
qed

text \<open>The votes that an undisturbed election has counted are votes of as many other nodes, all for its term.\<close>

lemma signalled_length: "list_all vote_signalled ps \<Longrightarrow> length (List.map_filter accepted ps) = length (filter counted ps)"
  by (induction ps) (auto simp: map_filter_simps signalled_counted split: option.splits)

lemma undisturbed_voters:
  assumes "kv_inv A s" "kRun s a = Some run" "list_all vote_signalled (erVotes run)" "nTerm (kNode s a) = erTerm run"
  shows "nOathAcceptNum (kNode s a) \<le> int (card {v. (v, erTerm run, a) \<in> set (kVotes s)})"
proof -
  let ?acc = "List.map_filter accepted (erVotes run)" and ?V = "{v. (v, erTerm run, a) \<in> set (kVotes s)}"
  have ok: "run_ok A a (kNode s a) (set (kVotes s)) run" by (rule kv_invD(4) [OF assms(1,2)])
  have acc: "t = erTerm run \<and> v \<in> A - {a} \<and> v \<in> ?V" if vt: "(v, t) \<in> set ?acc" for v t
  proof -
    obtain p where p: "p \<in> set (erVotes run)" "accepted p = Some (v, t)"
      using vt by (auto simp: map_filter_def)
    then have "pc_ok A a (erTerm run) (nTerm (kNode s a)) (set (kVotes s)) p"
      using ok by (simp add: run_ok_def)
    then show ?thesis
      using p(2) accepted_asked [OF p(2)] assms(4) unfolding pc_ok_def by auto
  qed
  then have "inj_on fst (set ?acc)"
    by (intro inj_onI) (metis prod.collapse)
  then have "card (fst ` set ?acc) = length ?acc"
    using ok by (simp add: run_ok_def card_image distinct_card)
  moreover have "length ?acc = length (filter counted (erVotes run))"
    using assms(3) by (rule signalled_length)
  moreover have "insert a (fst ` set ?acc) \<subseteq> ?V" "a \<notin> fst ` set ?acc"
    using acc run_okD(2) [OF assms(1,2)] by force+
  moreover have "finite ?V"
    using kv_invD(1,3) [OF assms(1)] by (auto simp: cluster_ok_def votes_ok_def intro: finite_subset)
  ultimately have "length (filter counted (erVotes run)) + 1 \<le> card ?V"
    using card_mono [of ?V "insert a (fst ` set ?acc)"] by simp
  then show ?thesis
    using ok by (simp add: run_ok_def)
qed


lemma Ends_keeps:
  assumes "kv_inv A s" "kRun s a = Some run" "list_all vote_signalled (erVotes run)" "election_end (kNode s a) = (n, won)"
  shows "kv_inv A ((set_node a n s)\<lparr>kRun := (kRun s)(a := None), kWins := (if won then (a, erTerm run, nTerm n) # kWins s else kWins s)\<rparr>)"
proof -
  have n: "keeps_node (kNode s a) n" "nTerm n = nTerm (kNode s a)" "won \<Longrightarrow> int (length (nConfig (kNode s a))) < nOathAcceptNum (kNode s a) * 2"
    using assms(4) by (auto simp: election_end_def GetOathAcceptNum_def SetState_def keeps_node_def other_addresses_def Let_def split: if_splits)
  note inv = kv_invD [OF kv_inv_node [OF assms(1) n(1)]]
  have "card A < 2 * card {v. (v, erTerm run, a) \<in> set (kVotes s)}" if "won" "nTerm n = erTerm run"
  proof -
    have "length (nConfig (kNode s a)) = card A"
      using kv_invD(1) [OF assms(1)] run_okD(1) [OF assms(1,2)] by (simp add: cluster_ok_def)
    then show ?thesis
      using undisturbed_voters [OF assms(1-3)] n(2,3) that by simp
  qed
  then have "votes_ok A ((kNode s)(a := n)) (set (kVotes s)) (set (if won then (a, erTerm run, nTerm n) # kWins s else kWins s))"
    using inv(3) unfolding votes_ok_def by auto
  moreover have "run_ok A b (kNode s b) (set (kVotes s)) run" if "b \<noteq> a" "kRun s b = Some run" for b run
    using inv(4) [of b run] that by simp
  ultimately show ?thesis
    using inv(1,2,5) by (auto simp: kv_inv_def split: if_splits)
qed

lemma kv_happens_keeps:
  assumes "kv_inv A s" "kv_happens A hset json ev s = Some s'"
  shows "kv_inv A s'"
proof (cases ev)
  case (Begins a)
  then show ?thesis
    using assms by (auto simp: Let_def split: if_splits intro!: Begins_keeps)
next
  case (Dials a i t dialed)
  then show ?thesis
    using assms Dials_keeps by auto
next
  case (Calls a i)
  then show ?thesis
    using assms Calls_keeps by (auto simp: bind_Some_iff)
next
  case (Answered a i now)
  then obtain run p v req where r: "kRun s a = Some run" "go_nth (erVotes run) (int i) = Some p" "sent_request p = Some (v, req)"
    and s': "(let (s, r) = serve now v req a s in map_option snd (goroutine a i (voteReturn (Inr r)) s)) = Some s'"
    using assms(2) by (auto simp: bind_Some_iff)
  obtain s1 rep where serve: "serve now v req a s = (s1, rep)" by force
  then obtain p' where "goroutine a i (voteReturn (Inr rep)) s1 = Some (p', s')"
    using s' by auto
  then show ?thesis
    by (rule Answered_keeps [OF assms(1) r serve])
next
  case (Fails a i err)
  then show ?thesis
    using assms Fails_keeps by auto
next
  case (HandledLate k now)
  then obtain v req c where r: "go_nth (kSent s) (int k) = Some (v, req, c)" "s' = fst (serve now v req c s)"
    using assms(2) by (auto simp: bind_Some_iff)
  then have "(v, req, c) \<in> set (kSent s)"
    by (auto simp: go_nth_def in_set_conv_nth split: if_splits)
  then have "v \<in> A"
    by (rule kv_invD(5) [OF assms(1)])
  then show ?thesis
    using kv_inv_serve(1) [OF assms(1)] r(2) by (metis prod.collapse)
next
  case (Counts a i)
  then show ?thesis
    using assms Counts_keeps by auto
next
  case (Ends a)
  obtain n won where e: "election_end (kNode s a) = (n, won)" by force
  then obtain run where "kRun s a = Some run" "list_all vote_signalled (erVotes run)"
    and "s' = (set_node a n s)\<lparr>kRun := (kRun s)(a := None), kWins := (if won then (a, erTerm run, nTerm n) # kWins s else kWins s)\<rparr>"
    using assms(2) Ends by (auto simp: bind_Some_iff split: if_split_asm)
  then show ?thesis
    using Ends_keeps [OF assms(1) _ _ e] by blast
next
  case (Hears a now req)
  then show ?thesis
    using assms kv_inv_node [OF assms(1) Heart_keeps] by auto
next
  case (TimesOut a)
  then show ?thesis
    using assms kv_inv_node [OF assms(1)] by (auto simp: timeout_def SetState_def keeps_node_def other_addresses_def)
next
  case (Checks a)
  then show ?thesis
    using assms kv_inv_node [OF assms(1)] by (auto simp: CheckCommitId_effect keeps_node_def other_addresses_def)
next
  case (Appends a req)
  then show ?thesis
    using assms kv_inv_node [OF assms(1) Append_keeps] by (auto simp: bind_Some_iff split: if_splits)
next
  case (Records a t reply)
  then show ?thesis
    using assms kv_inv_node [OF assms(1) recordAppend_keeps] by (auto simp: bind_Some_iff)
qed

interpretation elections: step_invariant "kv_step A hset json" "kv_inv A" for A hset json
  by unfold_locales (use kv_happens_keeps in \<open>unfold kv_step_def, blast\<close>)


subsection \<open>One leader per term\<close>

lemma kv_start_inv:
  assumes "distinct (map Address cfgs)"
    and "\<And>i. i < length cfgs \<Longrightarrow> CreateNode connect cfgs (int i) = Some (net (Address (cfgs ! i)))"
  shows "kv_inv (set (map Address cfgs)) (kv_start net)"
proof -
  have "nTerm (net a) = 0" if "a \<in> set (map Address cfgs)" for a
    using that CreateNode_items(5) [OF assms(2)] by (auto simp: in_set_conv_nth)
  then show ?thesis
    using created_cluster [OF assms] by (simp add: kv_inv_def kv_start_def votes_ok_def)
qed

lemma votes_ok_one:
  assumes "finite A" "votes_ok A net V wins" "(a, t, t) \<in> wins" "(b, t, t) \<in> wins"
  shows "a = b"
proof (rule ccontr)
  assume "a \<noteq> b"
  let ?v = "\<lambda>c. {v. (v, t, c) \<in> V}"
  have "?v a \<subseteq> A" "?v b \<subseteq> A" "?v a \<inter> ?v b = {}"
    using assms(2) \<open>a \<noteq> b\<close> by (fastforce simp: votes_ok_def)+
  then have "card (?v a) + card (?v b) \<le> card A"
    using finite_subset [OF _ assms(1)] card_Un_disjoint [of "?v a" "?v b"] card_mono [OF assms(1), of "?v a \<union> ?v b"] by auto
  moreover have "card A < 2 * card (?v a)" "card A < 2 * card (?v b)"
    using assms(2-4) by (simp_all add: votes_ok_def)
  ultimately show False by linarith
qed

text \<open>
  C3: at most one undisturbed winner per term. Let nodes be created from one configuration whose addresses differ. Through any
  interleaving of elections, of the goroutines of elections, and of handlers that run one at a time, with requests and replies
  delayed, repeated or lost and whichever nodes the goroutines dial, each node running one election at a time, two elections that were won in the same term were won by the same node, provided that
  the term of the winner was the same when its election ended as when it began. The terms stay below \<open>2 ^ 32\<close>, and no append lowers one.
\<close>

theorem kv_one_leader_per_term:
  assumes "distinct (map Address cfgs)"
    and "\<And>i. i < length cfgs \<Longrightarrow> CreateNode connect cfgs (int i) = Some (net (Address (cfgs ! i)))"
    and "kv_run (set (map Address cfgs)) hset json evs (kv_start net) = Some s"
    and "(a, t, t) \<in> set (kWins s)" "(b, t, t) \<in> set (kWins s)"
  shows "a = b"
proof -
  have "kv_inv (set (map Address cfgs)) s"
    using elections.run_keeps [OF kv_run_steps [OF assms(3)] kv_start_inv [OF assms(1,2)]] by blast
  then show ?thesis
    using votes_ok_one [OF finite_set kv_invD(3) assms(4,5)] by blast
qed

text \<open>Two nodes, of which the first is elected by the second.\<close>

lemmas kv_eval = kv_start_def goroutine_def serve_def set_node_def election_begin_def election_end_def electionResult_def electionRequest_def
  Election_def SetState_def SetOathAcceptNum_def AddOathAcceptNum_def GetOathAcceptNum_def GetTailItem_def go_nth_def Let_def

lemma cluster_sample_created:
  "i < length [cfg_sample 1, cfg_sample 2] \<Longrightarrow>
     CreateNode (\<lambda>_. ()) [cfg_sample 1, cfg_sample 2] (int i) = Some (cluster_sample (Address ([cfg_sample 1, cfg_sample 2] ! i)))"
  by (auto simp: less_Suc_eq cluster_sample_def node_of_def CreateNode_def go_nth_def)

theorem kv_one_leader_per_term_witness:
  "\<exists>s. kv_run {''h:1'', ''h:2''} hset_sample (\<lambda>_. '''')
      [Begins ''h:1'', Dials ''h:1'' 0 0 True, Calls ''h:1'' 0, Answered ''h:1'' 0 7, Counts ''h:1'' 0, Ends ''h:1''] (kv_start cluster_sample) = Some s \<and>
    (''h:1'', 1, 1) \<in> set (kWins s) \<and> (''h:2'', 1, 1) \<notin> set (kWins s)"
proof -
  let ?evs = "[Begins ''h:1'', Dials ''h:1'' 0 0 True, Calls ''h:1'' 0, Answered ''h:1'' 0 7, Counts ''h:1'' 0, Ends ''h:1'']"
  have "\<exists>s. kv_run {''h:1'', ''h:2''} hset_sample (\<lambda>_. '''') ?evs (kv_start cluster_sample) = Some s \<and> (''h:1'', 1, 1) \<in> set (kWins s)"
    by (simp add: kv_eval cluster_sample_def node_of_parts)
  then obtain s where s: "kv_run {''h:1'', ''h:2''} hset_sample (\<lambda>_. '''') ?evs (kv_start cluster_sample) = Some s" "(''h:1'', 1, 1) \<in> set (kWins s)"
    by blast
  then have "(''h:2'', 1, 1) \<notin> set (kWins s)"
    using kv_one_leader_per_term [OF _ cluster_sample_created, of hset_sample "\<lambda>_. ''''" ?evs s "''h:2''" 1 "''h:1''"] by auto
  with s show ?thesis by blast
qed

subsection \<open>A disturbed election\<close>

text \<open>
  Three nodes. The first begins an election of term 1 and gets the vote of the third. While its other call is pending, the second fails in term 1
  and gets both other votes in term 2; then the pending call fails and the first election ends.
\<close>

definition disturbed_run :: "string \<Rightarrow> string \<Rightarrow> kv_event list" where
  "disturbed_run a b =
     [Begins a, Dials a 0 0 True, Dials a 1 1 True, Calls a 0, Calls a 1, Answered a 1 0, Counts a 1,
      Begins b, Dials b 0 0 True, Dials b 1 1 True, Calls b 0, Calls b 1, Fails b 0 ''timeout'', Fails b 1 ''timeout'', Counts b 0, Counts b 1, Ends b,
      Begins b, Dials b 0 0 True, Dials b 1 1 True, Calls b 0, Calls b 1, Answered b 0 0, Answered b 1 0, Counts b 0, Counts b 1, Ends b,
      Fails a 0 ''timeout'', Counts a 0, Ends a]"

lemma three_nodes:
  assumes "\<And>i. i < length [x, y, z] \<Longrightarrow> CreateNode connect [x, y, z] (int i) = Some (net (Address ([x, y, z] ! i)))"
  shows "CreateNode connect [x, y, z] 0 = Some (net (Address x))" "CreateNode connect [x, y, z] 1 = Some (net (Address y))"
    "CreateNode connect [x, y, z] 2 = Some (net (Address z))"
  using assms [of 0] assms [of 1] assms [of 2] by simp_all

text \<open>
  C36: a disturbed election makes a second leader. Of three created nodes, the first begins an election in term 1 and gets the vote of the third. While it waits for
  its other goroutine, its handler accepts the second node as candidate of term 2, which also the third accepts, and the second node becomes leader of term 2. When
  the wait ends, the first node has two votes of three and becomes leader although the votes were for term 1: both are then leaders with term 2. Every
  handler ran alone.
\<close>

theorem kv_two_leaders_one_term:
  assumes "distinct (map Address [x, y, z])"
    and "\<And>i. i < length [x, y, z] \<Longrightarrow> CreateNode connect [x, y, z] (int i) = Some (net (Address ([x, y, z] ! i)))"
  shows "\<exists>s. kv_run (set (map Address [x, y, z])) hset json (disturbed_run (Address x) (Address y)) (kv_start net) = Some s \<and>
    kWins s = [(Address x, 1, 2), (Address y, 2, 2)] \<and>
    nState (kNode s (Address x)) = StateLeader \<and> nTerm (kNode s (Address x)) = 2 \<and>
    nState (kNode s (Address y)) = StateLeader \<and> nTerm (kNode s (Address y)) = 2"
proof -
  have d: "Address x \<noteq> Address y" "Address x \<noteq> Address z" "Address y \<noteq> Address z"
      "Address y \<noteq> Address x" "Address z \<noteq> Address x" "Address z \<noteq> Address y"
    using assms(1) by auto
  note nodes = three_nodes [OF assms(2), unfolded CreateNode_def go_nth_def otherNodes_def, simplified]
  note nodes = nodes [symmetric]
  show ?thesis
    by (simp add: disturbed_run_def kv_eval nodes d)
qed


definition cluster3_sample :: "unit cluster" where
  "cluster3_sample a = (if a = Address (cfg_sample 1) then node3_of 0 else if a = Address (cfg_sample 2) then node3_of 1 else node3_of 2)"

theorem kv_two_leaders_one_term_witness:
  "\<exists>s. kv_run {''h:1'', ''h:2'', ''h:3''} hset_sample (\<lambda>_. '''') (disturbed_run ''h:1'' ''h:2'') (kv_start cluster3_sample) = Some s \<and>
    kWins s = [(''h:1'', 1, 2), (''h:2'', 2, 2)] \<and> nState (kNode s ''h:1'') = StateLeader \<and> nState (kNode s ''h:2'') = StateLeader"
proof -
  have addr: "Address (cfg_sample 3) = ''h:3''" by code_simp
  have "CreateNode (\<lambda>_. ()) [cfg_sample 1, cfg_sample 2, cfg_sample 3] (int i) =
      Some (cluster3_sample (Address ([cfg_sample 1, cfg_sample 2, cfg_sample 3] ! i)))" if "i < length [cfg_sample 1, cfg_sample 2, cfg_sample 3]" for i
    using that by (auto simp: less_Suc_eq cluster3_sample_def addr node3_of_def CreateNode_def go_nth_def)
  from kv_two_leaders_one_term [OF _ this, of hset_sample "\<lambda>_. ''''"] show ?thesis
    by (auto simp: addr)
qed

end
