(* ===== verification/KV_Log_Matching.thy ===== *)
theory KV_Log_Matching
  imports KV_Cluster
begin

section \<open>The key-value node: log matching\<close>

text \<open>
  The items of several nodes that append to each other. Any node may be given entries by clients and may send any of its items to the others, as
  \<^verbatim>\<open>SendAppendEntry\<close> and the loop it starts do; the requests are handled in any order, repeatedly, late or never. The handler \<^verbatim>\<open>Append\<close> is one step.
  As long as clients do not make two entries of one index and term, two nodes that have an item of the same index and term have the same
  items up to it. This is what the check of \<^verbatim>\<open>PreIndex\<close> and \<^verbatim>\<open>PreTerm\<close> in \<^verbatim>\<open>Append\<close> is for.
\<close>

subsection \<open>Steps\<close>

text \<open>
  The nodes, the requests that were sent, each with the items of its sender up to the one it carries, which no step reads, and the index and term of the entries that clients have made.
  A node gets a new entry from a client; it sends one of its items; a node handles a request; or it does anything else, which leaves its items alone.
\<close>

type_synonym 'db append_net = "'db cluster \<times> (AppendEntryRequest \<times> Item list) set \<times> (uint32 \<times> uint32) set"

inductive match_step :: "string set \<Rightarrow> 'db redis_hset \<Rightarrow> (Item \<Rightarrow> string) \<Rightarrow> 'db append_net \<Rightarrow> 'db append_net \<Rightarrow> bool" for A hset json where
  made: "a \<in> A \<Longrightarrow> aeEntry req = Some e \<Longrightarrow> (reIndex e, reTerm e) \<notin> pairs \<Longrightarrow> length (nItemList (net a)) + 2 < 2 ^ 32 \<Longrightarrow>
    Append hset json req (net a) = Some (n, r, err) \<Longrightarrow>
    match_step A hset json (net, reqs, pairs) (net(a := n), reqs, insert (reIndex e, reTerm e) pairs)"
| sent: "a \<in> A \<Longrightarrow> k < length (nItemList (net a)) \<Longrightarrow>
    match_step A hset json (net, reqs, pairs)
      (net, insert (appendRequest (net a) w (nItemList (net a) ! k), take (Suc k) (nItemList (net a))) reqs, pairs)"
| delivered: "a \<in> A \<Longrightarrow> (req, xs) \<in> reqs \<Longrightarrow> Append hset json req (net a) = Some (n, r, err) \<Longrightarrow>
    match_step A hset json (net, reqs, pairs) (net(a := n), reqs, pairs)"
| other: "a \<in> A \<Longrightarrow> nItemList n = nItemList (net a) \<Longrightarrow> match_step A hset json (net, reqs, pairs) (net(a := n), reqs, pairs)"

inductive_cases match_stepE: "match_step A hset json s s'"

subsection \<open>The invariant\<close>

text \<open>The lists of items in play: those of the nodes and those that the requests were made from.\<close>

definition lists_of :: "string set \<Rightarrow> 'db append_net \<Rightarrow> Item list set" where
  "lists_of A s = (case s of (net, reqs, pairs) \<Rightarrow> (\<lambda>a. nItemList (net a)) ` A \<union> snd ` reqs)"

definition pair_of :: "Item \<Rightarrow> uint32 \<times> uint32" where
  "pair_of item = (ucast (itIndex item), ucast (itTerm item))"

definition agrees :: "Item list \<Rightarrow> Item list \<Rightarrow> bool" where
  "agrees xs ys \<longleftrightarrow> (\<forall>k<length xs. k < length ys \<longrightarrow> itTerm (xs ! k) = itTerm (ys ! k) \<longrightarrow> take (Suc k) xs = take (Suc k) ys)"

definition matching :: "Item list set \<Rightarrow> bool" where
  "matching L \<longleftrightarrow> (\<forall>xs\<in>L. \<forall>ys\<in>L. agrees xs ys)"

definition list_ok :: "(uint32 \<times> uint32) set \<Rightarrow> Item list \<Rightarrow> bool" where
  "list_ok pairs xs \<longleftrightarrow> items_ok xs \<and> length xs + 1 < 2 ^ 32 \<and> (\<forall>k<length xs. k = 0 \<or> pair_of (xs ! k) \<in> pairs)"

text \<open>A request carries the last of the items it was made from, and names the one before it.\<close>

definition request_of :: "AppendEntryRequest \<Rightarrow> Item list \<Rightarrow> bool" where
  "request_of req xs \<longleftrightarrow> aeEntry req = Some (entry_of (last xs)) \<and>
     (1 < length xs \<longrightarrow> pair_of (xs ! (length xs - 2)) = (aePreIndex req, aePreTerm req))"

definition match_ok :: "string set \<Rightarrow> 'db append_net \<Rightarrow> bool" where
  "match_ok A s \<longleftrightarrow> (case s of (net, reqs, pairs) \<Rightarrow>
     matching (lists_of A s) \<and> (\<forall>xs\<in>lists_of A s. list_ok pairs xs) \<and> (\<forall>(req, xs)\<in>reqs. request_of req xs))"

lemma agreesD:
  "agrees xs ys \<Longrightarrow> k < length xs \<Longrightarrow> k < length ys \<Longrightarrow> itTerm (xs ! k) = itTerm (ys ! k) \<Longrightarrow> take (Suc k) xs = take (Suc k) ys"
  unfolding agrees_def by blast

lemma agrees_refl: "agrees xs xs"
  unfolding agrees_def by blast

lemma agrees_sym: "agrees xs ys \<Longrightarrow> agrees ys xs"
  unfolding agrees_def by metis

lemma matching_insert: "matching L \<Longrightarrow> (\<And>ys. ys \<in> L \<Longrightarrow> agrees xs ys) \<Longrightarrow> matching (insert xs L)"
  unfolding matching_def using agrees_refl agrees_sym by blast

lemma matching_subset: "matching L \<Longrightarrow> L' \<subseteq> L \<Longrightarrow> matching L'"
  unfolding matching_def by blast

lemma list_ok_mono: "list_ok pairs xs \<Longrightarrow> pairs \<subseteq> pairs' \<Longrightarrow> list_ok pairs' xs"
  unfolding list_ok_def by blast

lemma match_okD:
  assumes "match_ok A (net, reqs, pairs)"
  shows "matching ((\<lambda>a. nItemList (net a)) ` A \<union> snd ` reqs)" "a \<in> A \<Longrightarrow> list_ok pairs (nItemList (net a))"
    "(req, xs) \<in> reqs \<Longrightarrow> list_ok pairs xs" "(req, xs) \<in> reqs \<Longrightarrow> request_of req xs"
proof -
  have ok: "matching ((\<lambda>a. nItemList (net a)) ` A \<union> snd ` reqs)" "\<forall>xs\<in>(\<lambda>a. nItemList (net a)) ` A \<union> snd ` reqs. list_ok pairs xs"
    "\<forall>(req, xs)\<in>reqs. request_of req xs"
    using assms by (simp_all add: match_ok_def lists_of_def)
  show "matching ((\<lambda>a. nItemList (net a)) ` A \<union> snd ` reqs)" by (rule ok(1))
  show "a \<in> A \<Longrightarrow> list_ok pairs (nItemList (net a))" "(req, xs) \<in> reqs \<Longrightarrow> list_ok pairs xs" "(req, xs) \<in> reqs \<Longrightarrow> request_of req xs"
    using ok(2,3) by force+
qed

lemma match_okI:
  assumes "matching L" "(\<lambda>a. nItemList (net a)) ` A \<union> snd ` reqs \<subseteq> L" "\<And>xs. xs \<in> L \<Longrightarrow> list_ok pairs xs"
    "\<And>req xs. (req, xs) \<in> reqs \<Longrightarrow> request_of req xs"
  shows "match_ok A (net, reqs, pairs)"
  using assms matching_subset [OF assms(1,2)] by (fastforce simp: match_ok_def lists_of_def)

text \<open>A list that is cut, and a list that is continued by an item whose index and term nobody has.\<close>

lemma list_ok_take: "list_ok pairs xs \<Longrightarrow> list_ok pairs (take (Suc k) xs)"
  by (auto simp: list_ok_def items_ok_def)

lemma agrees_take:
  assumes "agrees xs ys"
  shows "agrees (take m xs) ys"
  unfolding agrees_def
proof (intro allI impI)
  fix i
  assume i: "i < length (take m xs)" "i < length ys" "itTerm (take m xs ! i) = itTerm (ys ! i)"
  then have "take (Suc i) xs = take (Suc i) ys"
    using agreesD [OF assms, of i] by simp
  then show "take (Suc i) (take m xs) = take (Suc i) ys"
    using i(1) by (simp add: min_absorb1)
qed

lemma agrees_snoc:
  assumes "agrees xs ys" "list_ok pairs ys"
    and new: "pair_of item \<notin> pairs" "unat (itIndex item) = length xs" "xs \<noteq> []"
  shows "agrees (xs @ [item]) ys"
  unfolding agrees_def
proof (intro allI impI)
  fix i
  assume i: "i < length (xs @ [item])" "i < length ys" "itTerm ((xs @ [item]) ! i) = itTerm (ys ! i)"
  show "take (Suc i) (xs @ [item]) = take (Suc i) ys"
  proof (cases "i < length xs")
    case True
    then show ?thesis
      using agreesD [OF assms(1), of i] i(2,3) by (simp add: nth_append)
  next
    case False
    then have len: "i = length xs" using i(1) by simp
    have "items_ok ys" and made: "pair_of (ys ! i) \<in> pairs"
      using assms(2) i(2) len new(3) by (auto simp: list_ok_def)
    then have "itIndex (ys ! i) = itIndex item" "itTerm (ys ! i) = itTerm item"
      using items_okD(1) [OF _ i(2)] len new(2) i(3) by (simp_all add: word_unat_eq_iff)
    then show ?thesis
      using made new(1) by (simp add: pair_of_def)
  qed
qed

subsection \<open>The steps keep the invariant\<close>

lemma made_keeps:
  assumes ok: "match_ok A (net, reqs, pairs)" and a: "a \<in> A" "aeEntry req = Some e" "(reIndex e, reTerm e) \<notin> pairs"
    and len: "length (nItemList (net a)) + 2 < 2 ^ 32" and app: "Append hset json req (net a) = Some (n, r, err)"
  shows "match_ok A (net(a := n), reqs, insert (reIndex e, reTerm e) pairs)"
proof -
  let ?L = "(\<lambda>a. nItemList (net a)) ` A \<union> snd ` reqs" and ?pairs = "insert (reIndex e, reTerm e) pairs"
  define item where "item = \<lparr>itIndex = ucast (reIndex e), itTerm = ucast (reTerm e), itLog = reValue e\<rparr>"
  note inv = match_okD [OF ok]
  have L: "list_ok pairs ys" if "ys \<in> ?L" for ys
    using that inv(2,3) by force
  have xs: "items_ok (nItemList (net a))" "length (nItemList (net a)) + 1 < 2 ^ 32"
    using inv(2) [OF a(1)] by (simp_all add: list_ok_def)
  from Append_items [OF app xs] consider "nItemList n = nItemList (net a)" |
    "unat (reIndex e) = length (nItemList (net a))" "nItemList n = nItemList (net a) @ [item]"
    using a(2) by (auto simp: item_def)
  then show ?thesis
  proof cases
    case 1
    show ?thesis
      by (rule match_okI [OF inv(1)]) (use 1 a(1) L inv(4) in \<open>auto intro: list_ok_mono\<close>)
  next
    case 2
    have pair: "pair_of item = (reIndex e, reTerm e)" "unat (itIndex item) = length (nItemList (net a))" "nItemList (net a) \<noteq> []"
      using 2 xs(1) by (simp_all add: item_def pair_of_def unat_ucast64 items_ok_def)
    have "matching (insert (nItemList n) ?L)"
      unfolding 2(2)
    proof (rule matching_insert [OF inv(1)])
      fix ys
      assume ys: "ys \<in> ?L"
      then have "agrees (nItemList (net a)) ys"
        using inv(1) a(1) by (auto simp: matching_def)
      then show "agrees (nItemList (net a) @ [item]) ys"
        using agrees_snoc [OF _ L [OF ys]] pair a(3) by simp
    qed
    moreover have "list_ok ?pairs (nItemList n)"
      using list_ok_mono [OF inv(2) [OF a(1)]] Append_items_ok(1) [OF app xs] len 2(2) pair(1)
      by (auto simp: list_ok_def nth_append)
    moreover have "list_ok ?pairs ys" if "ys \<in> ?L" for ys
      using L [OF that] by (rule list_ok_mono) blast
    ultimately show ?thesis
      using inv(4) by (intro match_okI [of "insert (nItemList n) ?L"]) auto
  qed
qed

lemma sent_request_of:
  assumes "list_ok pairs (nItemList n)" "k < length (nItemList n)"
  shows "request_of (appendRequest n w (nItemList n ! k)) (take (Suc k) (nItemList n))"
proof -
  have "items_ok (nItemList n)" using assms(1) by (simp add: list_ok_def)
  then have "0 < k \<Longrightarrow> GetPreItem n (Some (nItemList n ! k)) = nItemList n ! (k - 1)"
    using GetPreItem_nth assms(2) by blast
  moreover have "last (take (Suc k) (nItemList n)) = nItemList n ! k"
    using assms(2) by (simp add: take_Suc_conv_app_nth)
  ultimately show ?thesis
    using assms(2) by (simp add: request_of_def appendRequest_def entry_of_def pair_of_def min_absorb2 Let_def)
qed

lemma sent_keeps:
  assumes ok: "match_ok A (net, reqs, pairs)" and a: "a \<in> A" "k < length (nItemList (net a))"
  shows "match_ok A (net, insert (appendRequest (net a) w (nItemList (net a) ! k), take (Suc k) (nItemList (net a))) reqs, pairs)"
proof (rule match_okI)
  let ?L = "(\<lambda>a. nItemList (net a)) ` A \<union> snd ` reqs"
  note inv = match_okD [OF ok]
  show "matching (insert (take (Suc k) (nItemList (net a))) ?L)"
  proof (rule matching_insert [OF inv(1)])
    fix ys
    assume "ys \<in> ?L"
    then have "agrees (nItemList (net a)) ys"
      using inv(1) a(1) unfolding matching_def by blast
    then show "agrees (take (Suc k) (nItemList (net a))) ys"
      by (rule agrees_take)
  qed
  show "list_ok pairs xs" if "xs \<in> insert (take (Suc k) (nItemList (net a))) ?L" for xs
    using that inv(2) [OF a(1)] inv(2,3) by (force intro: list_ok_take)
  show "request_of req xs" if "(req, xs) \<in> insert (appendRequest (net a) w (nItemList (net a) ! k), take (Suc k) (nItemList (net a))) reqs" for req xs
    using that inv(4) sent_request_of [OF inv(2) [OF a(1)] a(2)] by auto
qed auto

lemma entry_of_item:
  assumes "unat (itIndex item) < 2 ^ 32" "unat (itTerm item) < 2 ^ 32"
  shows "\<lparr>itIndex = ucast (reIndex (entry_of item)), itTerm = ucast (reTerm (entry_of item)), itLog = reValue (entry_of item)\<rparr> = item"
  using ucast_64_32(1) [OF assms(1)] ucast_64_32(1) [OF assms(2)] by (simp add: entry_of_def)

text \<open>An accepted request turns the items of the node into those that the request was made from.\<close>

lemma delivered_items:
  assumes ys: "list_ok pairs (nItemList n)" and xs: "list_ok pairs xs" "request_of req xs" and "agrees (nItemList n) xs"
    and app: "Append hset json req n = Some (n', r, err)"
  shows "nItemList n' = nItemList n \<or> nItemList n' = xs"
proof -
  have items: "items_ok (nItemList n)" "length (nItemList n) + 1 < 2 ^ 32" "items_ok xs"
    using ys xs(1) by (simp_all add: list_ok_def)
  define k where "k = length xs - 1"
  have k: "k < length xs" "last xs = xs ! k" and y: "nItemList n \<noteq> []"
    using items by (auto simp: k_def items_ok_def last_conv_nth)
  note last = items_okD [OF items(3) k(1)]
  have same: "\<lparr>itIndex = ucast (reIndex (entry_of (last xs))), itTerm = ucast (reTerm (entry_of (last xs))), itLog = reValue (entry_of (last xs))\<rparr> = last xs"
    using entry_of_item [of "last xs"] last k(2) by simp
  show ?thesis
  proof (cases "arAccept r")
    case False
    then show ?thesis using Append_effect [OF app] by simp
  next
    case True
    then have acc: "itTerm (GetTailItem n) = ucast (aePreTerm req)" "nItemList n' = nItemList n @ [last xs]"
      using Append_effect [OF app] xs(2) same by (auto simp: request_of_def)
    then have "unat (reIndex (entry_of (last xs))) = length (nItemList n)"
      using Append_items [OF app items(1,2)] xs(2) by (auto simp: request_of_def)
    then have len: "k = length (nItemList n)"
      using last k(2) ucast_64_32(2) [of "itIndex (last xs)"] by (simp add: entry_of_def)
    then have "0 < k" using y by simp
    then have "1 < length xs" "length xs - 2 = k - 1" using k(1) by (auto simp: k_def)
    then have "pair_of (xs ! (k - 1)) = (aePreIndex req, aePreTerm req)"
      using xs(2) unfolding request_of_def by metis
    then have "itTerm (last (nItemList n)) = itTerm (xs ! (k - 1))"
      using acc(1) y items_okD(2) [OF items(3), of "k - 1"] k(1) ucast_64_32(1) [of "itTerm (xs ! (k - 1))"]
      by (auto simp: pair_of_def GetTailItem_last)
    then have "take (Suc (k - 1)) (nItemList n) = take (Suc (k - 1)) xs"
      using agreesD [OF assms(4), of "k - 1"] len k(1) y by (simp add: last_conv_nth)
    then have "nItemList n = take k xs"
      using len \<open>0 < k\<close> by simp
    then show ?thesis
      using acc(2) k by (simp add: take_Suc_conv_app_nth [symmetric] k_def)
  qed
qed

lemma delivered_keeps_match:
  assumes ok: "match_ok A (net, reqs, pairs)" and a: "a \<in> A" "(req, xs) \<in> reqs" "Append hset json req (net a) = Some (n, r, err)"
  shows "match_ok A (net(a := n), reqs, pairs)"
proof -
  note inv = match_okD [OF ok]
  have "agrees (nItemList (net a)) xs"
    using inv(1) a(1,2) by (force simp: matching_def)
  from delivered_items [OF inv(2) [OF a(1)] inv(3,4) [OF a(2)] this a(3)]
  have "(\<lambda>b. nItemList ((net(a := n)) b)) ` A \<union> snd ` reqs \<subseteq> (\<lambda>a. nItemList (net a)) ` A \<union> snd ` reqs"
    using a(1,2) by force
  then show ?thesis
    by (rule match_okI [OF inv(1)]) (use inv(2-4) in force)+
qed

lemma match_step_keeps: "match_ok A s \<Longrightarrow> match_step A hset json s s' \<Longrightarrow> match_ok A s'"
proof (erule match_stepE)
  fix a n net reqs pairs
  assume "match_ok A s" "s = (net, reqs, pairs)" "s' = (net(a := n), reqs, pairs)" "a \<in> A" "nItemList n = nItemList (net a)"
  moreover from this have "(\<lambda>b. nItemList ((net(a := n)) b)) = (\<lambda>b. nItemList (net b))"
    by auto
  ultimately show "match_ok A s'"
    by (simp only: match_ok_def lists_of_def prod.case) blast
qed (auto intro: made_keeps sent_keeps delivered_keeps_match)

interpretation log_matching: step_invariant "match_step A hset json" "match_ok A" for A hset json
  by unfold_locales (rule match_step_keeps)


subsection \<open>The theorem\<close>

text \<open>
  C4: log matching. From created nodes on, whatever entries clients give to which nodes, as long as no index and term is used for two entries, whatever items
  the nodes send to each other, and however the requests are delayed, repeated, reordered or lost: when an item of one node and an
  item of another have the same index and term, they are at the same position and the two nodes have the same items up to it. Handlers run one at a
  time, and the items of a node stay fewer than \<open>2 ^ 32\<close>.
\<close>

theorem kv_log_matching:
  assumes "\<And>a. a \<in> A \<Longrightarrow> \<exists>i. CreateNode connect cfgs i = Some (net0 a)"
    and "(match_step A hset json)\<^sup>*\<^sup>* (net0, {}, {}) (net, reqs, pairs)"
    and "a \<in> A" "i < length (nItemList (net a))" "b \<in> A" "j < length (nItemList (net b))"
    and "itIndex (nItemList (net a) ! i) = itIndex (nItemList (net b) ! j)" "itTerm (nItemList (net a) ! i) = itTerm (nItemList (net b) ! j)"
  shows "i = j \<and> take (Suc i) (nItemList (net a)) = take (Suc i) (nItemList (net b))"
proof -
  have "nItemList (net0 a) = [\<lparr>itIndex = 0, itTerm = 0, itLog = ''init''\<rparr>]" if "a \<in> A" for a
    using assms(1) [OF that] CreateNode_items(1) by blast
  then have "match_ok A (net0, {}, {})"
    by (intro match_okI [of "{[\<lparr>itIndex = 0, itTerm = 0, itLog = ''init''\<rparr>]}"])
      (auto simp: matching_def agrees_refl list_ok_def items_ok_def)
  then have "match_ok A (net, reqs, pairs)"
    by (rule log_matching.run_keeps [OF assms(2)])
  note inv = match_okD [OF this]
  have "unat (itIndex (nItemList (net a) ! i)) = i" "unat (itIndex (nItemList (net b) ! j)) = j"
    using inv(2) [OF assms(3)] inv(2) [OF assms(5)] items_okD(1) assms(4,6) by (auto simp: list_ok_def)
  then have "i = j" using assms(7) by simp
  moreover have "agrees (nItemList (net a)) (nItemList (net b))"
    using inv(1) assms(3,5) unfolding matching_def by blast
  ultimately show ?thesis
    using agreesD assms(4,6,8) by blast
qed

text \<open>The first of two nodes gets an entry and sends it, and the second handles the request.\<close>

lemma sample_appends:
  assumes "nItemList n = [\<lparr>itIndex = 0, itTerm = 0, itLog = ''init''\<rparr>]"
    and "aeEntry req = Some \<lparr>reTerm = 1, reIndex = 1, reValue = ''x''\<rparr>" "aePreTerm req = 0" "aePreIndex req = 0"
  shows "\<exists>n' r. Append hset_sample (\<lambda>_. '''') req n = Some (n', r, None) \<and>
    nItemList n' = [\<lparr>itIndex = 0, itTerm = 0, itLog = ''init''\<rparr>, \<lparr>itIndex = 1, itTerm = 1, itLog = ''x''\<rparr>]"
  using assms by (simp add: Append_def appendItem_def hset_sample_def GetTailItem_def RpcEntry_get_def SetState_def Let_def)

theorem kv_log_matching_witness:
  "\<exists>net reqs pairs. (match_step {''h:1'', ''h:2''} hset_sample (\<lambda>_. ''''))\<^sup>*\<^sup>* (cluster_sample, {}, {}) (net, reqs, pairs) \<and> reqs \<noteq> {} \<and>
    length (nItemList (net ''h:2'')) = 2 \<and> take 2 (nItemList (net ''h:1'')) = take 2 (nItemList (net ''h:2''))"
proof -
  let ?A = "{''h:1'', ''h:2''} :: string set" and ?step = "match_step {''h:1'', ''h:2''} hset_sample (\<lambda>_. [])"
  define e where "e = \<lparr>reTerm = 1, reIndex = 1, reValue = ''x''\<rparr>"
  define req where "req = \<lparr>aeEntry = Some e, aePreTerm = 0, aePreIndex = 0, aeCommitIndex = 0, aeFrom = nId (node_of 0)\<rparr>"
  define two where "two = [\<lparr>itIndex = 0, itTerm = 0, itLog = ''init''\<rparr>, \<lparr>itIndex = 1, itTerm = 1, itLog = ''x''\<rparr>]"
  define w where "w = hd (nOtherNodeList (node_of 0))"
  have start: "cluster_sample ''h:1'' = node_of 0" "cluster_sample ''h:2'' = node_of 1"
    by (simp_all add: cluster_sample_def)
  obtain l r where l: "Append hset_sample (\<lambda>_. []) req (node_of 0) = Some (l, r, None)" "nItemList l = two"
    using sample_appends [of "node_of 0" req] by (auto simp: node_of_parts req_def e_def two_def)
  have 1: "?step (cluster_sample, {}, {}) (cluster_sample(''h:1'' := l), {}, {(1, 1)})"
    using made [of "''h:1''" ?A req e "{}" cluster_sample hset_sample "\<lambda>_. []" l r None] l(1) start by (simp add: req_def e_def node_of_parts)
  define net1 where "net1 = cluster_sample(''h:1'' := l)"
  define snd_req where "snd_req = appendRequest l w (nItemList l ! 1)"
  have 2: "?step (net1, {}, {(1, 1)}) (net1, {(snd_req, take 2 two)}, {(1, 1)})"
    using sent [of "''h:1''" ?A 1 net1 hset_sample "\<lambda>_. []" "{}" "{(1, 1)}" w] l(2)
    by (simp add: net1_def snd_req_def two_def)
  have "aeEntry snd_req = Some e" "aePreTerm snd_req = 0" "aePreIndex snd_req = 0"
    using l(2) by (simp_all add: snd_req_def appendRequest_def GetPreItem_def two_def e_def)
  then obtain f r2 where f: "Append hset_sample (\<lambda>_. []) snd_req (node_of 1) = Some (f, r2, None)" "nItemList f = two"
    using sample_appends [of "node_of 1" snd_req] by (auto simp: node_of_parts e_def two_def)
  have 3: "?step (net1, {(snd_req, take 2 two)}, {(1, 1)}) (net1(''h:2'' := f), {(snd_req, take 2 two)}, {(1, 1)})"
    by (rule delivered [OF _ _ ]) (use f(1) start in \<open>auto simp: net1_def\<close>)
  have steps: "?step\<^sup>*\<^sup>* (cluster_sample, {}, {}) (net1(''h:2'' := f), {(snd_req, take 2 two)}, {(1, 1)})"
    using 1 2 3 unfolding net1_def by (meson converse_rtranclp_into_rtranclp rtranclp.rtrancl_refl)
  have created: "\<exists>i. CreateNode (\<lambda>_. ()) [cfg_sample 1, cfg_sample 2] i = Some (cluster_sample a)" if "a \<in> ?A" for a
    using that start by (auto simp: node_of_def CreateNode_def go_nth_def intro: exI [of _ 0] exI [of _ 1])
  have "take 2 (nItemList ((net1(''h:2'' := f)) ''h:1'')) = take 2 (nItemList ((net1(''h:2'' := f)) ''h:2''))"
    using kv_log_matching [OF created steps, of "''h:1''" 1 "''h:2''" 1] l(2) f(2) by (simp add: net1_def two_def numeral_2_eq_2)
  then show ?thesis
    using steps f(2) by (intro exI [of _ "net1(''h:2'' := f)"] exI [of _ "{(snd_req, take 2 two)}"] exI [of _ "{(1, 1)}"]) (simp add: two_def)
qed

end
