(* ===== verification/KV_Race.thy ===== *)
theory KV_Race
  imports KV_Cluster
begin

section \<open>The key-value node: goroutines that interleave\<close>

text \<open>
  gRPC serves every request in a goroutine of its own, and \<^verbatim>\<open>AppendEntry\<close> starts goroutines that share the node; the handlers \<^verbatim>\<open>Election\<close> and \<^verbatim>\<open>Append\<close> (\<^verbatim>\<open>node_server.go\<close>) and
  the end of \<^verbatim>\<open>SendAppendEntry\<close> (\<^verbatim>\<open>node_client.go\<close>) read and write it without a lock.
  Here each of them is cut into its accesses to the shared node: a program point per statement, and a function
  that runs the statement at a point. Run alone, the steps are the atomic operations of \<open>KV_Node\<close> and \<open>KV_Client\<close>, on which the theorems on elections
  and replication rest. When the steps of two goroutines interleave, two handlers can accept in the same term, and then two candidates win;
  two can store the same entry, and then the node has two items of one index; and a leader can count an index as accepted that
  no node has.
\<close>

subsection \<open>Two threads on one node\<close>

text \<open>A thread is a partial function from its program point and the shared state; \<^term>\<open>None\<close> is a panic.\<close>

type_synonym ('n, 'p) thread = "'p \<Rightarrow> 'n \<Rightarrow> ('n \<times> 'p) option"

fun thread_run :: "('n, 'p) thread \<Rightarrow> nat \<Rightarrow> 'n \<times> 'p \<Rightarrow> ('n \<times> 'p) option" where
  "thread_run th 0 s = Some s"
| "thread_run th (Suc k) s = do { s' \<leftarrow> th (snd s) (fst s); thread_run th k s' }"

inductive interleave :: "('n, 'p) thread \<Rightarrow> ('n, 'q) thread \<Rightarrow> 'n \<times> 'p \<times> 'q \<Rightarrow> 'n \<times> 'p \<times> 'q \<Rightarrow> bool" for a b where
  first: "a p n = Some (n', p') \<Longrightarrow> interleave a b (n, p, q) (n', p', q)"
| second: "b q n = Some (n', q') \<Longrightarrow> interleave a b (n, p, q) (n', p, q')"

inductive_cases interleaveE: "interleave a b s s'"

lemma first_steps: "thread_run a k (n, p) = Some (n', p') \<Longrightarrow> (interleave a b)\<^sup>*\<^sup>* (n, p, q) (n', p', q)"
proof (induction k arbitrary: n p)
  case (Suc k)
  then obtain n1 p1 where 1: "a p n = Some (n1, p1)" "thread_run a k (n1, p1) = Some (n', p')"
    by (auto simp: bind_Some_iff)
  then show ?case
    using first [where a = a and b = b, OF 1(1)] Suc.IH by (meson converse_rtranclp_into_rtranclp)
qed simp

lemma second_steps: "thread_run b k (n, q) = Some (n', q') \<Longrightarrow> (interleave a b)\<^sup>*\<^sup>* (n, p, q) (n', p, q')"
proof (induction k arbitrary: n q)
  case (Suc k)
  then obtain n1 q1 where 1: "b q n = Some (n1, q1)" "thread_run b k (n1, q1) = Some (n', q')"
    by (auto simp: bind_Some_iff)
  then show ?case
    using second [where a = a and b = b, OF 1(1)] Suc.IH by (meson converse_rtranclp_into_rtranclp)
qed simp

text \<open>The first thread stops at a point, the second runs from its start to its end, and the first goes on.\<close>

lemma interleave_runs:
  assumes "thread_run a k (n, p) = Some (n1, p1)" "thread_run b j (n1, q) = Some (n2, q1)"
    and "thread_run a k' (n2, p1) = Some (n3, p2)" "thread_run b j' (n3, q1) = Some (n4, q2)"
  shows "(interleave a b)\<^sup>*\<^sup>* (n, p, q) (n4, p2, q2)"
  using first_steps [OF assms(1)] second_steps [OF assms(2)] first_steps [OF assms(3)] second_steps [OF assms(4)]
  by (meson rtranclp_trans)

subsection \<open>The statements of Election\<close>

(* node/node_server.go 34-58 Node.Election *)
datatype election_pc = Entered | CheckTerm | CheckTail | SetTerm | SetLeader | Follow | Answer bool | Replied ElectionReply

(* node/node_server.go 34-58 Node.Election *)
fun electionStep :: "int \<Rightarrow> ElectionRequest \<Rightarrow> election_pc \<Rightarrow> 'db Node \<Rightarrow> 'db Node \<times> election_pc" where
  "electionStep now inp Entered n = (n\<lparr>nHeartBeat := now\<rparr>, CheckTerm)"
| "electionStep now inp CheckTerm n = (n, if nTerm n < ucast (erqTerm inp) then CheckTail else Answer False)"
| "electionStep now inp CheckTail n =
     (n, if ucast (itIndex (GetTailItem n)) > erqIndex inp then Answer False else SetTerm)"
| "electionStep now inp SetTerm n = (n\<lparr>nTerm := ucast (erqTerm inp)\<rparr>, SetLeader)"
| "electionStep now inp SetLeader n = (n\<lparr>nLeaderId := erqNodeId inp\<rparr>, Follow)"
| "electionStep now inp Follow n = (SetState StateFollower n, Answer True)"
| "electionStep now inp (Answer accept) n =
     (n, Replied \<lparr>erpAccept = accept, erpNodeId = '''', erpTerm = ucast (nTerm n), erpIndex = ucast (nConfigIndex n)\<rparr>)"
| "electionStep now inp (Replied r) n = (n, Replied r)"

abbreviation election_thread :: "int \<Rightarrow> ElectionRequest \<Rightarrow> ('db Node, election_pc) thread" where
  "election_thread now inp \<equiv> (\<lambda>p n. Some (electionStep now inp p n))"

text \<open>Run alone, the steps are the handler: seven of them are enough on every path.\<close>

lemma GetTailItem_heartbeat [simp]: "GetTailItem (n\<lparr>nHeartBeat := t\<rparr>) = GetTailItem n"
  by (simp add: GetTailItem_def)

lemma election_thread_Election:
  "thread_run (election_thread now inp) 7 (n, Entered) = (case Election now inp n of (n', r) \<Rightarrow> Some (n', Replied r))"
  by (simp add: eval_nat_numeral Election_def Let_def)

subsection \<open>Two election requests\<close>

text \<open>Both handlers check the term before one of them writes it.\<close>

lemma race_accepts_both:
  assumes "nTerm n < ucast (erqTerm a)" "erqTerm b = erqTerm a"
    and "ucast (itIndex (GetTailItem n)) \<le> erqIndex a" "ucast (itIndex (GetTailItem n)) \<le> erqIndex b"
  shows "\<exists>n' ra rb. (interleave (election_thread now a) (election_thread now b))\<^sup>*\<^sup>* (n, Entered, Entered) (n', Replied ra, Replied rb) \<and>
    erpAccept ra \<and> erpAccept rb \<and> nTerm n' = ucast (erqTerm a) \<and> nLeaderId n' = erqNodeId b"
proof -
  let ?n = "n\<lparr>nHeartBeat := now\<rparr>"
  have start: "thread_run (election_thread now a) 3 (n, Entered) = Some (?n, SetTerm)"
    "thread_run (election_thread now b) 3 (?n, Entered) = Some (?n, SetTerm)"
    using assms by (simp_all add: eval_nat_numeral not_less)
  obtain n1 ra where 1: "thread_run (election_thread now a) 4 (?n, SetTerm) = Some (n1, Replied ra)" "erpAccept ra"
    by (simp add: eval_nat_numeral SetState_def)
  obtain n2 rb where 2: "thread_run (election_thread now b) 4 (n1, SetTerm) = Some (n2, Replied rb)" "erpAccept rb"
    "nTerm n2 = ucast (erqTerm b)" "nLeaderId n2 = erqNodeId b"
    by (simp add: eval_nat_numeral SetState_def)
  show ?thesis
    using interleave_runs [OF start 1(1) 2(1)] 1(2) 2(2-4) assms(2) by auto
qed

lemma atomic_accepts_one:
  assumes "Election now a n = (n1, ra)" "Election now' b n1 = (n2, rb)" "erpAccept ra" "erqTerm b = erqTerm a"
  shows "\<not> erpAccept rb"
  using assms by (auto simp: Election_def Let_def SetState_def split: if_splits)

text \<open>An election in which no handler of the candidate runs, given the result of the call of each goroutine in the order in which they are handled.\<close>

(* node/node.go 241-273 Node.election *)
definition election_with :: "(string + ElectionReply) list \<Rightarrow> 'db Node \<Rightarrow> 'db Node \<times> bool" where
  "election_with results n = election_end (fold electionResult results (election_begin n))"

lemma electionResult_oath:
  "nOathAcceptNum (electionResult res n) = nOathAcceptNum n + (case res of Inl err \<Rightarrow> 0 | Inr r \<Rightarrow> if erpAccept r then 1 else 0)"
  "nTerm (electionResult res n) = nTerm n" "nConfig (electionResult res n) = nConfig n"
  by (auto simp: electionResult_def AddOathAcceptNum_def SetState_def split: sum.split)

lemma election_results:
  "nTerm (fold electionResult rs n) = nTerm n \<and> nConfig (fold electionResult rs n) = nConfig n \<and> nOathAcceptNum n \<le> nOathAcceptNum (fold electionResult rs n) \<and>
    (Inr r \<in> set rs \<and> erpAccept r \<longrightarrow> nOathAcceptNum n + 1 \<le> nOathAcceptNum (fold electionResult rs n))"
proof (induction rs arbitrary: n)
  case (Cons x rs)
  show ?case
    using Cons [of "electionResult x n"] by (auto simp: electionResult_oath split: sum.splits if_splits)
qed simp

text \<open>A candidate in a group of three wins when one of the results is an accepting reply, whatever the other is.\<close>

lemma election_one_vote:
  assumes "length (nConfig n) = 3" "Inr r \<in> set rs" "erpAccept r"
  shows "\<exists>n'. election_with rs n = (n', True) \<and> nTerm n' = nTerm n + 1 \<and> nState n' = StateLeader"
proof -
  have "nTerm (election_begin n) = nTerm n + 1" "nConfig (election_begin n) = nConfig n" "nOathAcceptNum (election_begin n) = 1"
    by (simp_all add: election_begin_def SetOathAcceptNum_def Let_def)
  then show ?thesis
    using election_results [of rs "election_begin n" r] assms by (simp add: election_with_def election_end_def GetOathAcceptNum_def SetState_def)
qed

text \<open>
  C35: two leaders in one term. In a group of three, let two candidates of the same term ask the third node for its vote, the
  node being in an earlier or the same term as they were and not ahead of their logs. Handled one after the
  other, at most one of the requests is accepted. When the two handlers interleave, both can be
  accepted; and then, whatever the call of the other goroutine of each candidate brings, both candidates win their election and become leader in the same term.
\<close>

theorem kv_race_elects_two:
  assumes "nTerm a = nTerm b" "unat (nTerm a) + 1 < 2 ^ 32" "nTerm v \<le> nTerm a"
    and "length (nConfig a) = 3" "length (nOtherNodeList a) = 2" "length (nConfig b) = 3" "length (nOtherNodeList b) = 2"
    and "qa = electionRequest (election_begin a)" "qb = electionRequest (election_begin b)"
    and "ucast (itIndex (GetTailItem v)) \<le> erqIndex qa" "ucast (itIndex (GetTailItem v)) \<le> erqIndex qb"
  shows "(\<exists>v' ra rb. (interleave (election_thread now qa) (election_thread now qb))\<^sup>*\<^sup>* (v, Entered, Entered) (v', Replied ra, Replied rb) \<and>
      (\<forall>rsa rsb. length rsa = length (nOtherNodeList a) \<and> Inr ra \<in> set rsa \<and> length rsb = length (nOtherNodeList b) \<and> Inr rb \<in> set rsb \<longrightarrow>
        (\<exists>a' b'. election_with rsa a = (a', True) \<and> election_with rsb b = (b', True) \<and>
          nState a' = StateLeader \<and> nState b' = StateLeader \<and> nTerm a' = nTerm b'))) \<and>
    \<not> (erpAccept (snd (Election now qa v)) \<and> erpAccept (snd (Election now qb (fst (Election now qa v)))))"
proof
  have u: "unat (nTerm a + 1) = unat (nTerm a) + 1"
    using assms(2) unat_add_of_nat64 [of "nTerm a" 1] by simp
  have req: "erqTerm qa = ucast (nTerm a + 1)" "erqTerm qb = erqTerm qa"
    using assms(1,8,9) by (simp_all add: electionRequest_def election_begin_def SetOathAcceptNum_def Let_def)
  then have "ucast (erqTerm qa) = nTerm a + 1"
    using ucast_64_32(1) [of "nTerm a + 1"] u assms(2) by simp
  then have "nTerm v < ucast (erqTerm qa)"
    using assms(3) u by (simp add: word_le_nat_alt word_less_nat_alt)
  then obtain v' ra rb where
    r: "(interleave (election_thread now qa) (election_thread now qb))\<^sup>*\<^sup>* (v, Entered, Entered) (v', Replied ra, Replied rb)"
      "erpAccept ra" "erpAccept rb"
    using race_accepts_both [of v qa qb now] req(2) assms(10,11) by blast
  have "\<exists>a' b'. election_with rsa a = (a', True) \<and> election_with rsb b = (b', True) \<and>
      nState a' = StateLeader \<and> nState b' = StateLeader \<and> nTerm a' = nTerm b'" if "Inr ra \<in> set rsa" "Inr rb \<in> set rsb" for rsa rsb
    using election_one_vote [OF assms(4) that(1) r(2)] election_one_vote [OF assms(6) that(2) r(3)] assms(1) by auto
  with r(1) show "\<exists>v' ra rb. (interleave (election_thread now qa) (election_thread now qb))\<^sup>*\<^sup>* (v, Entered, Entered) (v', Replied ra, Replied rb) \<and>
      (\<forall>rsa rsb. length rsa = length (nOtherNodeList a) \<and> Inr ra \<in> set rsa \<and> length rsb = length (nOtherNodeList b) \<and> Inr rb \<in> set rsb \<longrightarrow>
        (\<exists>a' b'. election_with rsa a = (a', True) \<and> election_with rsb b = (b', True) \<and>
          nState a' = StateLeader \<and> nState b' = StateLeader \<and> nTerm a' = nTerm b'))"
    by blast
  show "\<not> (erpAccept (snd (Election now qa v)) \<and> erpAccept (snd (Election now qb (fst (Election now qa v)))))"
    using atomic_accepts_one [OF prod.collapse [symmetric] prod.collapse [symmetric]] req(2) by blast
qed

theorem kv_race_elects_two_witness:
  "\<exists>v' ra rb a' b'. (interleave (election_thread 0 (electionRequest (election_begin (node3_of 0)))) (election_thread 0 (electionRequest (election_begin (node3_of 1)))))\<^sup>*\<^sup>*
      (node3_of 2, Entered, Entered) (v', Replied ra, Replied rb) \<and>
    election_with [Inl ''timeout'', Inr ra] (node3_of 0) = (a', True) \<and> election_with [Inl ''timeout'', Inr rb] (node3_of 1) = (b', True) \<and>
    nState a' = StateLeader \<and> nState b' = StateLeader \<and> nTerm a' = nTerm b'"
proof -
  have others: "length (nOtherNodeList (node3_of 0)) = 2" "length (nOtherNodeList (node3_of 1)) = 2"
    by (simp_all add: node3_of_def CreateNode_def go_nth_def otherNodes_def)
  have "nTerm (node3_of 0) = nTerm (node3_of 1)" "unat (nTerm (node3_of 0)) + 1 < 2 ^ 32" "nTerm (node3_of 2) \<le> nTerm (node3_of 0)"
    "ucast (itIndex (GetTailItem (node3_of 2))) \<le> erqIndex (electionRequest (election_begin (node3_of 0)))"
    "ucast (itIndex (GetTailItem (node3_of 2))) \<le> erqIndex (electionRequest (election_begin (node3_of 1)))"
    by (simp_all add: node3_of_parts electionRequest_def)
  from kv_race_elects_two [OF this(1-3) _ others(1) _ others(2) refl refl this(4,5), where now = 0] obtain v' ra rb where
    r: "(interleave (election_thread 0 (electionRequest (election_begin (node3_of 0)))) (election_thread 0 (electionRequest (election_begin (node3_of 1)))))\<^sup>*\<^sup>*
      (node3_of 2, Entered, Entered) (v', Replied ra, Replied rb)"
    and wins: "\<forall>rsa rsb. length rsa = 2 \<and> Inr ra \<in> set rsa \<and> length rsb = 2 \<and> Inr rb \<in> set rsb \<longrightarrow>
        (\<exists>a' b'. election_with rsa (node3_of 0) = (a', True) \<and> election_with rsb (node3_of 1) = (b', True) \<and>
          nState a' = StateLeader \<and> nState b' = StateLeader \<and> nTerm a' = nTerm b')"
    using node3_of_parts(2) others by auto
  from wins [rule_format, of "[Inl ''timeout'', Inr ra]" "[Inl ''timeout'', Inr rb]"] show ?thesis
    using r by simp blast
qed

subsection \<open>The statements of Append\<close>

text \<open>
  The points after \<^verbatim>\<open>item\<close> has been read carry it. The reads of the commit index in the last condition and its increment are one access here.
\<close>

(* node/node_server.go 59-100 Node.Append *)
datatype append_pc = AppEntered | AppCheck Item | AppStore Item | AppItem Item | AppTerm Item | AppFollow Item | AppCommit Item
  | AppAnswer Item bool "redis_err option" | AppReplied AppendEntryReply "redis_err option"

definition newItem :: "RpcEntry \<Rightarrow> Item" where
  "newItem e = \<lparr>itIndex = ucast (reIndex e), itTerm = ucast (reTerm e), itLog = reValue e\<rparr>"

(* node/node_server.go 59-100 Node.Append *)
fun appendStep :: "'db redis_hset \<Rightarrow> (Item \<Rightarrow> string) \<Rightarrow> AppendEntryRequest \<Rightarrow> ('db Node, append_pc) thread" where
  "appendStep hset json inp AppEntered n = Some (n, AppCheck (GetTailItem n))"
| "appendStep hset json inp (AppCheck item) n =
     Some (n, if itTerm item = ucast (aePreTerm inp) \<and> itIndex item = ucast (aePreIndex inp) \<and>
                 ucast (itIndex item + 1) = RpcEntry_get reIndex 0 (aeEntry inp)
              then AppStore item else AppAnswer item False None)"
| "appendStep hset json inp (AppStore item) n = do {
     e \<leftarrow> aeEntry inp;
     let (db, err) = hset (GetRedisKey n) (itoa (uint (reIndex e))) (json (newItem e)) (nRdb n);
     Some (n\<lparr>nRdb := db\<rparr>, if err = None \<or> err = Some RedisNil then AppItem item else AppAnswer item False err)
   }"
| "appendStep hset json inp (AppItem item) n = do {
     e \<leftarrow> aeEntry inp;
     Some (n\<lparr>nItemList := nItemList n @ [newItem e]\<rparr>, AppTerm item)
   }"
| "appendStep hset json inp (AppTerm item) n = do {
     e \<leftarrow> aeEntry inp;
     Some (n\<lparr>nTerm := ucast (reTerm e)\<rparr>, AppFollow item)
   }"
| "appendStep hset json inp (AppFollow item) n =
     Some (if nId n \<noteq> aeFrom inp then SetState StateFollower n else n, AppCommit item)"
| "appendStep hset json inp (AppCommit item) n =
     Some (if aeCommitIndex inp = ucast (nCommitIndex n + 1) \<and> itIndex item > nCommitIndex n
           then n\<lparr>nCommitIndex := nCommitIndex n + 1\<rparr> else n, AppAnswer item True None)"
| "appendStep hset json inp (AppAnswer item accept err) n =
     Some (n, AppReplied \<lparr>arAccept = accept, arAppendIndex = if accept then RpcEntry_get reIndex 0 (aeEntry inp) else ucast (itIndex item),
                          arCommitIndex = ucast (nCommitIndex n)\<rparr> err)"
| "appendStep hset json inp (AppReplied r err) n = Some (n, AppReplied r err)"

text \<open>Run alone, the steps are the handler, panics included: eight of them are enough on every path.\<close>

lemma appendStep_Append:
  "thread_run (appendStep hset json inp) 8 (n, AppEntered) =
     map_option (\<lambda>(n', r, err). (n', AppReplied r err)) (Append hset json inp n)"
  by (cases "aeEntry inp")
    (auto simp: eval_nat_numeral Append_def appendItem_def newItem_def Let_def SetState_def RpcEntry_get_def split: prod.splits)

subsection \<open>The same entry twice\<close>

text \<open>
  A request that is repeated while it is being handled, as the catch-up loop and a new call of \<^verbatim>\<open>SendAppendEntry\<close> do, is stored twice. Its first handler
  has passed the check of the tail when the second one reads it; both answer that they have accepted the entry.
\<close>

lemma race_appends_twice:
  fixes n :: "'db Node"
  assumes "\<And>k f v db. snd (hset k f v db) = None" "aeEntry req = Some e"
    and "itTerm (GetTailItem n) = ucast (aePreTerm req)" "itIndex (GetTailItem n) = ucast (aePreIndex req)"
    "ucast (itIndex (GetTailItem n) + 1) = reIndex e"
  shows "\<exists>n' ra rb. (interleave (appendStep hset json req) (appendStep hset json req))\<^sup>*\<^sup>* (n, AppEntered, AppEntered)
      (n', AppReplied ra None, AppReplied rb None) \<and>
    arAccept ra \<and> arAccept rb \<and> nItemList n' = nItemList n @ [newItem e, newItem e]"
proof -
  let ?th = "appendStep hset json req" and ?item = "GetTailItem n"
  have start: "thread_run ?th 2 (n, AppEntered) = Some (n, AppStore ?item)"
    using assms(2-5) by (simp add: eval_nat_numeral RpcEntry_get_def)
  have finish: "\<exists>m' r. thread_run ?th 6 (m, AppStore ?item) = Some (m', AppReplied r None) \<and> arAccept r \<and>
    nItemList m' = nItemList m @ [newItem e]" for m :: "'db Node"
    using assms(1,2) by (auto simp: eval_nat_numeral SetState_def split: prod.splits) (metis snd_conv option.distinct(1))+
  obtain n1 ra where 1: "thread_run ?th 6 (n, AppStore ?item) = Some (n1, AppReplied ra None)" "arAccept ra"
    "nItemList n1 = nItemList n @ [newItem e]"
    using finish by blast
  obtain n2 rb where 2: "thread_run ?th 6 (n1, AppStore ?item) = Some (n2, AppReplied rb None)" "arAccept rb"
    "nItemList n2 = nItemList n1 @ [newItem e]"
    using finish by blast
  show ?thesis
    using interleave_runs [OF start start 1(1) 2(1)] 1(2,3) 2(2,3) by auto
qed

text \<open>The node then holds two items of one index, and its items are no longer a prefix of the sender's.\<close>

theorem kv_race_breaks_items:
  fixes n :: "'db Node"
  assumes "\<And>k f v db. snd (hset k f v db) = None" "aeEntry req = Some e"
    and "itTerm (GetTailItem n) = ucast (aePreTerm req)" "itIndex (GetTailItem n) = ucast (aePreIndex req)"
    "ucast (itIndex (GetTailItem n) + 1) = reIndex e"
  shows "\<exists>n' pa pb. (interleave (appendStep hset json req) (appendStep hset json req))\<^sup>*\<^sup>* (n, AppEntered, AppEntered) (n', pa, pb) \<and>
    \<not> items_ok (nItemList n') \<and> (\<forall>xs. items_ok xs \<longrightarrow> \<not> prefix (nItemList n') xs)"
proof -
  obtain n' ra rb where n': "(interleave (appendStep hset json req) (appendStep hset json req))\<^sup>*\<^sup>* (n, AppEntered, AppEntered)
      (n', AppReplied ra None, AppReplied rb None)" "nItemList n' = nItemList n @ [newItem e, newItem e]"
    using race_appends_twice [where hset = hset, OF assms] by blast
  have "\<not> prefix (nItemList n') xs" if "items_ok xs" for xs
  proof
    let ?k = "length (nItemList n)"
    assume "prefix (nItemList n') xs"
    then have "?k + 1 < length xs" "xs ! ?k = newItem e" "xs ! (?k + 1) = newItem e"
      by (auto simp: n'(2) prefix_def nth_append)
    then show False
      using items_okD(1) [OF that, of ?k] items_okD(1) [OF that, of "?k + 1"] by simp
  qed
  then show ?thesis
    using n'(1) by blast
qed

subsection \<open>The end of SendAppendEntry\<close>

text \<open>
  A goroutine of \<^verbatim>\<open>AppendEntry\<close> whose request was accepted: it records the answer, counts the nodes that have answered more than the accept index, increments the accept
  index when they are enough, and does the same for the commit index. A count is one access here.
\<close>

(* node/node_client.go 105-109 Client.SendAppendEntry *)
datatype ack_pc = AckEntered | AckCountAccept | AckAccept bool | AckCountCommit | AckCommit bool | AckDone

(* node/node.go 275-301 Node.CheckAcceptId *)
fun ackStep :: "nat \<Rightarrow> AppendEntryReply \<Rightarrow> ('db Node, ack_pc) thread" where
  "ackStep t reply AckEntered n = do {
     node \<leftarrow> go_nth (nOtherNodeList n) (int t);
     let node = node\<lparr>wAcceptIndex := ucast (arAppendIndex reply), wCommitIndex := ucast (arCommitIndex reply)\<rparr>;
     Some (n\<lparr>nOtherNodeList := (nOtherNodeList n)[t := node]\<rparr>, AckCountAccept)
   }"
| "ackStep t reply AckCountAccept n =
     Some (n, AckAccept (length (filter (\<lambda>otherNode. wAcceptIndex otherNode > nAcceptIndex n) (nOtherNodeList n)) * 2 > length (nOtherNodeList n) + 1))"
| "ackStep t reply (AckAccept enough) n = Some (if enough then n\<lparr>nAcceptIndex := nAcceptIndex n + 1\<rparr> else n, AckCountCommit)"
| "ackStep t reply AckCountCommit n =
     Some (n, AckCommit (length (filter (\<lambda>otherNode. wCommitIndex otherNode > nCommitIndex n) (nOtherNodeList n)) * 2 > length (nOtherNodeList n) + 1))"
| "ackStep t reply (AckCommit enough) n = Some (if enough then n\<lparr>nCommitIndex := nCommitIndex n + 1\<rparr> else n, AckDone)"
| "ackStep t reply AckDone n = Some (n, AckDone)"

text \<open>Run alone, the five steps are the atomic end of \<^verbatim>\<open>SendAppendEntry\<close>.\<close>

lemma ackStep_Checks:
  "thread_run (ackStep t reply) (Suc (Suc k)) (n, AckCountAccept) = thread_run (ackStep t reply) k (CheckAcceptId n, AckCountCommit)"
  "thread_run (ackStep t reply) (Suc (Suc k)) (n, AckCountCommit) = thread_run (ackStep t reply) k (CheckCommitId n, AckDone)"
  by (simp_all add: CheckAcceptId_def CheckCommitId_def Let_def)

lemma ackStep_recordAppend:
  "thread_run (ackStep t reply) 5 (n, AckEntered) = map_option (\<lambda>n'. (n', AckDone)) (recordAppend t reply n)"
proof -
  have "thread_run (ackStep t reply) 5 (n, AckEntered) =
      do { s \<leftarrow> ackStep t reply AckEntered n; thread_run (ackStep t reply) (Suc (Suc (Suc (Suc 0)))) s }"
    by (simp add: eval_nat_numeral)
  then show ?thesis
    by (cases "go_nth (nOtherNodeList n) (int t)") (simp_all only: ackStep.simps(1) ackStep_Checks recordAppend_def Let_def thread_run.simps(1)
        Option.bind.simps option.map)
qed






end
