(* ===== verification/KV_Replication.thy ===== *)
theory KV_Replication
  imports KV_Cluster
begin

section \<open>What a leader counts as accepted is stored by a majority\<close>

text \<open>
  A leader of package \<^verbatim>\<open>node\<close> with all its followers. \<^verbatim>\<open>SendAppendEntry\<close> runs against the followers' handler \<^verbatim>\<open>Append\<close>, records the index that a follower
  has accepted and lets \<^verbatim>\<open>CheckAcceptId\<close> and \<^verbatim>\<open>CheckCommitId\<close> move the leader's indexes. Calls can fail after or before they are handled, and
  requests, those of the catch-up loop included, are delivered late, repeatedly or never.

  One call of \<^verbatim>\<open>SendAppendEntry\<close> is one step here, from the request to the two checks. Under this condition the accept and commit index of the leader never run ahead of
  what more than half of the nodes have stored. The goroutines of \<^verbatim>\<open>AppendEntry\<close> do not obey it: \<open>KV_Race\<close> has a run in which two of them break the statement.
\<close>

subsection \<open>A leader and its followers\<close>

text \<open>A call of \<^verbatim>\<open>Append\<close> over the network that reaches its node. An error of the handler, or its panic, is an error of the call.\<close>

definition deliver_append ::
  "'db redis_hset \<Rightarrow> (Item \<Rightarrow> string) \<Rightarrow> (string \<Rightarrow> 'db Node, AppendEntryRequest, AppendEntryReply) rpc_call" where
  "deliver_append hset json cfg req fs =
     (case Append hset json req (fs (Address cfg)) of
        Some (f', r, None) \<Rightarrow> (fs(Address cfg := f'), Inr r)
      | Some (f', r, Some e) \<Rightarrow> (fs(Address cfg := f'), Inl ''append'')
      | None \<Rightarrow> (fs, Inl ''unavailable''))"

abbreviation addr :: "WorkNode \<Rightarrow> string" where
  "addr w \<equiv> Address (wCfg w)"

type_synonym 'db group = "'db Node \<times> (string \<Rightarrow> 'db Node) \<times> (string \<times> AppendEntryRequest) set"

text \<open>
  The leader appends a client's entry, calls \<^verbatim>\<open>SendAppendEntry\<close> for one of the other nodes, sends a request whose answer is lost or ignored, or
  counts the commit indexes again after heartbeats; a node handles a request that was sent, or any heartbeat. As in
  \<open>repl_step\<close> the leader stops before its items outgrow the 32 bits of an index. A client's request carries no commit index.
\<close>

inductive group_step :: "'db redis_hset \<Rightarrow> (Item \<Rightarrow> string) \<Rightarrow> 'db group \<Rightarrow> 'db group \<Rightarrow> bool" for hset json where
  g_client: "aeFrom req = nId l \<Longrightarrow> aeCommitIndex req = 0 \<Longrightarrow> length (nItemList l) + 2 < 2 ^ 32 \<Longrightarrow>
    Append hset json req l = Some (l', r, err) \<Longrightarrow> group_step hset json (l, fs, reqs) (l', fs, reqs)"
| g_called: "SendAppendEntry (deliver_append hset json) l t fs = Some (l', fs', spawned, err) \<Longrightarrow>
    group_step hset json (l, fs, reqs) (l', fs', reqs)"
| g_sent: "item \<in> set (nItemList l) \<Longrightarrow> w \<in> set (nOtherNodeList l) \<Longrightarrow>
    group_step hset json (l, fs, reqs) (l, fs, insert (addr w, appendRequest l w item) reqs)"
| g_delivered: "(a, req) \<in> reqs \<Longrightarrow> Append hset json req (fs a) = Some (f', r, err) \<Longrightarrow>
    group_step hset json (l, fs, reqs) (l, fs(a := f'), reqs)"
| g_beat: "Heart now hreq (fs a) = (f', r) \<Longrightarrow> group_step hset json (l, fs, reqs) (l, fs(a := f'), reqs)"
| g_checked: "group_step hset json (l, fs, reqs) (CheckCommitId l, fs, reqs)"

inductive_cases group_stepE: "group_step hset json s s'"

subsection \<open>The invariant\<close>

definition stores :: "(string \<Rightarrow> 'db Node) \<Rightarrow> nat \<Rightarrow> WorkNode \<Rightarrow> bool" where
  "stores fs k w \<longleftrightarrow> k < length (nItemList (fs (addr w)))"

definition majority_stores :: "WorkNode list \<Rightarrow> (string \<Rightarrow> 'db Node) \<Rightarrow> nat \<Rightarrow> bool" where
  "majority_stores ws fs k \<longleftrightarrow> k = 0 \<or> length ws + 1 < 2 * length (filter (stores fs k) ws)"

definition follower_ok :: "'db group \<Rightarrow> WorkNode \<Rightarrow> bool" where
  "follower_ok s w \<longleftrightarrow> (case s of (l, fs, reqs) \<Rightarrow>
     repl_ok (l, fs (addr w), {req. (addr w, req) \<in> reqs}) \<and>
     stores fs (unat (wAcceptIndex w)) w \<and> stores fs (unat (wCommitIndex w)) w)"

definition group_ok :: "'db group \<Rightarrow> bool" where
  "group_ok s \<longleftrightarrow> (case s of (l, fs, reqs) \<Rightarrow>
     items_ok (nItemList l) \<and> length (nItemList l) + 1 < 2 ^ 32 \<and> list_all (follower_ok s) (nOtherNodeList l) \<and>
     majority_stores (nOtherNodeList l) fs (unat (nAcceptIndex l)) \<and> majority_stores (nOtherNodeList l) fs (unat (nCommitIndex l)))"

definition grown :: "(string \<Rightarrow> 'db Node) \<Rightarrow> (string \<Rightarrow> 'db Node) \<Rightarrow> bool" where
  "grown fs fs' \<longleftrightarrow> (\<forall>a. length (nItemList (fs a)) \<le> length (nItemList (fs' a)))"

lemma grown_refl [simp]: "grown fs fs"
  by (simp add: grown_def)

lemma grown_update [simp]: "grown fs (fs(a := f)) \<longleftrightarrow> length (nItemList (fs a)) \<le> length (nItemList f)"
  by (auto simp: grown_def)

lemma stores_grown: "grown fs fs' \<Longrightarrow> stores fs k w \<Longrightarrow> stores fs' k w"
  by (auto simp: grown_def stores_def intro: less_le_trans)

lemma length_filter_mono: "(\<And>x. x \<in> set xs \<Longrightarrow> P x \<Longrightarrow> Q x) \<Longrightarrow> length (filter P xs) \<le> length (filter Q xs)"
  by (induction xs) (auto simp: le_SucI)

lemma majority_grown: "grown fs fs' \<Longrightarrow> majority_stores ws fs k \<Longrightarrow> majority_stores ws fs' k"
  using length_filter_mono [of ws "stores fs k" "stores fs' k"] stores_grown [of fs fs' k] by (auto simp: majority_stores_def)

text \<open>The next index is stored by all nodes whose recorded index is beyond the current one.\<close>

lemma majority_next:
  assumes "\<forall>w \<in> set ws. stores fs (unat (ix w)) w" "length ws + 1 < 2 * length (filter (\<lambda>w. i < ix w) ws)"
  shows "majority_stores ws fs (unat (i + 1 :: uint64))"
proof -
  have "unat (i + 1) \<le> unat (ix w)" if "i < ix w" for w
    using that inc_le word_le_nat_alt by blast
  then have "length (filter (\<lambda>w. i < ix w) ws) \<le> length (filter (stores fs (unat (i + 1))) ws)"
    using assms(1) by (intro length_filter_mono) (auto simp: stores_def intro: le_less_trans)
  then show ?thesis
    using assms(2) by (simp add: majority_stores_def)
qed

text \<open>Only the addresses of the other nodes count.\<close>

lemma majority_addr:
  "majority_stores ws fs k \<longleftrightarrow> k = 0 \<or> length (map addr ws) + 1 < 2 * length (filter (\<lambda>a. k < length (nItemList (fs a))) (map addr ws))"
  by (simp add: majority_stores_def stores_def [abs_def] filter_map comp_def)

lemma majority_bound:
  assumes "majority_stores ws fs k" "0 < n" "\<And>w. w \<in> set ws \<Longrightarrow> length (nItemList (fs (addr w))) \<le> n"
  shows "k < n"
proof (cases "k = 0")
  case False
  then have "filter (stores fs k) ws \<noteq> []"
    using assms(1) by (auto simp: majority_stores_def)
  then obtain w where "w \<in> set ws" "stores fs k w"
    by (auto simp: filter_empty_conv)
  then show ?thesis
    using assms(3) by (force simp: stores_def)
qed (use assms(2) in simp)

subsection \<open>The steps keep the invariant\<close>

lemma group_okD:
  assumes "group_ok (l, fs, reqs)"
  shows "items_ok (nItemList l)" "length (nItemList l) + 1 < 2 ^ 32"
    "w \<in> set (nOtherNodeList l) \<Longrightarrow> repl_ok (l, fs (addr w), {req. (addr w, req) \<in> reqs})"
    "w \<in> set (nOtherNodeList l) \<Longrightarrow> stores fs (unat (wAcceptIndex w)) w"
    "w \<in> set (nOtherNodeList l) \<Longrightarrow> stores fs (unat (wCommitIndex w)) w"
    "majority_stores (nOtherNodeList l) fs (unat (nAcceptIndex l))" "majority_stores (nOtherNodeList l) fs (unat (nCommitIndex l))"
  using assms by (auto simp: group_ok_def follower_ok_def list_all_iff)

lemma group_okI:
  assumes "items_ok (nItemList l)" "length (nItemList l) + 1 < 2 ^ 32"
    and "\<And>w. w \<in> set (nOtherNodeList l) \<Longrightarrow> repl_ok (l, fs (addr w), {req. (addr w, req) \<in> reqs})"
    "\<And>w. w \<in> set (nOtherNodeList l) \<Longrightarrow> stores fs (unat (wAcceptIndex w)) w"
    "\<And>w. w \<in> set (nOtherNodeList l) \<Longrightarrow> stores fs (unat (wCommitIndex w)) w"
    and "majority_stores (nOtherNodeList l) fs (unat (nAcceptIndex l))" "majority_stores (nOtherNodeList l) fs (unat (nCommitIndex l))"
  shows "group_ok (l, fs, reqs)"
  using assms by (auto simp: group_ok_def follower_ok_def list_all_iff)

lemma repl_ok_leader: "nItemList l' = nItemList l \<Longrightarrow> repl_ok (l', f, R) = repl_ok (l, f, R)"
  by (simp add: repl_ok_def)

lemma repl_ok_fewer: "repl_ok (l, f, R) \<Longrightarrow> R' \<subseteq> R \<Longrightarrow> repl_ok (l, f, R')"
  by (auto simp: repl_ok_def)

lemma CheckAcceptId_group: "group_ok (l, fs, reqs) \<Longrightarrow> group_ok (CheckAcceptId l, fs, reqs)"
  by (frule group_okD(2), rule group_okI)
    (auto simp: CheckAcceptId_effect group_okD repl_ok_leader [of "l\<lparr>nAcceptIndex := _\<rparr>" l] intro!: majority_next [where ix = wAcceptIndex])

lemma CheckCommitId_group: "group_ok (l, fs, reqs) \<Longrightarrow> group_ok (CheckCommitId l, fs, reqs)"
  by (frule group_okD(2), rule group_okI)
    (auto simp: CheckCommitId_effect group_okD repl_ok_leader [of "l\<lparr>nCommitIndex := _\<rparr>" l] intro!: majority_next [where ix = wCommitIndex])

text \<open>A follower that takes a step of its own.\<close>

lemma follower_group:
  assumes ok: "group_ok (l, fs, reqs)" and "length (nItemList (fs a)) \<le> length (nItemList f')"
    and keeps: "repl_ok (l, fs a, {req. (a, req) \<in> reqs}) \<Longrightarrow> repl_ok (l, f', {req. (a, req) \<in> reqs})"
  shows "group_ok (l, fs(a := f'), reqs)"
proof -
  have g: "grown fs (fs(a := f'))"
    using assms(2) by simp
  show ?thesis
    using group_okD [OF ok] keeps
    by (intro group_okI) (auto intro: stores_grown [OF g] majority_grown [OF g])
qed

lemma Append_grows: "Append hset json req n = Some (n', r, err) \<Longrightarrow> length (nItemList n) \<le> length (nItemList n')"
  using Append_effect [of hset json req n n' r err] by (auto split: if_splits)

lemma delivered_group:
  assumes "group_ok (l, fs, reqs)" "(a, req) \<in> reqs" "Append hset json req (fs a) = Some (f', r, err)"
  shows "group_ok (l, fs(a := f'), reqs)"
  using assms(2,3) delivered_keeps [of l "fs a" "{req. (a, req) \<in> reqs}" req hset json f' r err]
  by (intro follower_group [OF assms(1) Append_grows [OF assms(3)]]) simp

lemma sent_group:
  assumes ok: "group_ok (l, fs, reqs)" and "item \<in> set (nItemList l)"
  shows "group_ok (l, fs, insert (addr w, appendRequest l w item) reqs)"
proof (rule group_okI)
  fix v
  assume v: "v \<in> set (nOtherNodeList l)"
  have "repl_ok (l, fs (addr v), insert (appendRequest l w item) {req. (addr v, req) \<in> reqs})"
    using repl_step_keeps [OF repl_step.sent [OF assms(2)] group_okD(3) [OF ok v]] .
  then show "repl_ok (l, fs (addr v), {req. (addr v, req) \<in> insert (addr w, appendRequest l w item) reqs})"
    by (rule repl_ok_fewer) auto
qed (use group_okD [OF ok] in auto)

lemma fewer_group: "group_ok (l, fs, reqs) \<Longrightarrow> reqs' \<subseteq> reqs \<Longrightarrow> group_ok (l, fs, reqs')"
  by (frule group_okD(2), rule group_okI) (auto simp: group_okD intro: repl_ok_fewer [OF group_okD(3)])

text \<open>The leader records what a follower has answered.\<close>

lemma record_group:
  assumes ok: "group_ok (l, fs, reqs)" and t: "t < length (nOtherNodeList l)" "nOtherNodeList l ! t = w"
    and "stores fs (unat x) w" "stores fs (unat y) w"
  shows "group_ok (l\<lparr>nOtherNodeList := (nOtherNodeList l)[t := w\<lparr>wAcceptIndex := x, wCommitIndex := y\<rparr>]\<rparr>, fs, reqs)"
proof (rule group_okI)
  let ?ws = "(nOtherNodeList l)[t := w\<lparr>wAcceptIndex := x, wCommitIndex := y\<rparr>]"
  have "map addr ?ws = map addr (nOtherNodeList l)"
    using t by (simp add: map_update list_update_same_conv)
  then have "majority_stores ?ws fs k = majority_stores (nOtherNodeList l) fs k" for k
    by (simp only: majority_addr)
  then show "majority_stores (nOtherNodeList (l\<lparr>nOtherNodeList := ?ws\<rparr>)) fs (unat (nAcceptIndex (l\<lparr>nOtherNodeList := ?ws\<rparr>)))"
    "majority_stores (nOtherNodeList (l\<lparr>nOtherNodeList := ?ws\<rparr>)) fs (unat (nCommitIndex (l\<lparr>nOtherNodeList := ?ws\<rparr>)))"
    using group_okD(6,7) [OF ok] by simp_all
  have in_ws: "v \<in> set (nOtherNodeList l) \<or> v = w\<lparr>wAcceptIndex := x, wCommitIndex := y\<rparr>" if "v \<in> set ?ws" for v
    using that set_update_subset_insert by force
  have w: "w \<in> set (nOtherNodeList l)" using t by auto
  fix v
  assume "v \<in> set (nOtherNodeList (l\<lparr>nOtherNodeList := ?ws\<rparr>))"
  then have v: "v \<in> set (nOtherNodeList l) \<or> v = w\<lparr>wAcceptIndex := x, wCommitIndex := y\<rparr>"
    using in_ws by simp
  show "repl_ok (l\<lparr>nOtherNodeList := ?ws\<rparr>, fs (addr v), {req. (addr v, req) \<in> reqs})"
    using v w group_okD(3) [OF ok] by (auto simp: repl_ok_leader [of "l\<lparr>nOtherNodeList := ?ws\<rparr>" l])
  show "stores fs (unat (wAcceptIndex v)) v" "stores fs (unat (wCommitIndex v)) v"
    using v assms(4,5) group_okD(4,5) [OF ok] by (auto simp: stores_def)
qed (use group_okD [OF ok] in auto)


lemma Append_reply:
  assumes "Append hset json req n = Some (n', r, err)"
  shows "arCommitIndex r = ucast (nCommitIndex n')" "arAccept r \<Longrightarrow> arAppendIndex r = RpcEntry_get reIndex 0 (aeEntry req)"
    "nCommitIndex n' \<noteq> nCommitIndex n \<Longrightarrow> aeCommitIndex req = ucast (nCommitIndex n + 1)"
    "nAcceptIndex n' = nAcceptIndex n" "nOtherNodeList n' = nOtherNodeList n"
proof -
  define b where "b \<longleftrightarrow> itTerm (GetTailItem n) = ucast (aePreTerm req) \<and> itIndex (GetTailItem n) = ucast (aePreIndex req) \<and>
    ucast (itIndex (GetTailItem n) + 1) = RpcEntry_get reIndex 0 (aeEntry req)"
  obtain n1 acc err1 where 1: "(if b then appendItem hset json (aeEntry req) n else Some (n, False, None)) = Some (n1, acc, err1)"
    and n': "Some (n', r, err) = Append hset json req n"
    using assms by (auto simp: Append_def b_def [symmetric] bind_Some_iff Let_def)
  have n1: "nCommitIndex n1 = nCommitIndex n" "nAcceptIndex n1 = nAcceptIndex n" "nOtherNodeList n1 = nOtherNodeList n"
    using 1 by (cases "aeEntry req"; auto simp: appendItem_def Let_def split: prod.splits if_splits)+
  note eq = n' [unfolded Append_def Let_def b_def [symmetric] 1]
  show "arCommitIndex r = ucast (nCommitIndex n')" "arAccept r \<Longrightarrow> arAppendIndex r = RpcEntry_get reIndex 0 (aeEntry req)"
    "nCommitIndex n' \<noteq> nCommitIndex n \<Longrightarrow> aeCommitIndex req = ucast (nCommitIndex n + 1)"
    "nAcceptIndex n' = nAcceptIndex n" "nOtherNodeList n' = nOtherNodeList n"
    using eq n1 by (auto simp: SetState_def split: if_splits)
qed

text \<open>An accepted request is stored by the follower at the index the reply names, and its commit index points at one of its items.\<close>

lemma accepted_stores:
  assumes ok: "repl_ok (l, f, R)" and a: "Append hset json req f = Some (f', r, err)" "arAccept r" and ok': "repl_ok (l, f', R)"
  shows "unat (ucast (arAppendIndex r) :: uint64) < length (nItemList f')" "unat (ucast (arCommitIndex r) :: uint64) < length (nItemList f')"
proof -
  have f: "items_ok (nItemList f)" "length (nItemList f) + 1 < 2 ^ 32"
    and f': "items_ok (nItemList f')" "nCommitIndex f' \<le> itIndex (last (nItemList f'))"
    using ok ok' prefix_length_le by (fastforce simp: repl_ok_def)+
  have "nItemList f' \<noteq> nItemList f"
    using Append_effect [OF a(1)] a(2) by auto
  then obtain e where e: "aeEntry req = Some e" "unat (reIndex e) = length (nItemList f)" "length (nItemList f') = length (nItemList f) + 1"
    using Append_items [OF a(1) f] by auto
  then show "unat (ucast (arAppendIndex r) :: uint64) < length (nItemList f')"
    using Append_reply(2) [OF a] by (simp add: RpcEntry_get_def unat_ucast64)
  have "unat (nCommitIndex f') < length (nItemList f')"
    using f' items_okD(1) [OF f'(1), of "length (nItemList f') - 1"] by (auto simp: items_ok_def last_conv_nth word_le_nat_alt Suc_diff_le intro: le_less_trans)
  moreover from this have "unat (nCommitIndex f') < 2 ^ 32"
    using f'(1) by (simp add: items_ok_def)
  ultimately show "unat (ucast (arCommitIndex r) :: uint64) < length (nItemList f')"
    using ucast_64_32(1) [of "nCommitIndex f'"] by (simp add: Append_reply(1) [OF a(1)])
qed


lemma called_group:
  assumes ok: "group_ok (l, fs, reqs)" and call: "SendAppendEntry (deliver_append hset json) l t fs = Some (l', fs', spawned, err)"
  shows "group_ok (l', fs', reqs)"
proof -
  obtain w where w: "go_nth (nOtherNodeList l) (int t) = Some w"
    using call by (auto simp: SendAppendEntry_def bind_Some_iff)
  then have t: "t < length (nOtherNodeList l)" "nOtherNodeList l ! t = w" "w \<in> set (nOtherNodeList l)"
    by (auto simp: go_nth_def split: if_splits)
  let ?req = "appendRequest l w (GetTailItem l)"
  note call = call [unfolded SendAppendEntry_def w, simplified, unfolded deliver_append_def]
  show ?thesis
  proof (cases "Append hset json ?req (fs (addr w))")
    case None
    then show ?thesis using call ok by simp
  next
    case (Some res)
    obtain f' r e where res: "Append hset json ?req (fs (addr w)) = Some (f', r, e)"
      using Some by (cases res) auto
    have "GetTailItem l \<in> set (nItemList l)"
      using group_okD(1) [OF ok] by (simp add: GetTailItem_last items_ok_def)
    from delivered_group [OF sent_group [OF ok this] _ res] have "group_ok (l, fs(addr w := f'), insert (addr w, ?req) reqs)"
      by blast
    then have after: "group_ok (l, fs(addr w := f'), reqs)"
      by (rule fewer_group) auto
    have "stores (fs(addr w := f')) (unat (ucast (arAppendIndex r) :: uint64)) w"
      "stores (fs(addr w := f')) (unat (ucast (arCommitIndex r) :: uint64)) w" if "arAccept r"
      using accepted_stores [OF group_okD(3) [OF ok t(3)] res that] group_okD(3) [OF after t(3)] by (simp_all add: stores_def)
    then have "group_ok (l\<lparr>nOtherNodeList := (nOtherNodeList l)[t := w\<lparr>wAcceptIndex := ucast (arAppendIndex r), wCommitIndex := ucast (arCommitIndex r)\<rparr>]\<rparr>,
        fs(addr w := f'), reqs)" if "arAccept r"
      using record_group [OF after t(1,2)] that by blast
    then show ?thesis
      using call after res w by (auto simp: recordAppend_def Let_def split: option.splits if_splits intro: CheckAcceptId_group CheckCommitId_group)
  qed
qed

lemma client_group:
  assumes ok: "group_ok (l, fs, reqs)" and "aeFrom req = nId l" "aeCommitIndex req = 0" "length (nItemList l) + 2 < 2 ^ 32"
    and a: "Append hset json req l = Some (l', r, err)"
  shows "group_ok (l', fs, reqs)"
proof -
  note l = group_okD [OF ok]
  have "length (nItemList (fs (addr w))) \<le> length (nItemList l)" if "w \<in> set (nOtherNodeList l)" for w
    using l(3) [OF that] prefix_length_le by (auto simp: repl_ok_def)
  then have "unat (nCommitIndex l) < length (nItemList l)"
    using majority_bound [OF l(7)] l(1) by (simp add: items_ok_def)
  then have c: "unat (nCommitIndex l + 1) = unat (nCommitIndex l) + 1" "unat (nCommitIndex l + 1) < 2 ^ 32"
    using l(2) unat_add_of_nat64 [of "nCommitIndex l" 1] by simp_all
  have "ucast (nCommitIndex l + 1) \<noteq> (0 :: uint32)"
    using ucast_64_32(2) [OF c(2)] c(1) by (metis add_is_0 one_neq_zero unsigned_0)
  then have same: "nCommitIndex l' = nCommitIndex l"
    using Append_reply(3) [OF a] assms(3) by metis
  have items: "items_ok (nItemList l')" "length (nItemList l') + 1 < 2 ^ 32"
    using Append_items_ok(1) [OF a l(1,2)] Append_items [OF a l(1,2)] assms(4) by auto
  show ?thesis
    by (rule group_okI)
      (use items l same Append_reply(4,5) [OF a] repl_step_keeps [OF repl_step.client [OF assms(2,4) a] l(3)] in auto)
qed

lemma group_step_keeps: "group_ok s \<Longrightarrow> group_step hset json s s' \<Longrightarrow> group_ok s'"
proof (erule group_stepE)
  fix now hreq fs a f' r l reqs
  assume "group_ok s" "s = (l, fs, reqs)" "s' = (l, fs(a := f'), reqs)" and h: "Heart now hreq (fs a) = (f', r)"
  then show "group_ok s'"
    using beat_keeps [OF _ h] Heart_effect(4) [OF h] by (auto intro!: follower_group)
qed (auto intro: client_group called_group sent_group delivered_group CheckCommitId_group)

interpretation kv_group: step_invariant "group_step hset json" group_ok for hset json
  by unfold_locales (rule group_step_keeps)


subsection \<open>The theorem\<close>

lemma group_start:
  assumes "CreateNode connect cfgs i = Some l0"
    and "\<And>w. w \<in> set (nOtherNodeList l0) \<Longrightarrow> \<exists>j. CreateNode connect cfgs j = Some (fs0 (addr w))"
  shows "group_ok (l0, fs0, {})"
proof (rule group_okI)
  fix w
  assume w: "w \<in> set (nOtherNodeList l0)"
  then obtain j where "CreateNode connect cfgs j = Some (fs0 (addr w))"
    using assms(2) by blast
  note f = CreateNode_items [OF this]
  have "wAcceptIndex w = 0" "wCommitIndex w = 0"
    using w CreateNode_items(4) [OF assms(1)] by (auto simp: otherNodes_def)
  then show "stores fs0 (unat (wAcceptIndex w)) w" "stores fs0 (unat (wCommitIndex w)) w"
    "repl_ok (l0, fs0 (addr w), {req. (addr w, req) \<in> {}})"
    using f CreateNode_items [OF assms(1)] by (simp_all add: stores_def repl_ok_def items_ok_def)
next
  have "nAcceptIndex l0 = 0" "nCommitIndex l0 = 0"
    using assms(1) by (auto simp: CreateNode_def bind_Some_iff)
  then show "majority_stores (nOtherNodeList l0) fs0 (unat (nAcceptIndex l0))" "majority_stores (nOtherNodeList l0) fs0 (unat (nCommitIndex l0))"
    by (simp_all add: majority_stores_def)
qed (use CreateNode_items [OF assms(1)] in \<open>simp_all add: items_ok_def\<close>)

text \<open>
  What a leader counts as accepted or committed is stored by a majority, as long as it calls one node at a time. From created nodes on, whatever entries clients append, in requests that
  carry no commit index, and whichever calls fail and requests are delayed, repeated, reordered or lost, the leader's accept index and commit index, once they are not
  zero, point at one of its items, and more than half of all the nodes, not counting the leader itself, hold the same items up to
  that index.
\<close>

theorem kv_accepted_on_majority:
  assumes "CreateNode connect cfgs i = Some l0"
    and "\<And>w. w \<in> set (nOtherNodeList l0) \<Longrightarrow> \<exists>j. CreateNode connect cfgs j = Some (fs0 (addr w))"
    and "(group_step hset json)\<^sup>*\<^sup>* (l0, fs0, {}) (l, fs, reqs)"
    and "k = nAcceptIndex l \<or> k = nCommitIndex l" "k \<noteq> 0"
  shows "unat k < length (nItemList l) \<and>
    length (nOtherNodeList l) + 1 <
    2 * length (filter (\<lambda>w. prefix (take (unat k + 1) (nItemList l)) (nItemList (fs (addr w)))) (nOtherNodeList l))"
proof -
  have "group_ok (l0, fs0, {})"
    using assms(1,2) by (rule group_start)
  then have "group_ok (l, fs, reqs)"
    by (rule kv_group.run_keeps [OF assms(3)])
  note ok = group_okD [OF this]
  have maj: "majority_stores (nOtherNodeList l) fs (unat k)"
    using assms(4) ok(6,7) by blast
  have pre: "prefix (nItemList (fs (addr w))) (nItemList l)" if "w \<in> set (nOtherNodeList l)" for w
    using ok(3) [OF that] by (simp add: repl_ok_def)
  have "prefix (take (unat k + 1) (nItemList l)) (nItemList (fs (addr w)))" if "w \<in> set (nOtherNodeList l)" "stores fs (unat k) w" for w
    using pre [OF that(1)] that(2) by (auto simp: prefix_def stores_def) (metis append_take_drop_id)
  then have "length (filter (stores fs (unat k)) (nOtherNodeList l)) \<le>
      length (filter (\<lambda>w. prefix (take (unat k + 1) (nItemList l)) (nItemList (fs (addr w)))) (nOtherNodeList l))"
    by (intro length_filter_mono)
  moreover have "unat k < length (nItemList l)"
    using majority_bound [OF maj] ok(1) pre prefix_length_le by (auto simp: items_ok_def)
  ultimately show ?thesis
    using maj assms(5) by (auto simp: majority_stores_def unat_eq_zero)
qed


text \<open>Three nodes: the leader appends an entry and sends it to both others, after which its accept index is 1.\<close>

definition group3_fs :: "string \<Rightarrow> unit Node" where
  "group3_fs a = (if a = Address (cfg_sample 2) then node3_of 1 else node3_of 2)"

definition group3_req :: AppendEntryRequest where
  "group3_req = \<lparr>aeEntry = Some \<lparr>reTerm = 1, reIndex = 1, reValue = ''x''\<rparr>, aePreTerm = 0, aePreIndex = 0, aeCommitIndex = 0, aeFrom = ''0''\<rparr>"

abbreviation group3_items :: "Item list" where
  "group3_items \<equiv> [\<lparr>itIndex = 0, itTerm = 0, itLog = ''init''\<rparr>, \<lparr>itIndex = 1, itTerm = 1, itLog = ''x''\<rparr>]"

lemma group3_append:
  assumes "nItemList n = [\<lparr>itIndex = 0, itTerm = 0, itLog = ''init''\<rparr>]" "nCommitIndex n = 0"
  shows "\<exists>n' r. Append hset_sample (\<lambda>_. '''') group3_req n = Some (n', r, None) \<and> arAccept r \<and> arAppendIndex r = 1 \<and>
    nItemList n' = group3_items \<and> nOtherNodeList n' = nOtherNodeList n \<and> nId n' = nId n \<and> nAcceptIndex n' = nAcceptIndex n"
  using assms by (simp add: Append_def group3_req_def appendItem_def hset_sample_def GetTailItem_def RpcEntry_get_def SetState_def Let_def)

lemma group3_call:
  assumes "nItemList l = group3_items" "nId l = ''0''" "t < length (nOtherNodeList l)" "nOtherNodeList l ! t = w"
    and "wCommitIndex w = 0" "wAcceptIndex w = 0" "nItemList (fs (addr w)) = [\<lparr>itIndex = 0, itTerm = 0, itLog = ''init''\<rparr>]"
    "nCommitIndex (fs (addr w)) = 0"
  shows "\<exists>l' f' c. group_step hset_sample (\<lambda>_. '''') (l, fs, {}) (l', fs(addr w := f'), {}) \<and> nItemList l' = group3_items \<and> nId l' = ''0'' \<and>
    nOtherNodeList l' = (nOtherNodeList l)[t := w\<lparr>wAcceptIndex := 1, wCommitIndex := c\<rparr>] \<and>
    nAcceptIndex l' = nAcceptIndex (CheckAcceptId (l\<lparr>nOtherNodeList := nOtherNodeList l'\<rparr>))"
proof -
  have "appendRequest l w (GetTailItem l) = group3_req"
    using assms(1,2,5,6) by (simp add: appendRequest_def GetPreItem_def GetTailItem_def group3_req_def)
  moreover have "go_nth (nOtherNodeList l) (int t) = Some w"
    using assms(3,4) by (simp add: go_nth_def)
  moreover obtain f' r where "Append hset_sample (\<lambda>_. '''') group3_req (fs (addr w)) = Some (f', r, None)" "arAccept r" "arAppendIndex r = 1"
    using group3_append [OF assms(7,8)] by blast
  moreover define l' where "l' = CheckCommitId (CheckAcceptId
    (l\<lparr>nOtherNodeList := (nOtherNodeList l)[t := w\<lparr>wAcceptIndex := 1, wCommitIndex := ucast (arCommitIndex r)\<rparr>]\<rparr>))"
  ultimately have "SendAppendEntry (deliver_append hset_sample (\<lambda>_. [])) l t fs = Some (l', fs(addr w := f'), None, None)"
    by (simp add: SendAppendEntry_def recordAppend_def deliver_append_def Let_def)
  then have "group_step hset_sample (\<lambda>_. []) (l, fs, {}) (l', fs(addr w := f'), {})"
    by (rule g_called)
  moreover have "nItemList l' = group3_items" "nId l' = ''0''"
    "nOtherNodeList l' = (nOtherNodeList l)[t := w\<lparr>wAcceptIndex := 1, wCommitIndex := ucast (arCommitIndex r)\<rparr>]"
    "nAcceptIndex l' = nAcceptIndex (CheckAcceptId (l\<lparr>nOtherNodeList := nOtherNodeList l'\<rparr>))"
    using assms(1,2) by (simp_all add: l'_def CheckCommitId_effect CheckAcceptId_effect)
  ultimately show ?thesis by blast
qed

lemma group3_nodes:
  assumes "i = 0 \<or> i = 1 \<or> i = 2"
  shows "CreateNode (\<lambda>_. ()) [cfg_sample 1, cfg_sample 2, cfg_sample 3] i = Some (node3_of i)"
    "nItemList (node3_of i) = [\<lparr>itIndex = 0, itTerm = 0, itLog = ''init''\<rparr>]" "nCommitIndex (node3_of i) = 0"
  using assms by (auto simp: node3_of_def CreateNode_def go_nth_def)

lemma group3_run:
  "\<exists>l fs. (group_step hset_sample (\<lambda>_. ''''))\<^sup>*\<^sup>* (node3_of 0, group3_fs, {}) (l, fs, {}) \<and> nAcceptIndex l = 1"
proof -
  let ?step = "group_step hset_sample (\<lambda>_. '''')"
  let ?w = "\<lambda>p. \<lparr>wId = 0, wCfg = cfg_sample p, wTerm = 0, wCommitIndex = 0, wAcceptIndex = 0\<rparr>"
  have "itoa 0 = ''0''" by code_simp
  then have node0: "nOtherNodeList (node3_of 0) = [?w 2, ?w 3]" "nId (node3_of 0) = ''0''" "nAcceptIndex (node3_of 0) = 0"
    by (simp_all add: otherNodes_def node3_of_def CreateNode_def go_nth_def)
  have addrs: "addr (?w 2) \<noteq> addr (?w 3)"
    by (simp add: Address_def cfg_sample_def int_dec.print_inj)
  obtain l1 r where l1: "Append hset_sample (\<lambda>_. '''') group3_req (node3_of 0) = Some (l1, r, None)" "nItemList l1 = group3_items"
    "nOtherNodeList l1 = [?w 2, ?w 3]" "nId l1 = ''0''" "nAcceptIndex l1 = 0"
    using group3_append [of "node3_of 0"] group3_nodes node0 by auto
  have 1: "?step (node3_of 0, group3_fs, {}) (l1, group3_fs, {})"
    by (rule g_client [OF _ _ _ l1(1)]) (simp_all add: group3_req_def group3_nodes node0)
  obtain l2 f c where 2: "?step (l1, group3_fs, {}) (l2, group3_fs(addr (?w 2) := f), {})" "nItemList l2 = group3_items" "nId l2 = ''0''"
    "nOtherNodeList l2 = [?w 2\<lparr>wAcceptIndex := 1, wCommitIndex := c\<rparr>, ?w 3]" "nAcceptIndex l2 = 0"
    using group3_call [of l1 0 "?w 2" group3_fs] l1 group3_nodes by (auto simp: group3_fs_def CheckAcceptId_effect)
  obtain l3 g where 3: "?step (l2, group3_fs(addr (?w 2) := f), {}) (l3, (group3_fs(addr (?w 2) := f))(addr (?w 3) := g), {})" "nAcceptIndex l3 = 1"
    using group3_call [of l2 1 "?w 3" "group3_fs(addr (?w 2) := f)"] 2 group3_nodes addrs by (auto simp: group3_fs_def CheckAcceptId_effect)
  then have "?step\<^sup>*\<^sup>* (node3_of 0, group3_fs, {}) (l3, (group3_fs(addr (?w 2) := f))(addr (?w 3) := g), {})"
    using 1 2(1) by (meson converse_rtranclp_into_rtranclp rtranclp.rtrancl_refl)
  with 3(2) show ?thesis by blast
qed

theorem kv_accepted_on_majority_witness:
  "\<exists>l fs. (group_step hset_sample (\<lambda>_. ''''))\<^sup>*\<^sup>* (node3_of 0, group3_fs, {}) (l, fs, {}) \<and> nAcceptIndex l = 1 \<and>
    length (nOtherNodeList l) + 1 < 2 * length (filter (\<lambda>w. prefix (take 2 (nItemList l)) (nItemList (fs (addr w)))) (nOtherNodeList l))"
proof -
  obtain l fs where run: "(group_step hset_sample (\<lambda>_. ''''))\<^sup>*\<^sup>* (node3_of 0, group3_fs, {}) (l, fs, {})" "nAcceptIndex l = 1"
    using group3_run by blast
  have "\<exists>j. CreateNode (\<lambda>_. ()) [cfg_sample 1, cfg_sample 2, cfg_sample 3] j = Some (group3_fs (addr w))" for w
    using group3_nodes(1) by (cases "addr w = Address (cfg_sample 2)") (auto simp: group3_fs_def)
  from kv_accepted_on_majority [OF group3_nodes(1) this run(1), of 1] show ?thesis
    using run by (auto simp: numeral_2_eq_2)
qed


text \<open>
  The leader does not count itself: in a group of three both others must have stored an item before it is accepted, so that one
  unreachable follower stops the accept index, although the leader and the other follower are a majority.
\<close>

theorem kv_leader_not_counted:
  assumes "length (nOtherNodeList n) = 2" "w \<in> set (nOtherNodeList n)" "wAcceptIndex w \<le> nAcceptIndex n"
  shows "CheckAcceptId n = n"
proof -
  have "length (filter (\<lambda>w. nAcceptIndex n < wAcceptIndex w) (nOtherNodeList n)) < length (nOtherNodeList n)"
    using assms(2,3) by (intro length_filter_less) auto
  then show ?thesis
    using assms(1) by (simp add: CheckAcceptId_def)
qed

end
