(* ===== verification/Printing.thy ===== *)
theory Printing
  imports Raw_Node Go_Fmt
begin

section \<open>Printed forms\<close>

text \<open>
  The \<^verbatim>\<open>String\<close> methods of the packages \<^verbatim>\<open>quorum\<close>, \<^verbatim>\<open>tracker\<close> and \<^verbatim>\<open>raft\<close>. A method that panics is \<^term>\<open>None\<close>; \<^verbatim>\<open>fmt\<close> catches the panic of a
  \<^verbatim>\<open>String\<close> method it calls for \<^verbatim>\<open>%s\<close> and prints a note instead.

  Vote results and indexes print injectively, whatever number they hold; the printed form of a progress map does not depend on
  the order in which the map is traversed; a progress prints exactly when its window is not nil.
\<close>

subsection \<open>Package quorum\<close>

text \<open>\<^verbatim>\<open>VoteResult\<close> is an 8-bit number, and \<^verbatim>\<open>i -= 1\<close> wraps.\<close>

(* raft/quorum/quorum.go 12-16 VoteResult *)
definition VoteResult_value :: "VoteResult \<Rightarrow> byte" where
  "VoteResult_value v = (case v of VotePending \<Rightarrow> 1 | VoteLost \<Rightarrow> 2 | VoteWon \<Rightarrow> 3)"

(* raft/quorum/voteresult_string.go 16-16 _VoteResult_name *)
definition VoteResult_name :: string where
  "VoteResult_name = ''VotePendingVoteLostVoteWon''"

(* raft/quorum/voteresult_string.go 18-18 _VoteResult_index *)
definition VoteResult_index :: "nat list" where
  "VoteResult_index = [0, 11, 19, 26]"

(* raft/quorum/voteresult_string.go 20-26 VoteResult.String *)
definition VoteResult_String :: "byte \<Rightarrow> string" where
  "VoteResult_String i =
     (let i = i - 1 in
      if i \<ge> of_nat (length VoteResult_index - 1)
      then ''VoteResult('' @ itoa (uint (i + 1)) @ '')''
      else
        let a = VoteResult_index ! unat i; b = VoteResult_index ! unat (i + 1)
        in take (b - a) (drop a VoteResult_name))"

text \<open>The greatest index prints as the sign for infinity, which has three bytes in UTF-8.\<close>

(* raft/quorum/quorum.go 20-25 Index.String *)
definition Index_String :: "uint64 \<Rightarrow> string" where
  "Index_String i =
     (if i = - 1 then [CHR 0xE2, CHR 0x88, CHR 0x9E] else digits (unat i))"

subsection \<open>Package tracker\<close>

(* raft/tracker/state.go 13-21 StateType.String *)
definition ProgressState_String :: "ProgressState \<Rightarrow> string" where
  "ProgressState_String st =
     (case st of
        StateProbe \<Rightarrow> ''StateProbe''
      | StateReplicate \<Rightarrow> ''StateReplicate''
      | StateSnapshot \<Rightarrow> ''StateSnapshot'')"

(* raft/tracker/progress.go 136-158 Progress.String *)
definition Progress_String :: "Progress \<Rightarrow> string option" where
  "Progress_String pr = do {
     let buf = ProgressState_String (pState pr) @ '' match='' @ digits (unat (pMatch pr)) @
               '' next='' @ digits (unat (pNext pr));
     let buf = (if pIsLearner pr then buf @ '' learner'' else buf);
     paused \<leftarrow> Progress_IsPaused pr;
     let buf = (if paused then buf @ '' paused'' else buf);
     let buf = (if pPendingSnapshot pr > 0
                then buf @ '' pendingSnap='' @ digits (unat (pPendingSnapshot pr)) else buf);
     let buf = (if \<not> pRecentActive pr then buf @ '' inactive'' else buf);
     ins \<leftarrow> pInflights pr;
     let n = Inflights_Count ins;
     Some (if n > 0
           then buf @ '' inflight='' @ itoa n @ (if Inflights_Full ins then ''[full]'' else [])
           else buf)
   }"

text \<open>\<^verbatim>\<open>%s\<close> of a value whose \<^verbatim>\<open>String\<close> method dereferences a nil pointer.\<close>

definition fmt_Stringer :: "string option \<Rightarrow> string" where
  "fmt_Stringer s =
     (case s of
        Some s \<Rightarrow> s
      | None \<Rightarrow> ''%!s(PANIC=String method: '' @
                ''runtime error: invalid memory address or nil pointer dereference)'')"

(* raft/tracker/progress.go 171-172 ProgressMap.String *)
definition ProgressMap_line :: "(uint64, Progress) gomap \<Rightarrow> uint64 \<Rightarrow> string" where
  "ProgressMap_line m i =
     digits (unat i) @ '': '' @
     (case map_of m i of
        None \<Rightarrow> ''<nil>''
      | Some pr \<Rightarrow> fmt_Stringer (Progress_String pr)) @ [CHR 0x0A]"

text \<open>\<^verbatim>\<open>sort.Slice\<close> sorts the ids in ascending order.\<close>

(* raft/tracker/progress.go 162-175 ProgressMap.String *)
definition ProgressMap_String :: "(uint64, Progress) gomap \<Rightarrow> string" where
  "ProgressMap_String m = concat (map (ProgressMap_line m) (sort (gomap_keys m)))"

subsection \<open>Package raft\<close>

(* raft/raft.go 54-56 StateType.String *)
definition StateType_String :: "StateType \<Rightarrow> string" where
  "StateType_String st =
     (case st of
        StateFollower \<Rightarrow> ''StateFollower''
      | StateCandidate \<Rightarrow> ''StateCandidate''
      | StateLeader \<Rightarrow> ''StateLeader''
      | StatePreCandidate \<Rightarrow> ''StatePreCandidate'')"

(* raft/log.go 52-54 raftLog.String *)
definition raftLog_String :: "raftLog \<Rightarrow> string" where
  "raftLog_String rl =
     ''committed='' @ digits (unat (lCommitted rl)) @
     '', applied='' @ digits (unat (lApplied rl)) @
     '', unstable.offset='' @ digits (unat (uOffset (lUnstable rl))) @
     '', len(unstable.Entries)='' @ digits (length (uEntries (lUnstable rl)))"

(* raft/status.go 55-57 Status.MarshalJSION *)
definition Status_MarshalJSION :: "Status \<Rightarrow> bytes \<times> Err option" where
  "Status_MarshalJSION s = ([], None)"

(* raft/status.go 58-64 Status.String *)
definition Status_String :: "Status \<Rightarrow> string option" where
  "Status_String s =
     (case Status_MarshalJSION s of (b, err) \<Rightarrow>
        if err \<noteq> None then None else Some (map (\<lambda>x. char_of (unat x)) b))"


subsection \<open>What the printed forms say\<close>

text \<open>The named results print as their names, every other number as a number.\<close>

lemma VoteResult_String_names:
  "VoteResult_String (VoteResult_value VotePending) = ''VotePending''"
  "VoteResult_String (VoteResult_value VoteLost) = ''VoteLost''"
  "VoteResult_String (VoteResult_value VoteWon) = ''VoteWon''"
  by code_simp+

lemma VoteResult_String_other:
  assumes "i \<noteq> 1" "i \<noteq> 2" "i \<noteq> 3"
  shows "VoteResult_String i = ''VoteResult('' @ itoa (uint i) @ '')''"
proof -
  have "\<not> i - 1 < 3"
  proof
    assume "i - 1 < 3"
    then have "i - 1 = 0 \<or> i - 1 = 1 \<or> i - 1 = 2"
      by (simp add: word_less_nat_alt word_unat_eq_iff) arith
    with assms show False
      by (auto simp: diff_eq_eq)
  qed
  then show ?thesis
    by (simp add: VoteResult_String_def VoteResult_index_def Let_def)
qed

definition VoteResult_read :: "string \<Rightarrow> byte" where
  "VoteResult_read s =
     (if s = ''VotePending'' then 1 else if s = ''VoteLost'' then 2 else if s = ''VoteWon'' then 3
      else word_of_int (atoi (butlast (drop 11 s))))"

interpretation vote_result: readable VoteResult_String VoteResult_read
proof
  fix i :: byte
  have named: "VoteResult_String 1 = ''VotePending''" "VoteResult_String 2 = ''VoteLost''"
    "VoteResult_String 3 = ''VoteWon''"
    using VoteResult_String_names by (simp_all add: VoteResult_value_def)
  show "VoteResult_read (VoteResult_String i) = i"
  proof (cases "i = 1 \<or> i = 2 \<or> i = 3")
    case True
    then show ?thesis
      by (auto simp: named VoteResult_read_def)
  next
    case False
    then show ?thesis
      by (simp add: VoteResult_String_other VoteResult_read_def int_dec.read_print)
  qed
qed

definition Index_read :: "string \<Rightarrow> uint64" where
  "Index_read s = (if s = [CHR 0xE2, CHR 0x88, CHR 0x9E] then - 1 else of_nat (undigits s))"

interpretation index: readable Index_String Index_read
proof
  have "digits n \<noteq> [CHR 0xE2, CHR 0x88, CHR 0x9E]" for n
    using hd_digits [of n] by (auto simp: is_digit_def)
  then show "Index_read (Index_String i) = i" for i
    by (simp add: Index_String_def Index_read_def dec.read_print)
qed

text \<open>
  Every vote result and every index has its own printed form, also the numbers that name no result: the decrement
  wraps for 0 and the increment undoes it.
\<close>

theorem printed_numbers_differ:
  "VoteResult_String i = VoteResult_String j \<longleftrightarrow> i = j"
  "Index_String k = Index_String l \<longleftrightarrow> k = l"
  by (rule vote_result.print_inj, rule index.print_inj)

text \<open>A progress prints exactly when its window is not nil.\<close>

lemma Progress_String_returns: "Progress_String pr \<noteq> None \<longleftrightarrow> pInflights pr \<noteq> None"
  by (cases "pInflights pr"; cases "pState pr")
    (simp_all add: Progress_String_def Progress_IsPaused_def Let_def)

text \<open>
  Maps with the same content print alike, whatever order the traversal takes, one line per peer in ascending order
  of the ids.
\<close>

theorem ProgressMap_String_order_free:
  assumes "gomap_ok m" "gomap_ok m'" "map_of m = map_of m'"
  shows "ProgressMap_String m = ProgressMap_String m'"
proof -
  have "sort (gomap_keys m) = sort (gomap_keys m')"
    using assms by (intro sorted_distinct_set_unique) (simp_all add: gomap_ok_def gomap_keys_set)
  moreover have "ProgressMap_line m = ProgressMap_line m'"
    using assms(3) by (simp add: ProgressMap_line_def fun_eq_iff)
  ultimately show ?thesis
    by (simp add: ProgressMap_String_def)
qed

text \<open>The printed form of a log tells its four numbers.\<close>

lemma raftLog_String_eq_iff:
  "raftLog_String a = raftLog_String b \<longleftrightarrow>
     lCommitted a = lCommitted b \<and> lApplied a = lApplied b \<and>
     uOffset (lUnstable a) = uOffset (lUnstable b) \<and>
     length (uEntries (lUnstable a)) = length (uEntries (lUnstable b))"
  by (simp add: raftLog_String_def digits_delimited is_digit_def dec.print_inj word_unat_eq_iff)

text \<open>The status has no printed form: its conversion to JSON is a stub, so it prints as the empty string.\<close>

lemma Status_String_empty: "Status_String s = Some []"
  by (simp add: Status_String_def Status_MarshalJSION_def)

end
