(* ===== verification/Data_Dir.thy ===== *)
theory Data_Dir
  imports Go_Prelude
begin

section \<open>The directories of the storage\<close>

text \<open>
  \<^verbatim>\<open>src/server/storage/datadir/datadir.go\<close>: where the write-ahead log, the snapshots and the backend file lie. \<^verbatim>\<open>filepath.Join\<close> and
  \<^verbatim>\<open>filepath.Clean\<close> are those of a Unix system: joining puts slashes between the parts, beginning with the first that is not empty,
  and cleaning removes empty parts and \<^verbatim>\<open>.\<close> and resolves \<^verbatim>\<open>..\<close> where it can.

  Whatever the data directory is, the paths lie where their names say below the member directory.
\<close>

subsection \<open>Package filepath\<close>

fun splitSlash :: "string \<Rightarrow> string list" where
  "splitSlash [] = [[]]"
| "splitSlash (c # s) =
     (if c = CHR ''/'' then [] # splitSlash s
      else case splitSlash s of w # ws \<Rightarrow> (c # w) # ws | [] \<Rightarrow> [[c]])"

fun joinSlash :: "string list \<Rightarrow> string" where
  "joinSlash [] = []"
| "joinSlash [w] = w"
| "joinSlash (w # ws) = w @ CHR ''/'' # joinSlash ws"

text \<open>One path element, on the stack of the elements kept so far.\<close>

definition cleanElem :: "bool \<Rightarrow> string list \<Rightarrow> string \<Rightarrow> string list" where
  "cleanElem rooted out w =
     (if w = [] \<or> w = ''.'' then out
      else if w = ''..'' then
        (if out \<noteq> [] \<and> last out \<noteq> ''..'' then butlast out
         else if rooted then out
         else out @ [w])
      else out @ [w])"

definition cleanElems :: "bool \<Rightarrow> string list \<Rightarrow> string list" where
  "cleanElems rooted ws = foldl (cleanElem rooted) [] ws"

definition filepath_rooted :: "string \<Rightarrow> bool" where
  "filepath_rooted p \<longleftrightarrow> p \<noteq> [] \<and> hd p = CHR ''/''"

definition filepath_Clean :: "string \<Rightarrow> string" where
  "filepath_Clean p =
     (let rooted = filepath_rooted p; ws = cleanElems rooted (splitSlash p)
      in if rooted then CHR ''/'' # joinSlash ws
         else if ws = [] then ''.'' else joinSlash ws)"

fun filepath_Join :: "string list \<Rightarrow> string" where
  "filepath_Join [] = []"
| "filepath_Join (e # es) = (if e = [] then filepath_Join es else filepath_Clean (joinSlash (e # es)))"

subsection \<open>Package datadir\<close>

(* server/storage/datadir/datadir.go 5-10 memberDirSegment *)
definition memberDirSegment :: string where
  "memberDirSegment = ''member''"

(* server/storage/datadir/datadir.go 5-10 snapDirSegment *)
definition snapDirSegment :: string where
  "snapDirSegment = ''snap''"

(* server/storage/datadir/datadir.go 5-10 walDirSegment *)
definition walDirSegment :: string where
  "walDirSegment = ''wal''"

(* server/storage/datadir/datadir.go 5-10 backendFileSegment *)
definition backendFileSegment :: string where
  "backendFileSegment = ''db''"

(* server/storage/datadir/datadir.go 23-25 ToMemberDir *)
definition ToMemberDir :: "string \<Rightarrow> string" where
  "ToMemberDir dataDir = filepath_Join [dataDir, memberDirSegment]"

(* server/storage/datadir/datadir.go 19-21 ToSnapDir *)
definition ToSnapDir :: "string \<Rightarrow> string" where
  "ToSnapDir dataDir = filepath_Join [ToMemberDir dataDir, snapDirSegment]"

(* server/storage/datadir/datadir.go 15-17 ToWalDir *)
definition ToWalDir :: "string \<Rightarrow> string" where
  "ToWalDir dataDir = filepath_Join [ToMemberDir dataDir, walDirSegment]"

(* server/storage/datadir/datadir.go 12-14 ToBackendFileName *)
definition ToBackendFileName :: "string \<Rightarrow> string" where
  "ToBackendFileName dataDir = filepath_Join [ToSnapDir dataDir, backendFileSegment]"

subsection \<open>Splitting and joining\<close>

lemma splitSlash_not_Nil [simp]: "splitSlash s \<noteq> []"
  by (induction s) (auto split: list.splits)

lemma splitSlash_plain: "CHR ''/'' \<notin> set w \<Longrightarrow> splitSlash w = [w]"
  by (induction w) auto

lemma splitSlash_Cons_slash: "splitSlash (s @ CHR ''/'' # t) = splitSlash s @ splitSlash t"
  by (induction s) (auto split: list.splits)

lemma joinSlash_snoc: "ws \<noteq> [] \<Longrightarrow> joinSlash (ws @ [w]) = joinSlash ws @ CHR ''/'' # w"
  by (induction ws rule: joinSlash.induct) auto

definition plain :: "string \<Rightarrow> bool" where
  "plain w \<longleftrightarrow> w \<noteq> [] \<and> CHR ''/'' \<notin> set w"

lemma split_join: "ws \<noteq> [] \<Longrightarrow> list_all plain ws \<Longrightarrow> splitSlash (joinSlash ws) = ws"
  by (induction ws rule: joinSlash.induct) (auto simp: plain_def splitSlash_plain splitSlash_Cons_slash)

lemma splitSlash_no_slash: "w \<in> set (splitSlash s) \<Longrightarrow> CHR ''/'' \<notin> set w"
  by (induction s arbitrary: w) (auto split: if_splits list.splits)

subsection \<open>Clean paths\<close>

text \<open>
  The elements of a clean path: none is empty, a single dot or contains a slash, and double dots stand only at the
  beginning of a relative path.
\<close>

definition clean_ok :: "bool \<Rightarrow> string list \<Rightarrow> bool" where
  "clean_ok rooted ws \<longleftrightarrow>
     list_all plain ws \<and> ''.'' \<notin> set ws \<and>
     ''..'' \<notin> set (dropWhile (\<lambda>w. w = ''..'') ws) \<and> (rooted \<longrightarrow> ''..'' \<notin> set ws)"

definition name_ok :: "string \<Rightarrow> bool" where
  "name_ok w \<longleftrightarrow> plain w \<and> w \<noteq> ''.'' \<and> w \<noteq> ''..''"

lemma cleanElem_name: "name_ok w \<Longrightarrow> cleanElem rooted out w = out @ [w]"
  by (simp add: cleanElem_def name_ok_def plain_def)

lemma clean_ok_snoc: "clean_ok rooted ws \<Longrightarrow> name_ok w \<Longrightarrow> clean_ok rooted (ws @ [w])"
  by (auto simp: clean_ok_def name_ok_def dropWhile_append)

lemma clean_ok_snocD: "clean_ok rooted (ws @ [w]) \<Longrightarrow> clean_ok rooted ws"
  by (auto simp: clean_ok_def dropWhile_append split: if_splits dest: dropWhile_eq_Nil_conv [THEN iffD2])

text \<open>Only double dots stand below double dots on the stack.\<close>

lemma clean_ok_last_dots:
  assumes "clean_ok rooted ws" "ws = [] \<or> last ws = ''..''"
  shows "\<forall>w \<in> set ws. w = ''..''"
proof (rule ccontr)
  assume "\<not> ?thesis"
  then have "dropWhile (\<lambda>w. w = ''..'') ws \<noteq> []" "ws \<noteq> []"
    by auto
  then have "''..'' \<in> set (dropWhile (\<lambda>w. w = ''..'') ws)"
    using assms(2) by (metis last_appendR last_in_set takeWhile_dropWhile_id)
  then show False
    using assms(1) by (simp add: clean_ok_def)
qed

lemma cleanElem_ok:
  assumes "clean_ok rooted out" "CHR ''/'' \<notin> set w"
  shows "clean_ok rooted (cleanElem rooted out w)"
proof (cases "w = [] \<or> w = ''.'' \<or> w \<noteq> ''..''")
  case True
  then show ?thesis
    using assms clean_ok_snoc [of rooted out w] by (auto simp: cleanElem_def name_ok_def plain_def)
next
  case False
  then have w: "w = ''..''" by simp
  show ?thesis
  proof (cases "out \<noteq> [] \<and> last out \<noteq> ''..''")
    case True
    then show ?thesis
      using assms clean_ok_snocD [of rooted "butlast out" "last out"] by (simp add: w cleanElem_def)
  next
    case False
    then have "\<forall>w \<in> set out. w = ''..''"
      using clean_ok_last_dots [OF assms(1)] by blast
    then show ?thesis
      using assms False by (auto simp: w cleanElem_def clean_ok_def plain_def dropWhile_append)
  qed
qed

lemma cleanElems_ok: "\<forall>w \<in> set ws. CHR ''/'' \<notin> set w \<Longrightarrow> clean_ok rooted (cleanElems rooted ws)"
  by (induction ws rule: rev_induct) (auto simp: cleanElems_def cleanElem_ok, simp add: clean_ok_def)

text \<open>Cleaning keeps a clean path.\<close>

lemma cleanElem_clean: "clean_ok rooted (ws @ [w]) \<Longrightarrow> cleanElem rooted ws w = ws @ [w]"
  by (cases "ws = []")
    (auto simp: clean_ok_def cleanElem_def plain_def dropWhile_append split: if_splits dest: bspec [OF _ last_in_set])

lemma cleanElems_clean: "clean_ok rooted ws \<Longrightarrow> cleanElems rooted ws = ws"
proof (induction ws rule: rev_induct)
  case (snoc w ws)
  then show ?case
    using cleanElem_clean [of rooted ws w] clean_ok_snocD [of rooted ws w] by (simp add: cleanElems_def)
qed (simp add: cleanElems_def)

subsection \<open>Appending a name to a clean path\<close>

definition render :: "bool \<Rightarrow> string list \<Rightarrow> string" where
  "render rooted ws = (if rooted then CHR ''/'' # joinSlash ws else joinSlash ws)"

lemma rooted_render: "ws \<noteq> [] \<Longrightarrow> list_all plain ws \<Longrightarrow> filepath_rooted (render rooted ws @ s) = rooted"
  by (cases ws rule: joinSlash.cases)
    (auto simp: render_def filepath_rooted_def plain_def hd_append dest: hd_in_set)

lemma cleanElems_render:
  "ws \<noteq> [] \<Longrightarrow> clean_ok rooted ws \<Longrightarrow> cleanElems rooted (splitSlash (render rooted ws)) = ws"
  using cleanElems_clean [of rooted ws]
  by (auto simp: render_def split_join clean_ok_def cleanElems_def cleanElem_def)

lemma Clean_render:
  "cleanElems (filepath_rooted p) (splitSlash p) \<noteq> [] \<Longrightarrow>
   filepath_Clean p = render (filepath_rooted p) (cleanElems (filepath_rooted p) (splitSlash p))"
  by (cases "filepath_rooted p") (simp_all add: filepath_Clean_def Let_def render_def)

lemma joinSlash_Nil: "ws \<noteq> [] \<Longrightarrow> list_all plain ws \<Longrightarrow> joinSlash ws \<noteq> []"
  by (cases ws rule: joinSlash.cases) (auto simp: plain_def)

lemma Join_name:
  assumes ws: "ws \<noteq> []" "clean_ok rooted ws" and w: "name_ok w"
  shows "filepath_Join [render rooted ws, w] = render rooted ws @ CHR ''/'' # w"
    and "filepath_Join [render rooted ws, w] = render rooted (ws @ [w])"
proof -
  have plains: "list_all plain ws"
    using ws by (simp add: clean_ok_def)
  have "splitSlash (render rooted ws @ CHR ''/'' # w) = splitSlash (render rooted ws) @ [w]"
    using w by (simp add: splitSlash_Cons_slash splitSlash_plain name_ok_def plain_def)
  then have "cleanElems rooted (splitSlash (render rooted ws @ CHR ''/'' # w)) = ws @ [w]"
    using cleanElems_render [OF ws] by (simp add: cleanElems_def cleanElem_name w)
  then have "filepath_Clean (render rooted ws @ CHR ''/'' # w) = render rooted (ws @ [w])"
    using Clean_render [of "render rooted ws @ CHR ''/'' # w"] rooted_render [OF ws(1) plains] by simp
  moreover have "render rooted ws \<noteq> []"
    using joinSlash_Nil [OF ws(1) plains] by (simp add: render_def)
  ultimately show "filepath_Join [render rooted ws, w] = render rooted (ws @ [w])"
    by simp
  then show "filepath_Join [render rooted ws, w] = render rooted ws @ CHR ''/'' # w"
    using ws(1) by (simp add: render_def joinSlash_snoc)
qed

lemma segments_ok [simp]:
  "name_ok memberDirSegment" "name_ok snapDirSegment" "name_ok walDirSegment" "name_ok backendFileSegment"
  by (simp_all add: name_ok_def plain_def memberDirSegment_def snapDirSegment_def walDirSegment_def backendFileSegment_def)

lemma ToMemberDir_clean:
  obtains rooted ws where "ToMemberDir d = render rooted ws" "clean_ok rooted ws" "ws \<noteq> []"
proof (cases "d = []")
  case True
  have "ToMemberDir d = render False [memberDirSegment]"
    unfolding True by code_simp
  moreover have "clean_ok False [memberDirSegment]"
    using clean_ok_snoc [of False "[]" memberDirSegment] by (simp add: clean_ok_def)
  ultimately show ?thesis
    using that by blast
next
  case False
  let ?r = "filepath_rooted d"
  let ?ws = "cleanElems ?r (splitSlash d)"
  have "?r = filepath_rooted (d @ CHR ''/'' # memberDirSegment)"
    using False by (simp add: filepath_rooted_def hd_append)
  moreover have "splitSlash (d @ CHR ''/'' # memberDirSegment) = splitSlash d @ [memberDirSegment]"
    by (simp add: splitSlash_Cons_slash splitSlash_plain memberDirSegment_def)
  ultimately have "ToMemberDir d = render ?r (?ws @ [memberDirSegment])"
    using False by (simp add: ToMemberDir_def filepath_Clean_def Let_def render_def cleanElems_def cleanElem_name)
  moreover have "clean_ok ?r (?ws @ [memberDirSegment])"
    by (intro clean_ok_snoc cleanElems_ok) (auto dest: splitSlash_no_slash)
  ultimately show ?thesis
    using that by blast
qed

text \<open>
  For every data directory, with or without slashes at its end, relative, empty or with dots in it, the write-ahead log lies
  in \<^verbatim>\<open>wal\<close> and the backend file is \<^verbatim>\<open>snap/db\<close> below the member directory; the log and the snapshots never share a directory.
\<close>

theorem datadir_layout:
  "ToWalDir d = ToMemberDir d @ ''/wal''"
  "ToSnapDir d = ToMemberDir d @ ''/snap''"
  "ToBackendFileName d = ToMemberDir d @ ''/snap/db''"
  "ToWalDir d \<noteq> ToSnapDir d"
proof -
  obtain rooted ws where m: "ToMemberDir d = render rooted ws" "clean_ok rooted ws" "ws \<noteq> []"
    by (rule ToMemberDir_clean)
  show wal: "ToWalDir d = ToMemberDir d @ ''/wal''"
    using Join_name(1) [OF m(3,2), of walDirSegment] by (simp add: ToWalDir_def m(1)) (simp add: walDirSegment_def)
  show snap: "ToSnapDir d = ToMemberDir d @ ''/snap''"
    using Join_name(1) [OF m(3,2), of snapDirSegment] by (simp add: ToSnapDir_def m(1)) (simp add: snapDirSegment_def)
  show "ToWalDir d \<noteq> ToSnapDir d"
    by (simp add: wal snap)
  have s: "ToSnapDir d = render rooted (ws @ [snapDirSegment])"
    using Join_name(2) [OF m(3,2), of snapDirSegment] by (simp add: ToSnapDir_def m(1))
  have "filepath_Join [render rooted (ws @ [snapDirSegment]), backendFileSegment] =
    render rooted (ws @ [snapDirSegment]) @ CHR ''/'' # backendFileSegment"
    using m by (intro Join_name(1)) (simp_all add: clean_ok_snoc)
  then show "ToBackendFileName d = ToMemberDir d @ ''/snap/db''"
    by (simp add: ToBackendFileName_def s) (simp add: snap backendFileSegment_def flip: s)
qed

end
