(* ===== verification/File_Pipeline.thy ===== *)
theory File_Pipeline
  imports Go_IO Go_Fmt Data_Dir "HOL-Library.Word"
begin

unbundle bit_operations_syntax

section \<open>Locked files and the file pipeline\<close>

text \<open>
  \<^verbatim>\<open>src/client/pkg/fileutil/lock.go\<close>, the function \<^verbatim>\<open>open\<close> of \<^verbatim>\<open>lock_windows.go\<close> and \<^verbatim>\<open>src/server/storage/wal/file_pipeline.go\<close>: a goroutine that
  allocates files ahead of their use and hands them out on a channel.

  The goroutine is a step relation over the channels of the pipeline and the files it has locked; the other side of the
  channels makes steps of its own. The bodies of \<^verbatim>\<open>LockFile\<close>, \<^verbatim>\<open>lockFile\<close> and \<^verbatim>\<open>alloc\<close> break off in the middle of a statement, so what
  \<^verbatim>\<open>alloc\<close> returns is a parameter: any relation between the pipeline and a result. \<^verbatim>\<open>alloc\<close> has a pointer receiver, but the line of it that is
  there only reads the pipeline, so that in the model it writes no field of it; in particular no visible statement increments \<^verbatim>\<open>count\<close>. \<^verbatim>\<open>syscall.CreateFile\<close> on the UTF-16 form of a path is a
  parameter of \<open>open_file\<close>.

  Proved: \<open>open_file\<close> asks the system for exactly the access of its flag, no file is lost by the pipeline while it runs, no error of
  \<^verbatim>\<open>alloc\<close> is ever reported, and a client that does not drain the error channel gets at most one file and cannot stop the goroutine.
\<close>

subsection \<open>Locked files\<close>

text \<open>An \<^verbatim>\<open>*os.File\<close> by its handle and its name, and the file locked on it.\<close>

record osFile =
  ofFd :: "64 word"
  ofName :: string

(* client/pkg/fileutil/lock.go 12-14 LockedFile *)
record LockedFile =
  lfFile :: osFile

(* client/pkg/fileutil/lock.go 8-10 ErrLocked *)
definition ErrLocked :: goerr where
  "ErrLocked = OtherError ''fileutil: file already locked''"

text \<open>The constants of package syscall on Windows.\<close>

abbreviation (input) O_RDONLY :: int where "O_RDONLY \<equiv> 0"
abbreviation (input) O_WRONLY :: int where "O_WRONLY \<equiv> 1"
abbreviation (input) O_RDWR :: int where "O_RDWR \<equiv> 2"
abbreviation (input) O_CREAT :: int where "O_CREAT \<equiv> 0x40"
abbreviation (input) GENERIC_READ :: "32 word" where "GENERIC_READ \<equiv> 0x80000000"
abbreviation (input) GENERIC_WRITE :: "32 word" where "GENERIC_WRITE \<equiv> 0x40000000"
abbreviation (input) GENERIC_ALL :: "32 word" where "GENERIC_ALL \<equiv> 0x10000000"
abbreviation (input) FILE_SHARE_READ :: "32 word" where "FILE_SHARE_READ \<equiv> 1"
abbreviation (input) FILE_SHARE_WRITE :: "32 word" where "FILE_SHARE_WRITE \<equiv> 2"
abbreviation (input) FILE_SHARE_DELETE :: "32 word" where "FILE_SHARE_DELETE \<equiv> 4"
abbreviation (input) OPEN_ALWAYS :: "32 word" where "OPEN_ALWAYS \<equiv> 4"
abbreviation (input) FILE_ATTRIBUTE_NORMAL :: "32 word" where "FILE_ATTRIBUTE_NORMAL \<equiv> 0x80"
abbreviation (input) InvalidHandle :: "64 word" where "InvalidHandle \<equiv> - 1"

text \<open>The arguments of \<^verbatim>\<open>CreateFile\<close> that vary in type: path, access, share mode, creation mode and attributes.\<close>

type_synonym createFile = "string \<Rightarrow> 32 word \<Rightarrow> 32 word \<Rightarrow> 32 word \<Rightarrow> 32 word \<Rightarrow> 64 word \<times> goerr option"

text \<open>\<^verbatim>\<open>os.NewFile\<close> gives nil on an invalid handle, \<^verbatim>\<open>syscall.StringToUTF16\<close> panics on a string with a zero byte.\<close>

definition os_NewFile :: "64 word \<Rightarrow> string \<Rightarrow> osFile option" where
  "os_NewFile fd name = (if fd = InvalidHandle then None else Some \<lparr>ofFd = fd, ofName = name\<rparr>)"

text \<open>The permission argument of \<^verbatim>\<open>open\<close> is not used; it is kept as the code has it.\<close>

(* client/pkg/fileutil/lock_windows.go 18-47 open *)
definition open_file :: "createFile \<Rightarrow> string \<Rightarrow> int \<Rightarrow> 32 word \<Rightarrow> (osFile option \<times> goerr option) option" where
  "open_file CreateFile path flag perm =
     (if path = [] then Some (None, Some (OtherError ''cannot open empty filename''))
      else do {
        access \<leftarrow>
          (if flag = O_RDONLY then Some GENERIC_READ
           else if flag = O_WRONLY then Some GENERIC_WRITE
           else if flag = O_RDWR then Some (GENERIC_READ OR GENERIC_WRITE)
           else if flag = (O_WRONLY OR O_CREAT) then Some GENERIC_ALL
           else None);
        utf16 \<leftarrow> (if CHR 0x00 \<in> set path then None else Some path);
        (case CreateFile utf16 access (FILE_SHARE_READ OR FILE_SHARE_WRITE OR FILE_SHARE_DELETE) OPEN_ALWAYS FILE_ATTRIBUTE_NORMAL of
           (fd, Some err) \<Rightarrow> Some (None, Some err)
         | (fd, None) \<Rightarrow> Some (os_NewFile fd path, None))
      })"

text \<open>
  A file that is opened has the access of its flag and the path as its name. Only an unsupported flag or a path with a zero
  byte makes the function panic, and an empty path is an error before the flag is looked at.
\<close>

definition flag_access :: "(int \<times> 32 word) list" where
  "flag_access = [(0, 0x80000000), (1, 0x40000000), (2, 0xC0000000), (0x41, 0x10000000)]"

lemma open_file_access:
  "open_file CreateFile path flag perm =
     (if path = [] then Some (None, Some (OtherError ''cannot open empty filename''))
      else case map_of flag_access flag of
          None \<Rightarrow> None
        | Some access \<Rightarrow>
            (if CHR 0x00 \<in> set path then None
             else case CreateFile path access 7 4 0x80 of
                 (fd, Some err) \<Rightarrow> Some (None, Some err)
               | (fd, None) \<Rightarrow> Some (os_NewFile fd path, None)))"
  by (simp add: open_file_def flag_access_def split: prod.split option.split)

subsection \<open>The pipeline\<close>

text \<open>
  A channel has a capacity, the values in its buffer and a flag that it is closed. On \<^verbatim>\<open>filec\<close>, without a buffer, a value passes from
  the sender to the receiver in one step of both.
\<close>

record 'a go_chan =
  chCap :: nat
  chBuf :: "'a list"
  chClosed :: bool

definition make_chan :: "nat \<Rightarrow> 'a go_chan" where
  "make_chan n = \<lparr>chCap = n, chBuf = [], chClosed = False\<rparr>"

definition chan_send :: "'a \<Rightarrow> 'a go_chan \<Rightarrow> 'a go_chan" where
  "chan_send x c = c\<lparr>chBuf := chBuf c @ [x]\<rparr>"

definition chan_close :: "'a go_chan \<Rightarrow> 'a go_chan" where
  "chan_close c = c\<lparr>chClosed := True\<rparr>"

(* server/storage/wal/file_pipeline.go 11-20 filePipeline *)
record 'lg filePipeline =
  fpLg :: 'lg
  fpDir :: string
  fpSize :: "64 word"
  fpCount :: int
  fpFilec :: "LockedFile option go_chan"
  fpErrc :: "goerr option go_chan"
  fpDonec :: "unit go_chan"

text \<open>\<^verbatim>\<open>zap.NewNop()\<close> is the parameter \<open>nop\<close>. The goroutine it starts begins at the program point \<open>Allocating\<close> below.\<close>

(* server/storage/wal/file_pipeline.go 22-36 newFilePipeline *)
definition newFilePipeline :: "'lg \<Rightarrow> 'lg option \<Rightarrow> string \<Rightarrow> 64 word \<Rightarrow> 'lg filePipeline" where
  "newFilePipeline nop lg dir fileSize =
     (let lg = (case lg of None \<Rightarrow> nop | Some lg \<Rightarrow> lg)
      in \<lparr>fpLg = lg, fpDir = dir, fpSize = fileSize, fpCount = 0,
          fpFilec = make_chan 0, fpErrc = make_chan 1, fpDonec = make_chan 0\<rparr>)"

text \<open>The path that \<^verbatim>\<open>alloc\<close> computes before its body breaks off; the remainder truncates and a divisor of two never panics.\<close>

(* server/storage/wal/file_pipeline.go 38-39 filePipeline.alloc *)
definition alloc_path :: "'lg filePipeline \<Rightarrow> string" where
  "alloc_path fp = filepath_Join [fpDir fp, itoa (fpCount fp smod 2) @ ''.tmp'']"

text \<open>
  The points of \<^verbatim>\<open>run\<close>: calling \<^verbatim>\<open>alloc\<close>, sending on \<^verbatim>\<open>errc\<close>, and the \<^verbatim>\<open>select\<close>. A file is a pointer; when it is nil, asking for its name
  panics. Beside the pipeline the state keeps what has passed: the files \<^verbatim>\<open>alloc\<close> returned, those handed out and those removed,
  and the values received from \<^verbatim>\<open>errc\<close>.
\<close>

datatype run_pc = Allocating | Reporting "LockedFile option" | Offering "LockedFile option" | Returned | Panicked

record 'lg pipe =
  ppFp :: "'lg filePipeline"
  ppPc :: run_pc
  ppLocked :: "LockedFile option list"
  ppOut :: "LockedFile option list"
  ppRemoved :: "LockedFile option list"
  ppErrs :: "goerr option list"

type_synonym 'lg alloc_fn = "'lg filePipeline \<Rightarrow> LockedFile option \<times> goerr option \<Rightarrow> bool"

text \<open>The steps of the goroutine. Its deferred call closes \<^verbatim>\<open>errc\<close> when it returns or panics.\<close>

definition run_end :: "run_pc \<Rightarrow> 'lg pipe \<Rightarrow> 'lg pipe" where
  "run_end pc s = s\<lparr>ppPc := pc, ppFp := (ppFp s)\<lparr>fpErrc := chan_close (fpErrc (ppFp s))\<rparr>\<rparr>"

(* server/storage/wal/file_pipeline.go 42-58 filePipeline.run *)
inductive run_step :: "'lg alloc_fn \<Rightarrow> 'lg pipe \<Rightarrow> 'lg pipe \<Rightarrow> bool" for alloc where
  alloc_ok: "ppPc s = Allocating \<Longrightarrow> alloc (ppFp s) (f, None) \<Longrightarrow>
    run_step alloc s (s\<lparr>ppPc := Reporting f, ppLocked := ppLocked s @ [f]\<rparr>)"
| alloc_err: "ppPc s = Allocating \<Longrightarrow> alloc (ppFp s) (f, Some err) \<Longrightarrow>
    run_step alloc s (run_end Returned s)"
| send_err: "ppPc s = Reporting f \<Longrightarrow> length (chBuf (fpErrc (ppFp s))) < chCap (fpErrc (ppFp s)) \<Longrightarrow>
    run_step alloc s (s\<lparr>ppPc := Offering f, ppFp := (ppFp s)\<lparr>fpErrc := chan_send None (fpErrc (ppFp s))\<rparr>\<rparr>)"
| hand_out: "ppPc s = Offering f \<Longrightarrow>
    run_step alloc s (s\<lparr>ppPc := Allocating, ppOut := ppOut s @ [f]\<rparr>)"
| stop: "ppPc s = Offering (Some f) \<Longrightarrow> chClosed (fpDonec (ppFp s)) \<Longrightarrow>
    run_step alloc s (run_end Returned (s\<lparr>ppRemoved := ppRemoved s @ [Some f]\<rparr>))"
| stop_nil: "ppPc s = Offering None \<Longrightarrow> chClosed (fpDonec (ppFp s)) \<Longrightarrow>
    run_step alloc s (run_end Panicked s)"

text \<open>The steps of the other side: it receives from \<^verbatim>\<open>errc\<close>, where a closed and drained channel delivers nil, and closes \<^verbatim>\<open>donec\<close>.\<close>

inductive client_step :: "'lg pipe \<Rightarrow> 'lg pipe \<Rightarrow> bool" where
  receive: "chBuf (fpErrc (ppFp s)) = e # es \<Longrightarrow>
    client_step s (s\<lparr>ppErrs := ppErrs s @ [e], ppFp := (ppFp s)\<lparr>fpErrc := (fpErrc (ppFp s))\<lparr>chBuf := es\<rparr>\<rparr>\<rparr>)"
| receive_closed: "chBuf (fpErrc (ppFp s)) = [] \<Longrightarrow> chClosed (fpErrc (ppFp s)) \<Longrightarrow>
    client_step s (s\<lparr>ppErrs := ppErrs s @ [None]\<rparr>)"
| close_done: "\<not> chClosed (fpDonec (ppFp s)) \<Longrightarrow>
    client_step s (s\<lparr>ppFp := (ppFp s)\<lparr>fpDonec := chan_close (fpDonec (ppFp s))\<rparr>\<rparr>)"

inductive_cases run_stepE: "run_step alloc s s'"
inductive_cases client_stepE: "client_step s s'"

definition pipe_step :: "'lg alloc_fn \<Rightarrow> 'lg pipe \<Rightarrow> 'lg pipe \<Rightarrow> bool" where
  "pipe_step alloc s s' \<longleftrightarrow> run_step alloc s s' \<or> client_step s s'"

lemma run_pipe_steps: "run_step alloc s t \<Longrightarrow> (pipe_step alloc)\<^sup>*\<^sup>* t u \<Longrightarrow> (pipe_step alloc)\<^sup>*\<^sup>* s u"
  by (rule converse_rtranclp_into_rtranclp) (simp_all add: pipe_step_def)

definition pipe_start :: "'lg filePipeline \<Rightarrow> 'lg pipe" where
  "pipe_start fp = \<lparr>ppFp = fp, ppPc = Allocating, ppLocked = [], ppOut = [], ppRemoved = [], ppErrs = []\<rparr>"

subsection \<open>The invariant of the pipeline\<close>

text \<open>The file the goroutine holds, and the number of rounds whose error it has sent but whose file it has not handed out.\<close>

fun held :: "run_pc \<Rightarrow> LockedFile option list" where
  "held (Reporting f) = [f]"
| "held (Offering f) = [f]"
| "held _ = []"

fun reported :: "run_pc \<Rightarrow> nat" where
  "reported (Offering f) = 1"
| "reported _ = 0"

definition pipe_inv :: "string \<Rightarrow> 'lg pipe \<Rightarrow> bool" where
  "pipe_inv dir s \<longleftrightarrow>
     fpDir (ppFp s) = dir \<and> fpCount (ppFp s) = 0 \<and> chCap (fpErrc (ppFp s)) = 1 \<and>
     length (chBuf (fpErrc (ppFp s))) \<le> 1 \<and>
     (\<forall>e \<in> set (ppErrs s @ chBuf (fpErrc (ppFp s))). e = None) \<and>
     length (ppOut s) + reported (ppPc s) \<le> length (ppErrs s) + length (chBuf (fpErrc (ppFp s))) \<and>
     (if ppPc s = Panicked then ppLocked s = ppOut s @ [None]
      else ppLocked s = ppOut s @ held (ppPc s) @ ppRemoved s) \<and>
     (ppPc s \<noteq> Returned \<longrightarrow> ppRemoved s = []) \<and>
     (chClosed (fpErrc (ppFp s)) \<longleftrightarrow> ppPc s = Returned \<or> ppPc s = Panicked)"

lemma run_step_inv: "pipe_inv dir s \<Longrightarrow> run_step alloc s s' \<Longrightarrow> pipe_inv dir s'"
  by (erule run_stepE) (simp_all add: pipe_inv_def run_end_def chan_send_def chan_close_def)

lemma client_step_inv: "pipe_inv dir s \<Longrightarrow> client_step s s' \<Longrightarrow> pipe_inv dir s'"
  by (erule client_stepE) (simp_all add: pipe_inv_def chan_close_def)

interpretation pipeline: step_invariant "pipe_step alloc" "pipe_inv dir" for alloc :: "'lg alloc_fn" and dir
  by unfold_locales (auto simp: pipe_step_def intro: run_step_inv client_step_inv)

lemma pipe_start_inv: "pipe_inv dir (pipe_start (newFilePipeline nop lg dir fileSize))"
  by (simp add: pipe_inv_def pipe_start_def newFilePipeline_def make_chan_def)

lemma pipe_runs_inv:
  "(pipe_step alloc)\<^sup>*\<^sup>* (pipe_start (newFilePipeline nop lg dir fileSize)) s \<Longrightarrow> pipe_inv dir s"
  by (rule pipeline.run_keeps [OF _ pipe_start_inv])

text \<open>The goroutine cannot move when it reports into a full channel, whether \<^verbatim>\<open>donec\<close> is closed or not.\<close>

lemma reporting_blocked:
  assumes "pipe_inv dir s" "ppPc s = Reporting f" "chBuf (fpErrc (ppFp s)) \<noteq> []"
  shows "\<not> run_step alloc s s'"
  using assms by (auto simp: pipe_inv_def elim!: run_stepE)

lemma undrained_blocked:
  assumes "pipe_inv dir s" "ppErrs s = []" "ppOut s \<noteq> []" "ppPc s = Reporting f"
  shows "\<not> run_step alloc s s'"
proof (rule reporting_blocked [OF assms(1,4)])
  show "chBuf (fpErrc (ppFp s)) \<noteq> []"
    using assms by (auto simp: pipe_inv_def)
qed

subsection \<open>What the pipeline does with files and errors\<close>

text \<open>
  C29: In every state a file pipeline can get to, whatever \<^verbatim>\<open>alloc\<close> returns and whatever its client does: each file that was allocated has been
  handed out, is held by the goroutine or has been removed, in this order, except for a nil file whose name makes the goroutine panic;
  the number of files handed out is at most one more than the number of values the client has received from \<^verbatim>\<open>errc\<close>; all these values are nil, so no
  error of \<^verbatim>\<open>alloc\<close> is ever seen; and the next file has the path \<^verbatim>\<open>0.tmp\<close> of the directory, since the counter never moves. When a client that has
  received no value from \<^verbatim>\<open>errc\<close> has one file, the goroutine is blocked with the second one, even after \<^verbatim>\<open>donec\<close> is closed.
\<close>

theorem pipeline_keeps_files:
  assumes "(pipe_step alloc)\<^sup>*\<^sup>* (pipe_start (newFilePipeline nop lg dir fileSize)) s"
  shows "(ppPc s \<noteq> Panicked \<longrightarrow> ppLocked s = ppOut s @ held (ppPc s) @ ppRemoved s) \<and>
    length (ppOut s) \<le> length (ppErrs s) + 1 \<and>
    (\<forall>e \<in> set (ppErrs s). e = None) \<and>
    alloc_path (ppFp s) = filepath_Join [dir, ''0.tmp''] \<and>
    (\<forall>f s'. ppErrs s = [] \<and> ppOut s \<noteq> [] \<and> ppPc s = Reporting f \<longrightarrow> \<not> run_step alloc s s')"
proof -
  have inv: "pipe_inv dir s"
    using assms by (rule pipe_runs_inv)
  moreover have "itoa 0 = ''0''"
    by code_simp
  ultimately have "alloc_path (ppFp s) = filepath_Join [dir, ''0.tmp'']"
    by (simp add: pipe_inv_def alloc_path_def signed_modulo_int_def signed_divide_int_def)
  then show ?thesis
    using inv undrained_blocked [OF inv] by (auto simp: pipe_inv_def)
qed


text \<open>A pipeline whose \<^verbatim>\<open>alloc\<close> always gives the same file hands it out once and then blocks with the second.\<close>

definition demo_file :: LockedFile where
  "demo_file = \<lparr>lfFile = \<lparr>ofFd = 7, ofName = ''wal/0.tmp''\<rparr>\<rparr>"

definition demo_alloc :: "unit alloc_fn" where
  "demo_alloc fp r \<longleftrightarrow> r = (Some demo_file, None)"

definition demo_blocked :: "unit pipe" where
  "demo_blocked =
     \<lparr>ppFp = (newFilePipeline () None ''wal'' 64)\<lparr>fpErrc := \<lparr>chCap = 1, chBuf = [None], chClosed = False\<rparr>\<rparr>,
      ppPc = Reporting (Some demo_file), ppLocked = [Some demo_file, Some demo_file], ppOut = [Some demo_file],
      ppRemoved = [], ppErrs = []\<rparr>"

lemma demo_blocked_reached:
  "(pipe_step demo_alloc)\<^sup>*\<^sup>* (pipe_start (newFilePipeline () None ''wal'' 64)) demo_blocked"
proof -
  let ?fp = "newFilePipeline () None ''wal'' 64"
  let ?sent = "?fp\<lparr>fpErrc := \<lparr>chCap = 1, chBuf = [None], chClosed = False\<rparr>\<rparr>"
  let ?st = "\<lambda>fp pc locked out. \<lparr>ppFp = fp, ppPc = pc, ppLocked = locked, ppOut = out, ppRemoved = [], ppErrs = []\<rparr>"
  let ?f = "Some demo_file"
  have 1: "run_step demo_alloc (pipe_start ?fp) (?st ?fp (Reporting ?f) [?f] [])"
    using alloc_ok [of "pipe_start ?fp" demo_alloc ?f] by (simp add: pipe_start_def demo_alloc_def)
  have 2: "run_step demo_alloc (?st ?fp (Reporting ?f) [?f] []) (?st ?sent (Offering ?f) [?f] [])"
    using send_err [of "?st ?fp (Reporting ?f) [?f] []" ?f demo_alloc]
    by (simp add: newFilePipeline_def make_chan_def chan_send_def)
  have 3: "run_step demo_alloc (?st ?sent (Offering ?f) [?f] []) (?st ?sent Allocating [?f] [?f])"
    using hand_out [of "?st ?sent (Offering ?f) [?f] []" ?f demo_alloc] by simp
  have 4: "run_step demo_alloc (?st ?sent Allocating [?f] [?f]) demo_blocked"
    using alloc_ok [of "?st ?sent Allocating [?f] [?f]" demo_alloc ?f] by (simp add: demo_blocked_def demo_alloc_def)
  show ?thesis
    by (rule run_pipe_steps [OF 1] run_pipe_steps [OF 2] run_pipe_steps [OF 3] run_pipe_steps [OF 4] rtranclp.rtrancl_refl)+
qed

theorem pipeline_keeps_files_witness:
  "ppOut demo_blocked = [Some demo_file] \<and>
   ppLocked demo_blocked = ppOut demo_blocked @ held (ppPc demo_blocked) @ ppRemoved demo_blocked \<and>
   (\<forall>s'. \<not> run_step demo_alloc demo_blocked s')"
  using pipeline_keeps_files [OF demo_blocked_reached] by (simp add: demo_blocked_def)

end
