(* ===== verification/Spec2Isabelle.thy ===== *)
theory Spec2Isabelle
  imports Node_Client Raft_Cluster Wal Bounded_Readers State_Machine Startup KV_Election KV_Log_Matching KV_Race KV_Replication Printing File_Pipeline
begin

text \<open>
  A verification of MyRaft, a raft library in Go (\<^verbatim>\<open>src/raft\<close>), and of the key-value program around it.

  \<^bold>\<open>The program.\<close> A raft peer (\<^verbatim>\<open>raft.go\<close>) is a state machine that is stepped messages and ticks. It replicates a log
  (\<^verbatim>\<open>log.go\<close>: a stable part in a \<^verbatim>\<open>Storage\<close>, \<^verbatim>\<open>storage.go\<close>, and an unstable tail, \<^verbatim>\<open>log_unstable.go\<close>), keeps the leader's
  view of every follower (package \<^verbatim>\<open>tracker\<close>: a progress per follower with a sliding window of messages in
  flight), decides votes and the commit index with majorities (package \<^verbatim>\<open>quorum\<close>) and queues read requests
  (\<^verbatim>\<open>read_only.go\<close>). \<^verbatim>\<open>RawNode\<close> (\<^verbatim>\<open>rawnode.go\<close>) hands the results to the application, \<^verbatim>\<open>node.run\<close> (\<^verbatim>\<open>node.go\<close>) is the
  goroutine that drives it, and the methods of \<^verbatim>\<open>node\<close> talk to it over channels. The messages are the protobuf structs of \<^verbatim>\<open>raftpb\<close>.

  Independent of it, package \<^verbatim>\<open>node\<close> has an earlier replication protocol over gRPC, which \<^verbatim>\<open>main.go\<close> starts: elections, heartbeats and
  appending of items, with items stored in redis. Package \<^verbatim>\<open>state\<close> is a state machine driven by a goroutine.
  \<^verbatim>\<open>server/storage/wal\<close> frames records for a write-ahead log, on top of the page writer, readers and checksum of \<^verbatim>\<open>pkg\<close>.

  \<^bold>\<open>The theories\<close>, in the order of their imports:

  \<^descr> \<open>Go_Prelude\<close>: Go values and panics. Machine integers are words; a call that may panic is an option, and
    \<open>ensures\<close> and \<open>returns\<close> are its weakest preconditions of partial and total correctness. The locale \<open>step_invariant\<close> is an
    invariant of a step relation; the networks, the event loop, the state machine and the file pipeline interpret it.
  \<^descr> \<open>Raftpb\<close>: the enumerations and structs of \<^verbatim>\<open>raft.pb.go\<close>, the errors and the logger.
  \<^descr> \<open>Quorum\<close>: \<^verbatim>\<open>majority.go\<close> and \<^verbatim>\<open>joint.go\<close>. The locale \<open>vote_rule\<close> is what elections rely on; both configurations
    interpret it. A verdict is given exactly when later votes cannot change it, two candidates cannot both
    win, and the verdict does not depend on the order of the voter map. The commit index is one that a voter
    acknowledged, but it is not the quorum's, because the array is not sorted.
  \<^descr> \<open>Inflights\<close>: the ring buffer of \<^verbatim>\<open>inflights.go\<close> implements the bounded queue of the locale \<open>sliding_window\<close>.
  \<^descr> \<open>Progress\<close>: \<^verbatim>\<open>progress.go\<close> and \<^verbatim>\<open>tracker.go\<close>. Acknowledgements move a progress forward, rejections back it off,
    \<^verbatim>\<open>Visit\<close> goes through the peers in ascending order, the first vote of a peer counts.
  \<^descr> \<open>Raft_Storage\<close>: \<^verbatim>\<open>storage.go\<close>. The locale \<open>storage_iface\<close> is the documented behaviour of a \<^verbatim>\<open>Storage\<close>;
    \<^verbatim>\<open>MemoryStorage\<close> interprets it under its invariant \<open>ms_ok\<close>, which \<^verbatim>\<open>Append\<close>, \<^verbatim>\<open>Compact\<close> and the snapshot methods keep.
  \<^descr> \<open>Raft_Log\<close>: \<^verbatim>\<open>log.go\<close> and \<^verbatim>\<open>log_unstable.go\<close>. Reading is proved once inside \<open>storage_iface\<close>; over a memory storage
    \<^verbatim>\<open>slice\<close>, \<^verbatim>\<open>maybeCommit\<close>, \<^verbatim>\<open>maybeAppend\<close>, \<^verbatim>\<open>findConflictByTerm\<close>, \<^verbatim>\<open>isUpToDate\<close> and \<^verbatim>\<open>restore\<close> are characterised completely, and
    persisting the unstable tail changes nothing of what the log holds.
  \<^descr> \<open>Read_Only\<close>: \<^verbatim>\<open>read_only.go\<close>, with the invariant that queue and map hold the same requests.
  \<^descr> \<open>Raft_State\<close>, \<open>Raft_Step\<close>: \<^verbatim>\<open>raft.go\<close>. The struct is the record \<open>raft\<close>; every method is a function on it,
    down to \<open>Step\<close>, \<open>tickElection\<close> and \<open>tickHeartBeat\<close>.
  \<^descr> \<open>Raft_Frames\<close>, \<open>Raft_Props\<close>: what the operations keep, and the theorems on executions (\<open>raft_next\<close>): roles stay
    consistent, the commit index never goes back, one vote per term, messages are only appended.
  \<^descr> \<open>Raft_Behaviour\<close>: heartbeats, the answer to append requests, the end of the replication loop, and the
    departures of the code from the protocol.
  \<^descr> \<open>Raft_Cluster\<close>: peers connected by a network that loses, delays, repeats and reorders messages. With two or more voters no
    peer ever becomes leader.
  \<^descr> \<open>Raw_Node\<close>: \<^verbatim>\<open>rawnode.go\<close>, \<^verbatim>\<open>node.go\<close>, \<^verbatim>\<open>status.go\<close>, \<^verbatim>\<open>bootstrap.go\<close>. The event loop is the step relation \<open>node_step\<close>.
  \<^descr> \<open>Node_Client\<close>: the methods of a running node (\<^verbatim>\<open>Propose\<close>, \<^verbatim>\<open>Step\<close>, \<^verbatim>\<open>Tick\<close>, \<^verbatim>\<open>Stop\<close> and the others) as relations between the loop before and
    after a call. A call is at most one step of the loop, so the theorems on the loop hold for all clients.
  \<^descr> \<open>Go_IO\<close>: errors, \<^verbatim>\<open>io.Writer\<close>, \<^verbatim>\<open>io.Reader\<close>, little-endian integers. The locale \<open>lossless_writer\<close> is the contract of a writer that does
    not fail; a buffer and a page writer over a buffer interpret it.
  \<^descr> \<open>Page_Writer\<close>, \<open>Bounded_Readers\<close>, \<open>Crc_Digest\<close>: \<^verbatim>\<open>pkg/ioutil\<close> and \<^verbatim>\<open>pkg/crc\<close>. The page writer keeps the stream and writes whole
    pages; the exact reader delivers the announced number of bytes; the digest ignores what it is given.
  \<^descr> \<open>Wal\<close>: \<^verbatim>\<open>encoder.go\<close> and \<^verbatim>\<open>decoder.go\<close>. The encoder appends frames; length fields round-trip; the exact result of
    decoding an encoded record, which is right only as long as enough bytes follow.
  \<^descr> \<open>KV_Node\<close>, \<open>KV_Client\<close>, \<open>KV_Cluster\<close>: package \<^verbatim>\<open>node\<close>. The handlers; the requests, elections and commitment of a node, \<^verbatim>\<open>election\<close> in the pieces between
    which other goroutines run; and what these keep: created nodes form a cluster, a follower of one leader holds a prefix of the leader's items, an append may take a vote back.
  \<^descr> \<open>KV_Election\<close>: the elections of a cluster, their goroutines and the handlers of all nodes as events in any order. An election whose node keeps
    its term until the end is the only one to win the term; one whose node accepts another candidate meanwhile makes a second leader.
  \<^descr> \<open>KV_Log_Matching\<close>: nodes that append to each other. Items of the same index and term have the same items before them.
  \<^descr> \<open>KV_Replication\<close>: a leader of package \<^verbatim>\<open>node\<close> with all its followers, which it calls one at a time. What it counts as accepted or committed is stored by more than half of the
    nodes; since it does not count itself, three nodes need both followers.
  \<^descr> \<open>KV_Race\<close>: the handlers \<^verbatim>\<open>Election\<close> and \<^verbatim>\<open>Append\<close> and the end of \<^verbatim>\<open>SendAppendEntry\<close> cut into their accesses to the node. Alone each is the atomic operation; two that interleave can elect
    two leaders in one term, store one entry twice, or move the accept index beyond the last item.
  \<^descr> \<open>Go_Fmt\<close>, \<open>Printing\<close>: decimal numbers and the \<^verbatim>\<open>String\<close> methods of \<^verbatim>\<open>quorum\<close>, \<^verbatim>\<open>tracker\<close> and \<^verbatim>\<open>raft\<close>. The locale \<open>readable\<close> is a printed form that
    can be read back; vote results, indexes and the redis keys of the nodes print without collisions, and a progress
    map prints the same in every order of traversal.
  \<^descr> \<open>Data_Dir\<close>: \<^verbatim>\<open>datadir.go\<close> over a model of \<^verbatim>\<open>filepath.Join\<close>; the layout below the member directory.
  \<^descr> \<open>File_Pipeline\<close>: \<^verbatim>\<open>file_pipeline.go\<close> and \<^verbatim>\<open>client/pkg/fileutil\<close>. The goroutine that allocates files ahead of their use as a step relation:
    it loses no file, reports no error, and blocks when its error channel is not drained; \<^verbatim>\<open>open\<close> asks for the access of its flag.
  \<^descr> \<open>State_Machine\<close>: package \<^verbatim>\<open>state\<close>. Under fairness a started machine becomes leader and stays it; two starts can deadlock it.
  \<^descr> \<open>Startup\<close>: \<^verbatim>\<open>main.go\<close> and the variables of the packages it sets. The started nodes form a cluster;
    the database service is started with a nil node.

  \<^bold>\<open>Loops.\<close> No fuel is used. Loops over data are structural recursion; \<^verbatim>\<open>FreeLE\<close>, the insertion sort and \<^verbatim>\<open>campaign\<close> have
  termination proofs, as has the decoder's walk over its files; the loops that need not end for arbitrary states are
  partial functions: those in \<^verbatim>\<open>findConflictByTerm\<close>, around \<^verbatim>\<open>maybeSendAppend\<close> and in the page writer's \<^verbatim>\<open>Write\<close> are proved to return on
  well-formed states, and the catch-up loop of package \<^verbatim>\<open>node\<close> is proved to return exactly when a call fails.
  Elections and replication of package \<^verbatim>\<open>node\<close> are considered while terms and indexes fit the 32 bits of the messages.

  \<^bold>\<open>What the code gets wrong\<close> is stated as theorems too: vote responses are always rejections, so no group of two or
  more voters elects a leader, an election without pre-vote panics, a candidate loses its term to a heartbeat, a follower ignores entries, the log does not store
  appended entries, outgoing messages are lost in \<^verbatim>\<open>Ready\<close>, and the constructors panic. The safety theorems
  on executions therefore start from any well-formed peer, not from \<^verbatim>\<open>newRaft\<close>. The write-ahead log cannot be read back
  in general, its checksums do not depend on the data, the page writer hides errors, an append takes a vote back,
  an election whose term has passed still makes a leader, concurrent election requests elect two leaders, concurrent appends store an entry twice, concurrent
  replies move the accept index beyond the last item, the leader does not
  count itself, the catch-up loop does not advance, the file pipeline hides errors and blocks, and the loop of a created key-value node waits on nil channels.

  \<^bold>\<open>Parameters.\<close> \<^verbatim>\<open>rand.Intn\<close> is the field \<open>rIntn\<close> of the peer, assumed to stay in range (\<open>intn_ok\<close>) where that matters.
  Map iteration order is the order of an association list, and theorems hold for every order. The writer and the
  reader below, the protobuf codec (\<open>codec_ok\<close>), the redis client, the network, the clock, \<^verbatim>\<open>CreateFile\<close> and what \<^verbatim>\<open>alloc\<close> of the file pipeline returns are arguments of the definitions
  that use them.

  \<^bold>\<open>Not modelled.\<close> The generated protobuf and gRPC code beyond the structs, logging, metrics, the commented-out part of \<^verbatim>\<open>raft_server.go\<close> and
  the fake logger of the tests. \<^verbatim>\<open>LockFile\<close> and \<^verbatim>\<open>lockFile\<close> of \<^verbatim>\<open>lock_windows.go\<close>, \<^verbatim>\<open>isTornEntry\<close> of the decoder and the body of the pipeline's \<^verbatim>\<open>alloc\<close> after its
  first line are unfinished: they break off in the middle of a statement or have no result. \<^verbatim>\<open>MemoryStorage\<close> returns \<^verbatim>\<open>[]Entry\<close> where the interface has \<^verbatim>\<open>[]*Entry\<close>, and does
  not compile; the model has one type of entries. The handlers of a key-value node run one after the
  other except in \<open>KV_Race\<close>: the code has locks around single fields only, and interleavings inside the other handlers are not considered. In \<open>KV_Election\<close> handlers run between the
  statements of an election, but not inside \<^verbatim>\<open>n.Term++\<close> or between the count of the votes and \<^verbatim>\<open>SetState\<close>, and a node runs one election at a time, as the commented-out loop that called
  \<^verbatim>\<open>election\<close> did.
\<close>

end
